(* ===== verification/Prelude.thy ===== *)
theory Prelude
  imports Main "HOL-Library.Word" "HOL-Library.Char_ord" "HOL-Library.List_Lexorder"
    "HOL-Library.Sublist" "HOL-Library.Mapping"
begin

text \<open>
  Shared vocabulary of the development: machine integers and bytes, the result type that stands for
  Rust's \<open>Result\<close> together with panics, the sequencing operator for the \<open>?\<close> operator, and the facts
  about lists, words and characters that several components use.
\<close>

section \<open>Machine integers\<close>

type_synonym u8 = "8 word"
type_synonym u16 = "16 word"
type_synonym u32 = "32 word"
type_synonym u64 = "64 word"
type_synonym bytes = "u8 list"

text \<open>A Rust \<open>str\<close> is the list of the bytes of its UTF-8 encoding; HOL's 8-bit \<open>char\<close> is one byte.\<close>

type_synonym str = string

section \<open>Results and panics\<close>

text \<open>
  \<open>Ok\<close> and \<open>Err\<close> are the constructors of Rust's \<open>Result\<close>; \<open>Panic\<close> is a call that unwinds instead
  of returning (an \<open>unwrap\<close> of \<open>None\<close>, a slice outside of its bounds).
\<close>

datatype ('e, 'a) res = Ok 'a | Err 'e | Panic

named_theorems res_iff \<open>inversion rules for computations that return or fail\<close>
named_theorems io_simps \<open>what the input and output primitives do to the connection\<close>
named_theorems wire_simps \<open>the frame encoding\<close>
named_theorems text_simps \<open>lines, tokens and trimming of a text\<close>

fun bind_res :: "('e, 'a) res \<Rightarrow> ('a \<Rightarrow> ('e, 'b) res) \<Rightarrow> ('e, 'b) res" where
  "bind_res (Ok a) f = f a"
| "bind_res (Err e) f = Err e"
| "bind_res Panic f = Panic"

fun map_err :: "('e \<Rightarrow> 'f) \<Rightarrow> ('e, 'a) res \<Rightarrow> ('f, 'a) res" where
  "map_err g (Ok a) = Ok a"
| "map_err g (Err e) = Err (g e)"
| "map_err g Panic = Panic"

fun map_ok :: "('a \<Rightarrow> 'b) \<Rightarrow> ('e, 'a) res \<Rightarrow> ('e, 'b) res" where
  "map_ok g (Ok a) = Ok (g a)"
| "map_ok g (Err e) = Err e"
| "map_ok g Panic = Panic"

fun ok_or :: "'e \<Rightarrow> 'a option \<Rightarrow> ('e, 'a) res" where
  "ok_or e None = Err e"
| "ok_or e (Some a) = Ok a"

fun of_sum :: "'e + 'a \<Rightarrow> ('e, 'a) res" where
  "of_sum (Inl e) = Err e"
| "of_sum (Inr a) = Ok a"

fun is_ok :: "('e, 'a) res \<Rightarrow> bool" where
  "is_ok (Ok a) = True"
| "is_ok (Err e) = False"
| "is_ok Panic = False"

lemma bind_res_Ok_iff [res_iff]: "bind_res r f = Ok b \<longleftrightarrow> (\<exists>a. r = Ok a \<and> f a = Ok b)"
  by (cases r) auto

lemma bind_res_Panic_iff [res_iff]: "bind_res r f = Panic \<longleftrightarrow> r = Panic \<or> (\<exists>a. r = Ok a \<and> f a = Panic)"
  by (cases r) auto

lemma bind_res_Err_iff [res_iff]:
  "bind_res r f = Err e \<longleftrightarrow> r = Err e \<or> (\<exists>a. r = Ok a \<and> f a = Err e)"
  by (cases r) auto

lemma map_err_Ok_iff [res_iff]: "map_err g r = Ok a \<longleftrightarrow> r = Ok a"
  by (cases r) auto

lemma map_err_Panic_iff [res_iff]: "map_err g r = Panic \<longleftrightarrow> r = Panic"
  by (cases r) auto

lemma map_err_Err_iff [res_iff]: "map_err g r = Err e \<longleftrightarrow> (\<exists>d. r = Err d \<and> g d = e)"
  by (cases r) auto

lemma map_ok_Ok_iff [res_iff]: "map_ok g r = Ok b \<longleftrightarrow> (\<exists>a. r = Ok a \<and> b = g a)"
  by (cases r) auto

lemma map_ok_Panic_iff [res_iff]: "map_ok g r = Panic \<longleftrightarrow> r = Panic"
  by (cases r) auto

lemma ok_or_Ok_iff [res_iff]: "ok_or e x = Ok a \<longleftrightarrow> x = Some a"
  by (cases x) auto

lemma ok_or_Err_iff [res_iff]: "ok_or e x = Err d \<longleftrightarrow> x = None \<and> d = e"
  by (cases x) auto

lemma ok_or_not_Panic [res_iff, simp]: "ok_or e x \<noteq> Panic"
  by (cases x) auto

lemma of_sum_Ok_iff [res_iff]: "of_sum x = Ok a \<longleftrightarrow> x = Inr a"
  by (cases x) auto

lemma of_sum_Err_iff [res_iff]: "of_sum x = Err e \<longleftrightarrow> x = Inl e"
  by (cases x) auto

lemma of_sum_not_Panic [res_iff, simp]: "of_sum x \<noteq> Panic"
  by (cases x) auto

section \<open>Bytes and characters\<close>

definition byte_of_char :: "char \<Rightarrow> u8" where
  "byte_of_char c = of_char c"

definition char_of_byte :: "u8 \<Rightarrow> char" where
  "char_of_byte b = char_of (unat b)"

text \<open>Rust's \<open>str::as_bytes\<close>, and \<open>String::from_utf8\<close> on bytes already known to be valid.\<close>

definition as_bytes :: "str \<Rightarrow> bytes" where
  "as_bytes s = map byte_of_char s"

definition str_of_bytes :: "bytes \<Rightarrow> str" where
  "str_of_bytes bs = map char_of_byte bs"

lemma unat_byte_of_char: "unat (byte_of_char c) = of_char c"
proof -
  have "byte_of_char c = word_of_nat (of_char c)"
    by (simp add: byte_of_char_def of_nat_of_char)
  then show ?thesis
    by (simp add: unat_of_nat)
qed

lemma char_of_byte_of_char [simp]: "char_of_byte (byte_of_char c) = c"
  by (simp add: char_of_byte_def unat_byte_of_char)

lemma byte_of_char_of_byte [simp]: "byte_of_char (char_of_byte b) = b"
proof -
  have "unat b < 2 ^ LENGTH(8)"
    by (rule unsigned_less)
  then have "unat (byte_of_char (char_of_byte b)) = unat b"
    by (simp add: unat_byte_of_char char_of_byte_def)
  then show ?thesis
    by (rule unsigned_word_eqI)
qed

lemma str_of_as_bytes [simp]: "str_of_bytes (as_bytes s) = s"
  by (simp add: str_of_bytes_def as_bytes_def comp_def)

lemma as_bytes_of_bytes [simp]: "as_bytes (str_of_bytes bs) = bs"
  by (simp add: str_of_bytes_def as_bytes_def comp_def)

lemma as_bytes_append [simp]: "as_bytes (s @ t) = as_bytes s @ as_bytes t"
  by (simp add: as_bytes_def)

lemma length_as_bytes [simp]: "length (as_bytes s) = length s"
  by (simp add: as_bytes_def)

lemma as_bytes_inject [simp]: "as_bytes s = as_bytes t \<longleftrightarrow> s = t"
  by (metis str_of_as_bytes)

section \<open>Lists\<close>

lemma prefix_append_Cons_notin:
  assumes "prefix w (xs @ y # ys)" and "y \<notin> set w"
  shows "prefix w xs"
  using assms by (induction xs arbitrary: w) (auto simp: prefix_Cons split: list.splits)

fun join :: "str \<Rightarrow> str list \<Rightarrow> str" where
  "join sep [] = []"
| "join sep [s] = s"
| "join sep (s # ss) = s @ sep @ join sep ss"

lemma join_snoc_empty: "join sep (ss @ [[]]) = concat (map (\<lambda>s. s @ sep) ss)"
proof (induction ss)
  case Nil
  then show ?case by simp
next
  case (Cons s ss)
  then show ?case by (cases "ss @ [[]]") auto
qed

end
