(* ===== verification/Rust_Str.thy ===== *)
theory Rust_Str
  imports Prelude
begin

text \<open>
  The operations of Rust's \<open>str\<close> and integer types that the program uses, on the bytes of the UTF-8
  encoding: white space and trimming, lines and tokens, substring search, checked slicing, case
  folding, integer parsing and printing. Every multi-byte character is handled through the bytes that
  encode it, so lengths and indices are byte counts, as they are in Rust.

  Two functions of the standard library depend on Unicode tables that this theory does not contain:
  \<open>str::to_lowercase\<close> outside ASCII and the \<open>Debug\<close> rendering of a string outside ASCII. They are
  arguments of the definitions here and are consulted for non-ASCII strings only.
\<close>

section \<open>Characters\<close>

definition code :: "char \<Rightarrow> nat" where
  "code c = of_char c"

definition is_ascii :: "char \<Rightarrow> bool" where
  "is_ascii c \<longleftrightarrow> code c < 128"

definition is_cont :: "char \<Rightarrow> bool" where
  "is_cont c \<longleftrightarrow> 128 \<le> code c \<and> code c < 192"

definition is_ascii_digit :: "char \<Rightarrow> bool" where
  "is_ascii_digit c \<longleftrightarrow> 48 \<le> code c \<and> code c \<le> 57"

definition to_ascii_lower :: "char \<Rightarrow> char" where
  "to_ascii_lower c = (if 65 \<le> code c \<and> code c \<le> 90 then char_of (code c + 32) else c)"

abbreviation nl :: char where
  "nl \<equiv> CHR 0x0A"

abbreviation cr :: char where
  "cr \<equiv> CHR 0x0D"

section \<open>White space\<close>

text \<open>
  The characters with the Unicode property \<open>White_Space\<close>, which is what \<open>char::is_whitespace\<close> tests,
  each as its UTF-8 encoding: U+0009 to U+000D, U+0020, U+0085, U+00A0, U+1680, U+2000 to U+200A,
  U+2028, U+2029, U+202F, U+205F and U+3000.
\<close>

definition ws_seqs :: "str list" where
  "ws_seqs =
     [[CHR 0x09], [CHR 0x0A], [CHR 0x0B], [CHR 0x0C], [CHR 0x0D], [CHR 0x20],
      [CHR 0xC2, CHR 0x85], [CHR 0xC2, CHR 0xA0],
      [CHR 0xE1, CHR 0x9A, CHR 0x80],
      [CHR 0xE2, CHR 0x80, CHR 0x80], [CHR 0xE2, CHR 0x80, CHR 0x81], [CHR 0xE2, CHR 0x80, CHR 0x82],
      [CHR 0xE2, CHR 0x80, CHR 0x83], [CHR 0xE2, CHR 0x80, CHR 0x84], [CHR 0xE2, CHR 0x80, CHR 0x85],
      [CHR 0xE2, CHR 0x80, CHR 0x86], [CHR 0xE2, CHR 0x80, CHR 0x87], [CHR 0xE2, CHR 0x80, CHR 0x88],
      [CHR 0xE2, CHR 0x80, CHR 0x89], [CHR 0xE2, CHR 0x80, CHR 0x8A],
      [CHR 0xE2, CHR 0x80, CHR 0xA8], [CHR 0xE2, CHR 0x80, CHR 0xA9], [CHR 0xE2, CHR 0x80, CHR 0xAF],
      [CHR 0xE2, CHR 0x81, CHR 0x9F], [CHR 0xE3, CHR 0x80, CHR 0x80]]"

definition lead :: "str list \<Rightarrow> str \<Rightarrow> nat" where
  "lead seqs s = (case find (\<lambda>w. prefix w s) seqs of None \<Rightarrow> 0 | Some w \<Rightarrow> length w)"

text \<open>The number of bytes of the white-space character at the start of \<open>s\<close>, 0 if there is none.\<close>

definition ws_len :: "str \<Rightarrow> nat" where
  "ws_len s = lead ws_seqs s"

lemma lead_le: "lead seqs s \<le> length s"
  by (auto simp: lead_def find_Some_iff prefix_length_le split: option.splits)

lemma lead_pos_nonempty: "0 < lead seqs s \<Longrightarrow> s \<noteq> []"
  using lead_le [of seqs s] by auto

function strip :: "str list \<Rightarrow> str \<Rightarrow> str" where
  "strip seqs s = (if lead seqs s = 0 then s else strip seqs (drop (lead seqs s) s))"
  by pat_completeness auto
termination
  by (relation "measure (\<lambda>(seqs, s). length s)") (auto simp: lead_pos_nonempty)

declare strip.simps [simp del]

definition trim_start :: "str \<Rightarrow> str" where
  "trim_start s = strip ws_seqs s"

definition trim_end :: "str \<Rightarrow> str" where
  "trim_end s = rev (strip (map rev ws_seqs) (rev s))"

definition trim :: "str \<Rightarrow> str" where
  "trim s = trim_end (trim_start s)"

text \<open>\<open>str::split_whitespace\<close>: the maximal runs without white space; \<open>acc\<close> is the current run.\<close>

function tokens_from :: "str \<Rightarrow> str \<Rightarrow> str list" where
  "tokens_from acc s =
     (case s of
        [] \<Rightarrow> (if acc = [] then [] else [acc])
      | c # r \<Rightarrow>
          (if ws_len s = 0 then tokens_from (acc @ [c]) r
           else (if acc = [] then [] else [acc]) @ tokens_from [] (drop (ws_len s) s)))"
  by pat_completeness auto
termination
  by (relation "measure (\<lambda>(acc, s). length s)") auto

declare tokens_from.simps [simp del]

definition split_whitespace :: "str \<Rightarrow> str list" where
  "split_whitespace s = tokens_from [] s"

section \<open>Lines\<close>

definition strip_cr :: "str \<Rightarrow> str" where
  "strip_cr l = (if l \<noteq> [] \<and> last l = cr then butlast l else l)"

text \<open>
  \<open>str::lines\<close>: a line ends at a line feed, which is removed together with a carriage return before
  it; text after the last line feed is a line of its own and keeps a trailing carriage return.
\<close>

function lines :: "str \<Rightarrow> str list" where
  "lines s =
     (if s = [] then []
      else case dropWhile (\<lambda>c. c \<noteq> nl) s of
             [] \<Rightarrow> [s]
           | _ # rest \<Rightarrow> strip_cr (takeWhile (\<lambda>c. c \<noteq> nl) s) # lines rest)"
  by pat_completeness auto
termination
proof (relation "measure length", goal_cases)
  case 1
  then show ?case by simp
next
  case (2 s c rest)
  have "length (dropWhile (\<lambda>c. c \<noteq> nl) s) \<le> length s"
    by (rule length_dropWhile_le)
  with 2 show ?case by simp
qed

declare lines.simps [simp del]

section \<open>Searching and slicing\<close>

text \<open>\<open>str::find\<close> with a string pattern: the byte index of the first occurrence.\<close>

fun find_sub :: "str \<Rightarrow> str \<Rightarrow> nat option" where
  "find_sub p [] = (if p = [] then Some 0 else None)"
| "find_sub p (c # s) = (if prefix p (c # s) then Some 0 else map_option Suc (find_sub p s))"

definition contains :: "str \<Rightarrow> str \<Rightarrow> bool" where
  "contains s p \<longleftrightarrow> find_sub p s \<noteq> None"

definition starts_with :: "str \<Rightarrow> str \<Rightarrow> bool" where
  "starts_with s p \<longleftrightarrow> prefix p s"

text \<open>\<open>str::rsplit_once\<close> with a one-byte pattern: split at its last occurrence.\<close>

definition rsplit_once :: "char \<Rightarrow> str \<Rightarrow> (str \<times> str) option" where
  "rsplit_once c s =
     (if c \<in> set s
      then Some (rev (tl (dropWhile (\<lambda>d. d \<noteq> c) (rev s))), rev (takeWhile (\<lambda>d. d \<noteq> c) (rev s)))
      else None)"

text \<open>\<open>str::trim_matches\<close> with a set of ASCII characters.\<close>

definition trim_matches :: "char list \<Rightarrow> str \<Rightarrow> str" where
  "trim_matches cs s =
     rev (dropWhile (\<lambda>c. c \<in> set cs) (rev (dropWhile (\<lambda>c. c \<in> set cs) s)))"

text \<open>Indexing \<open>&s[a..b]\<close> panics outside of the string and inside of a character's encoding.\<close>

definition is_char_boundary :: "str \<Rightarrow> nat \<Rightarrow> bool" where
  "is_char_boundary s i \<longleftrightarrow> i = 0 \<or> i = length s \<or> (i < length s \<and> \<not> is_cont (s ! i))"

definition str_slice :: "str \<Rightarrow> nat \<Rightarrow> nat \<Rightarrow> ('e, str) res" where
  "str_slice s a b =
     (if a \<le> b \<and> b \<le> length s \<and> is_char_boundary s a \<and> is_char_boundary s b
      then Ok (take (b - a) (drop a s)) else Panic)"

section \<open>Case folding and rendering\<close>

definition to_lowercase :: "(str \<Rightarrow> str) \<Rightarrow> str \<Rightarrow> str" where
  "to_lowercase uni s = (if list_all is_ascii s then map to_ascii_lower s else uni s)"

definition hex_digit :: "nat \<Rightarrow> char" where
  "hex_digit n = (if n < 10 then char_of (48 + n) else char_of (87 + n))"

fun string_of_nat :: "nat \<Rightarrow> str" where
  "string_of_nat n =
     (if n < 10 then [char_of (48 + n)] else string_of_nat (n div 10) @ [char_of (48 + n mod 10)])"

declare string_of_nat.simps [simp del]

fun hex_of_nat :: "nat \<Rightarrow> str" where
  "hex_of_nat n = (if n < 16 then [hex_digit n] else hex_of_nat (n div 16) @ [hex_digit (n mod 16)])"

declare hex_of_nat.simps [simp del]

definition escape_char :: "char \<Rightarrow> str" where
  "escape_char c =
     (if code c = 0 then [CHR 0x5C, CHR ''0'']
      else if code c = 9 then [CHR 0x5C, CHR ''t'']
      else if code c = 10 then [CHR 0x5C, CHR ''n'']
      else if code c = 13 then [CHR 0x5C, CHR ''r'']
      else if code c = 34 \<or> code c = 92 then [CHR 0x5C, c]
      else if code c < 32 \<or> code c = 127 then CHR 0x5C # ''u{'' @ hex_of_nat (code c) @ ''}''
      else [c])"

text \<open>The \<open>{:?}\<close> rendering of a string: quoted, with escapes.\<close>

definition debug_str :: "(str \<Rightarrow> str) \<Rightarrow> str \<Rightarrow> str" where
  "debug_str uni s =
     (if list_all is_ascii s then CHR 0x22 # concat (map escape_char s) @ [CHR 0x22] else uni s)"

section \<open>Integers\<close>

definition digit_val :: "nat \<Rightarrow> char \<Rightarrow> nat option" where
  "digit_val radix c =
     (let v = (if 48 \<le> code c \<and> code c \<le> 57 then code c - 48
               else if 97 \<le> code c \<and> code c \<le> 122 then code c - 87
               else if 65 \<le> code c \<and> code c \<le> 90 then code c - 55
               else radix)
      in if v < radix then Some v else None)"

fun parse_digits :: "nat \<Rightarrow> nat \<Rightarrow> nat \<Rightarrow> str \<Rightarrow> nat option" where
  "parse_digits radix lim acc [] = Some acc"
| "parse_digits radix lim acc (c # cs) =
     (case digit_val radix c of
        None \<Rightarrow> None
      | Some d \<Rightarrow> if lim \<le> acc * radix + d then None else parse_digits radix lim (acc * radix + d) cs)"

text \<open>
  \<open>from_str_radix\<close> of the unsigned types (\<open>parse\<close> is radix 10): one leading plus sign is accepted, a
  sign alone and the empty string are errors, as are a digit out of the radix and an overflow. The
  callers do not look at which error it is.
\<close>

definition parse_uint :: "nat \<Rightarrow> nat \<Rightarrow> str \<Rightarrow> nat option" where
  "parse_uint radix lim s =
     (case s of
        [] \<Rightarrow> None
      | c # cs \<Rightarrow>
          (if code c = 43 then (if cs = [] then None else parse_digits radix lim 0 cs)
           else parse_digits radix lim 0 s))"

definition parse_u16 :: "str \<Rightarrow> u16 option" where
  "parse_u16 s = map_option word_of_nat (parse_uint 10 65536 s)"

definition u8_from_str_radix16 :: "str \<Rightarrow> u8 option" where
  "u8_from_str_radix16 s = map_option word_of_nat (parse_uint 16 256 s)"

definition show_u16 :: "u16 \<Rightarrow> str" where
  "show_u16 p = string_of_nat (unat p)"

text \<open>The \<open>{:02x}\<close> rendering of a byte, and the rendering of a signed integer.\<close>

definition hex_byte :: "u8 \<Rightarrow> str" where
  "hex_byte b = [hex_digit (unat b div 16), hex_digit (unat b mod 16)]"

definition string_of_int :: "int \<Rightarrow> str" where
  "string_of_int i = (if i < 0 then CHR ''-'' # string_of_nat (nat (- i)) else string_of_nat (nat i))"

section \<open>UTF-8 validity\<close>

text \<open>\<open>core::str::from_utf8\<close>: the well-formed byte sequences of the Unicode standard.\<close>

definition in_range :: "nat \<Rightarrow> nat \<Rightarrow> char \<Rightarrow> bool" where
  "in_range lo hi c \<longleftrightarrow> lo \<le> code c \<and> code c \<le> hi"

fun utf8_valid :: "str \<Rightarrow> bool" where
  "utf8_valid [] = True"
| "utf8_valid (a # r) =
     (if is_ascii a then utf8_valid r
      else if in_range 0xC2 0xDF a then
        (case r of b # r' \<Rightarrow> is_cont b \<and> utf8_valid r' | _ \<Rightarrow> False)
      else if in_range 0xE0 0xEF a then
        (case r of
           b # c # r' \<Rightarrow>
             in_range (if code a = 0xE0 then 0xA0 else 0x80) (if code a = 0xED then 0x9F else 0xBF) b \<and>
             is_cont c \<and> utf8_valid r'
         | _ \<Rightarrow> False)
      else if in_range 0xF0 0xF4 a then
        (case r of
           b # c # d # r' \<Rightarrow>
             in_range (if code a = 0xF0 then 0x90 else 0x80) (if code a = 0xF4 then 0x8F else 0xBF) b \<and>
             is_cont c \<and> is_cont d \<and> utf8_valid r'
         | _ \<Rightarrow> False)
      else False)"

text \<open>
  \<open>String::from_utf8_lossy\<close>: the bytes that are taken as one step and whether they are a character;
  everything else becomes the replacement character U+FFFD.
\<close>

definition utf8_step :: "str \<Rightarrow> nat \<times> bool" where
  "utf8_step s =
     (case s of
        [] \<Rightarrow> (1, False)
      | a # r \<Rightarrow>
          let c1 = (\<lambda>lo hi. r \<noteq> [] \<and> in_range lo hi (hd r));
              cont = (\<lambda>t. t \<noteq> [] \<and> is_cont (hd t)) in
          if is_ascii a then (1, True)
          else if in_range 0xC2 0xDF a then (if cont r then (2, True) else (1, False))
          else if in_range 0xE0 0xEF a then
            (if c1 (if code a = 0xE0 then 0xA0 else 0x80) (if code a = 0xED then 0x9F else 0xBF)
             then (if cont (tl r) then (3, True) else (2, False)) else (1, False))
          else if in_range 0xF0 0xF4 a then
            (if c1 (if code a = 0xF0 then 0x90 else 0x80) (if code a = 0xF4 then 0x8F else 0xBF)
             then (if cont (tl r)
                   then (if cont (tl (tl r)) then (4, True) else (3, False)) else (2, False))
             else (1, False))
          else (1, False))"

lemma utf8_step_pos: "0 < fst (utf8_step s)"
  by (auto simp: utf8_step_def Let_def split: list.split)

function utf8_lossy :: "str \<Rightarrow> str" where
  "utf8_lossy s =
     (if s = [] then []
      else (case utf8_step s of (n, ok) \<Rightarrow>
        (if ok then take n s else [CHR 0xEF, CHR 0xBF, CHR 0xBD]) @ utf8_lossy (drop n s)))"
  by pat_completeness auto
termination
  by (relation "measure length") (auto dest!: sym [of "(_, _)"] simp: utf8_step_pos prod_eq_iff)

declare utf8_lossy.simps [simp del]

end
