(* ===== verification/Json.thy ===== *)
theory Json
  imports Rust_Str
begin

text \<open>
  JSON documents as the program builds and inspects them: the value type of \<open>serde_json\<close>, the accessors
  the client uses, and how a derived \<open>Deserialize\<close> reads a struct. An object lists its members in
  document order.
\<close>

datatype json =
    JNull
  | JBool bool
  | JInt int
  | JFloat str
  | JStr str
  | JArr "json list"
  | JObj "(str \<times> json) list"

text \<open>\<open>Value::get\<close> with a string key (of duplicate members the last one is kept), \<open>as_str\<close>, \<open>as_i64\<close>.\<close>

fun value_get :: "str \<Rightarrow> json \<Rightarrow> json option" where
  "value_get k (JObj kvs) = map_of (rev kvs) k"
| "value_get k _ = None"

fun as_str :: "json \<Rightarrow> str option" where
  "as_str (JStr s) = Some s"
| "as_str _ = None"

fun as_i64 :: "json \<Rightarrow> int option" where
  "as_i64 (JInt i) = (if - (2 ^ 63) \<le> i \<and> i < 2 ^ 63 then Some i else None)"
| "as_i64 _ = None"

text \<open>
  The members with a given name. A derived \<open>Deserialize\<close> ignores unknown members and rejects a field
  that occurs twice; a missing field is an error unless it has a default.
\<close>

definition members :: "str \<Rightarrow> (str \<times> json) list \<Rightarrow> json list" where
  "members k kvs = map snd (List.filter (\<lambda>kv. fst kv = k) kvs)"

fun de_string :: "json \<Rightarrow> str option" where
  "de_string (JStr s) = Some s"
| "de_string _ = None"

fun de_bool :: "json \<Rightarrow> bool option" where
  "de_bool (JBool b) = Some b"
| "de_bool _ = None"

fun de_option_string :: "json \<Rightarrow> str option option" where
  "de_option_string JNull = Some None"
| "de_option_string (JStr s) = Some (Some s)"
| "de_option_string _ = None"

definition required :: "(json \<Rightarrow> 'a option) \<Rightarrow> str \<Rightarrow> (str \<times> json) list \<Rightarrow> 'a option" where
  "required de k kvs = (case members k kvs of [v] \<Rightarrow> de v | _ \<Rightarrow> None)"

definition with_default :: "(json \<Rightarrow> 'a option) \<Rightarrow> 'a \<Rightarrow> str \<Rightarrow> (str \<times> json) list \<Rightarrow> 'a option" where
  "with_default de d k kvs = (case members k kvs of [] \<Rightarrow> Some d | [v] \<Rightarrow> de v | _ \<Rightarrow> None)"

end
