(* ===== verification/Rust_Str_Facts.thy ===== *)
theory Rust_Str_Facts
  imports Rust_Str
begin

text \<open>
  Facts about the string operations that the components share: when trimming and tokenising change
  nothing, what the lines of a written text are, that printing and parsing of numbers are inverse, and
  that substring search is the sublist relation.
\<close>

section \<open>White space\<close>

text \<open>Printable ASCII without the space: the bytes every file format of the program is made of.\<close>

definition graphic :: "char \<Rightarrow> bool" where
  "graphic c \<longleftrightarrow> 33 \<le> code c \<and> code c \<le> 126"

text \<open>No white-space character starts anywhere in the string.\<close>

fun no_ws :: "str \<Rightarrow> bool" where
  "no_ws [] = True"
| "no_ws (c # r) = (ws_len (c # r) = 0 \<and> no_ws r)"

lemma lead_eq_0_iff:
  assumes "[] \<notin> set seqs"
  shows "lead seqs s = 0 \<longleftrightarrow> (\<forall>w \<in> set seqs. \<not> prefix w s)"
proof (cases "find (\<lambda>w. prefix w s) seqs")
  case None
  then have "lead seqs s = 0"
    by (simp add: lead_def)
  moreover from None have "\<forall>w \<in> set seqs. \<not> prefix w s"
    by (simp add: find_None_iff)
  ultimately show ?thesis by simp
next
  case (Some w)
  then have "w \<in> set seqs" "prefix w s"
    by (auto simp: find_Some_iff)
  with Some assms show ?thesis by (auto simp: lead_def)
qed

lemma lead_cong: "(\<And>w. w \<in> set seqs \<Longrightarrow> prefix w s \<longleftrightarrow> prefix w t) \<Longrightarrow> lead seqs s = lead seqs t"
  unfolding lead_def by (rule arg_cong [where f = "case_option 0 length"], rule find_cong) auto

lemma Nil_notin_ws_seqs [simp]: "[] \<notin> set ws_seqs" "[] \<notin> rev ` set ws_seqs"
  by (auto simp: ws_seqs_def)

lemma ws_len_Nil [simp]: "ws_len [] = 0"
  by (simp add: ws_len_def lead_eq_0_iff ws_seqs_def)

lemma ws_seqs_heads: "w \<in> set ws_seqs \<Longrightarrow> \<not> graphic (hd w)"
  by (auto simp: ws_seqs_def graphic_def code_def)

lemma ws_seqs_lasts: "w \<in> set ws_seqs \<Longrightarrow> \<not> graphic (last w)"
  by (auto simp: ws_seqs_def graphic_def code_def)

lemma ws_seqs_space: "w \<in> set ws_seqs \<Longrightarrow> CHR 0x20 \<in> set w \<Longrightarrow> w = [CHR 0x20]"
  by (auto simp: ws_seqs_def)

lemma ws_len_graphic [text_simps]: "graphic c \<Longrightarrow> ws_len (c # r) = 0"
  using ws_seqs_heads by (fastforce simp: ws_len_def lead_eq_0_iff prefix_Cons)

lemma ws_len_graphic_head: "list_all graphic s \<Longrightarrow> ws_len s = 0"
  by (cases s) (auto simp: ws_len_graphic)

lemma ws_len_space [text_simps]: "ws_len (CHR 0x20 # r) = 1"
  by (simp add: ws_len_def lead_def ws_seqs_def)

lemma ws_len_before_space [text_simps]:
  assumes "xs \<noteq> []"
  shows "ws_len (xs @ CHR 0x20 # ys) = ws_len xs"
  unfolding ws_len_def
proof (rule lead_cong)
  fix w
  assume w: "w \<in> set ws_seqs"
  show "prefix w (xs @ CHR 0x20 # ys) \<longleftrightarrow> prefix w xs"
  proof (cases "CHR 0x20 \<in> set w")
    case True
    with w have "w = [CHR 0x20]" by (rule ws_seqs_space)
    with assms show ?thesis by (cases xs) auto
  next
    case False
    then show ?thesis by (auto dest: prefix_append_Cons_notin)
  qed
qed

lemma ws_len_append_0: "ws_len (xs @ ys) = 0 \<Longrightarrow> ws_len xs = 0"
  by (simp add: ws_len_def lead_eq_0_iff) (meson prefix_prefix)

lemma no_ws_graphic [text_simps]: "list_all graphic s \<Longrightarrow> no_ws s"
  by (induction s) (auto simp: ws_len_graphic)

section \<open>Trimming\<close>

lemma strip_id: "lead seqs s = 0 \<Longrightarrow> strip seqs s = s"
  by (subst strip.simps) simp

lemma trim_start_id [text_simps]: "ws_len s = 0 \<Longrightarrow> trim_start s = s"
  by (simp add: trim_start_def ws_len_def strip_id)

lemma trim_end_graphic [text_simps]:
  assumes "s \<noteq> []" and "graphic (last s)"
  shows "trim_end s = s"
proof -
  have "lead (map rev ws_seqs) (rev s) = 0"
  proof (subst lead_eq_0_iff)
    show "\<forall>w \<in> set (map rev ws_seqs). \<not> prefix w (rev s)"
    proof (clarsimp)
      fix w
      assume w: "w \<in> set ws_seqs" and p: "prefix (rev w) (rev s)"
      from w have "w \<noteq> []" by (auto simp: ws_seqs_def)
      with p have "last w = last s"
        by (metis hd_append2 hd_rev prefix_def rev_is_Nil_conv)
      with ws_seqs_lasts [OF w] assms(2) show False by simp
    qed
  qed simp
  then show ?thesis by (simp add: trim_end_def strip_id)
qed

lemma trim_graphic_end [text_simps]:
  "s \<noteq> [] \<Longrightarrow> ws_len s = 0 \<Longrightarrow> graphic (last s) \<Longrightarrow> trim s = s"
  by (simp add: trim_def text_simps)

lemma trim_Nil [simp]: "trim [] = []"
  by (simp add: trim_def trim_start_def trim_end_def strip_id lead_eq_0_iff ws_seqs_def)

lemma trim_graphic: "list_all graphic s \<Longrightarrow> trim s = s"
  by (cases "s = []") (auto intro!: trim_graphic_end simp: ws_len_graphic_head list_all_iff)

lemma trim_space: "trim (CHR 0x20 # s) = trim s"
proof -
  have "lead ws_seqs (CHR 0x20 # s) = 1"
    using ws_len_space [of s] by (simp add: ws_len_def)
  then show ?thesis
    by (simp add: trim_def trim_start_def) (subst strip.simps, simp)
qed

section \<open>Tokens\<close>

lemma tokens_from_Nil [simp]: "tokens_from acc [] = (if acc = [] then [] else [acc])"
  by (subst tokens_from.simps) simp

lemma tokens_from_ws:
  "0 < ws_len s \<Longrightarrow>
   tokens_from acc s = (if acc = [] then [] else [acc]) @ tokens_from [] (drop (ws_len s) s)"
  by (subst tokens_from.simps) (auto split: list.splits)

lemma tokens_from_char:
  "ws_len (c # r) = 0 \<Longrightarrow> tokens_from acc (c # r) = tokens_from (acc @ [c]) r"
  by (subst tokens_from.simps) simp

lemma tokens_from_no_ws:
  "no_ws s \<Longrightarrow> tokens_from acc s = (if acc @ s = [] then [] else [acc @ s])"
  by (induction s arbitrary: acc) (auto simp: tokens_from_char)

lemma tokens_from_space:
  "no_ws s \<Longrightarrow>
   tokens_from acc (s @ CHR 0x20 # r) = (if acc @ s = [] then [] else [acc @ s]) @ tokens_from [] r"
proof (induction s arbitrary: acc)
  case Nil
  then show ?case by (simp add: tokens_from_ws ws_len_space)
next
  case (Cons c s)
  have "ws_len ((c # s) @ CHR 0x20 # r) = ws_len (c # s)"
    by (rule ws_len_before_space) simp
  with Cons show ?case by (simp add: tokens_from_char)
qed

lemma split_whitespace_one [text_simps]: "no_ws s \<Longrightarrow> s \<noteq> [] \<Longrightarrow> split_whitespace s = [s]"
  by (simp add: split_whitespace_def tokens_from_no_ws)

lemma split_whitespace_space [text_simps]:
  "no_ws s \<Longrightarrow> s \<noteq> [] \<Longrightarrow> split_whitespace (s @ CHR 0x20 # r) = s # split_whitespace r"
  by (simp add: split_whitespace_def tokens_from_space)

text \<open>What every token is: not empty and free of white space.\<close>

definition ws_free_in :: "str \<Rightarrow> str \<Rightarrow> bool" where
  "ws_free_in acc r \<longleftrightarrow> (\<forall>i < length acc. ws_len (drop i acc @ r) = 0)"

lemma no_ws_iff_drop: "no_ws s \<longleftrightarrow> (\<forall>i < length s. ws_len (drop i s) = 0)"
  by (induction s) (auto simp: All_less_Suc2)

lemma ws_free_in_no_ws: "ws_free_in acc r \<Longrightarrow> no_ws acc"
  by (auto simp: ws_free_in_def no_ws_iff_drop dest: ws_len_append_0)

lemma ws_free_in_snoc:
  "ws_free_in acc (c # r) \<Longrightarrow> ws_len (c # r) = 0 \<Longrightarrow> ws_free_in (acc @ [c]) r"
  by (auto simp: ws_free_in_def less_Suc_eq)

lemma tokens_from_tokens:
  "ws_free_in acc s \<Longrightarrow> t \<in> set (tokens_from acc s) \<Longrightarrow> t \<noteq> [] \<and> no_ws t"
proof (induction acc s rule: tokens_from.induct)
  case (1 acc s)
  show ?case
  proof (cases s)
    case Nil
    with 1 show ?thesis by (auto simp: ws_free_in_no_ws split: if_splits)
  next
    case (Cons c r)
    show ?thesis
    proof (cases "ws_len s = 0")
      case True
      with Cons 1 show ?thesis by (simp add: tokens_from_char ws_free_in_snoc)
    next
      case False
      with Cons have "tokens_from acc s = (if acc = [] then [] else [acc]) @ tokens_from [] (drop (ws_len s) s)"
        by (intro tokens_from_ws) simp
      moreover have "ws_free_in [] (drop (ws_len s) s)"
        by (simp add: ws_free_in_def)
      ultimately show ?thesis
        using "1.IH"(2) [OF Cons False] "1.prems" Cons False
        by (auto simp: ws_free_in_no_ws split: if_splits)
    qed
  qed
qed

lemma tokens_from_acc_nonempty: "acc \<noteq> [] \<Longrightarrow> tokens_from acc s \<noteq> []"
proof (induction acc s rule: tokens_from.induct)
  case (1 acc s)
  then show ?case
    by (subst tokens_from.simps) (auto split: list.splits)
qed

section \<open>Lines\<close>

lemma lines_Nil [simp]: "lines [] = []"
  by (subst lines.simps) simp

lemma lines_Cons_nl [text_simps]:
  assumes "nl \<notin> set l"
  shows "lines (l @ nl # r) = strip_cr l # lines r"
proof -
  have "dropWhile (\<lambda>c. c \<noteq> nl) (l @ nl # r) = nl # r" "takeWhile (\<lambda>c. c \<noteq> nl) (l @ nl # r) = l"
    using assms by (induction l) auto
  then show ?thesis by (subst lines.simps) simp
qed

lemma lines_last [text_simps]:
  assumes "nl \<notin> set l" and "l \<noteq> []"
  shows "lines l = [l]"
proof -
  have d: "dropWhile (\<lambda>c. c \<noteq> nl) l = []"
    using assms(1) by (induction l) auto
  show ?thesis by (subst lines.simps) (simp only: d assms(2) list.case if_False)
qed

lemma lines_concat [text_simps]:
  "\<forall>l \<in> set ls. nl \<notin> set l \<Longrightarrow> lines (concat (map (\<lambda>l. l @ [nl]) ls)) = map strip_cr ls"
  by (induction ls) (auto simp: lines_Cons_nl)

lemma strip_cr_graphic [text_simps]: "l \<noteq> [] \<Longrightarrow> graphic (last l) \<Longrightarrow> strip_cr l = l"
  by (auto simp: strip_cr_def graphic_def code_def)

lemma strip_cr_graphic_all: "list_all graphic l \<Longrightarrow> strip_cr l = l"
proof (cases "l = []")
  case False
  moreover assume "list_all graphic l"
  ultimately have "graphic (last l)" by (simp add: list_all_iff)
  with False show ?thesis by (rule strip_cr_graphic)
qed (simp add: strip_cr_def)

section \<open>Substring search\<close>

lemma contains_iff_sublist: "contains s p \<longleftrightarrow> sublist p s"
  unfolding contains_def
  by (induction s) (auto simp: sublist_Cons_right)

lemma find_sub_Some:
  "find_sub p s = Some i \<Longrightarrow> i + length p \<le> length s \<and> take (length p) (drop i s) = p"
proof (induction s arbitrary: i)
  case Nil
  then show ?case by (simp split: if_splits)
next
  case (Cons c s)
  show ?case
  proof (cases "prefix p (c # s)")
    case True
    with Cons.prems have "i = 0" by simp
    with True show ?thesis
      using prefix_length_le [OF True] by (auto simp: prefix_def)
  next
    case False
    with Cons.prems obtain j where "find_sub p s = Some j" "i = Suc j" by auto
    with Cons.IH show ?thesis by auto
  qed
qed

section \<open>Numbers\<close>

lemma parse_digits_append:
  "parse_digits r m a (xs @ ys) = Option.bind (parse_digits r m a xs) (\<lambda>b. parse_digits r m b ys)"
  by (induction xs arbitrary: a) (auto split: option.splits)

lemma digit_val_decimal [simp]: "d < 10 \<Longrightarrow> digit_val 10 (char_of (48 + d)) = Some d"
  by (simp add: digit_val_def code_def)

lemma graphic_decimal [simp]: "(d :: nat) < 10 \<Longrightarrow> graphic (char_of (48 + d))"
  by (simp add: graphic_def code_def)

lemma string_of_nat_small: "n < 10 \<Longrightarrow> string_of_nat n = [char_of (48 + n)]"
  by (subst string_of_nat.simps) simp

lemma string_of_nat_large:
  "\<not> n < 10 \<Longrightarrow> string_of_nat n = string_of_nat (n div 10) @ [char_of (48 + n mod 10)]"
  by (subst string_of_nat.simps) simp

lemma string_of_nat_digits: "list_all graphic (string_of_nat n) \<and> string_of_nat n \<noteq> []"
proof (induction n rule: string_of_nat.induct)
  case (1 n)
  then show ?case
    by (cases "n < 10") (simp_all add: string_of_nat_small string_of_nat_large)
qed

lemma string_of_nat_head: "hd (string_of_nat n) \<noteq> CHR ''+''"
proof (induction n rule: string_of_nat.induct)
  case (1 n)
  show ?case
  proof (cases "n < 10")
    case True
    then have "code (hd (string_of_nat n)) = 48 + n"
      by (simp add: string_of_nat_small code_def)
    moreover have "code CHR ''+'' = 43"
      by (simp add: code_def)
    ultimately show ?thesis by fastforce
  next
    case False
    with 1 string_of_nat_digits show ?thesis by (simp add: string_of_nat_large)
  qed
qed

lemma parse_digits_string_of_nat: "n < m \<Longrightarrow> parse_digits 10 m 0 (string_of_nat n) = Some n"
proof (induction n rule: string_of_nat.induct)
  case (1 n)
  show ?case
  proof (cases "n < 10")
    case True
    with 1 show ?thesis by (simp add: string_of_nat_small)
  next
    case False
    then have "parse_digits 10 m 0 (string_of_nat (n div 10)) = Some (n div 10)"
      using 1 by simp
    with False "1.prems" show ?thesis
      by (simp add: string_of_nat_large parse_digits_append)
  qed
qed

lemma code_plus_iff: "code c = 43 \<longleftrightarrow> c = CHR ''+''"
proof
  assume "code c = 43"
  then have "of_char c = (of_char CHR ''+'' :: nat)" by (simp add: code_def)
  then show "c = CHR ''+''" by (rule of_char_eqI)
qed (simp add: code_def)

lemma parse_uint_string_of_nat: "n < m \<Longrightarrow> parse_uint 10 m (string_of_nat n) = Some n"
  using string_of_nat_head [of n] string_of_nat_digits [of n] parse_digits_string_of_nat [of n m]
  by (auto simp: parse_uint_def code_plus_iff split: list.splits)

lemma parse_show_u16 [simp]: "parse_u16 (show_u16 p) = Some p"
proof -
  have "unat p < 2 ^ LENGTH(16)"
    by (rule unsigned_less)
  then show ?thesis
    by (simp add: parse_u16_def show_u16_def parse_uint_string_of_nat)
qed

lemma parse_digits_bound: "parse_digits r m a s = Some n \<Longrightarrow> a < m \<Longrightarrow> n < m"
  by (induction s arbitrary: a) (auto split: option.splits if_splits)

lemma show_u16_graphic [text_simps]: "list_all graphic (show_u16 p)" "show_u16 p \<noteq> []"
  by (simp_all add: show_u16_def string_of_nat_digits)

lemma graphic_hex_digit [simp]: "n < 16 \<Longrightarrow> graphic (hex_digit n)"
  by (auto simp: hex_digit_def graphic_def code_def)

lemma digit_val_hex [simp]: "n < 16 \<Longrightarrow> digit_val 16 (hex_digit n) = Some n"
  by (auto simp: hex_digit_def digit_val_def code_def)

lemma hex_digit_not_plus: "n < 16 \<Longrightarrow> code (hex_digit n) \<noteq> 43"
  by (auto simp: hex_digit_def code_def)

lemma hex_digit_lower [simp]: "n < 16 \<Longrightarrow> to_ascii_lower (hex_digit n) = hex_digit n"
  by (auto simp: hex_digit_def to_ascii_lower_def code_def)

lemma unat_u8_bounds [simp]: "unat (b :: u8) div 16 < 16" "unat (b :: u8) < 256"
proof -
  have "unat b < 2 ^ LENGTH(8)"
    by (rule unsigned_less)
  then show "unat b div 16 < 16" "unat b < 256"
    by simp_all
qed

lemma u8_of_hex_byte [simp]: "u8_from_str_radix16 (hex_byte b) = Some b"
proof -
  have "unat b div 16 * 16 + unat b mod 16 = unat b" by simp
  moreover have "\<not> 256 \<le> unat b" "\<not> 256 \<le> unat b div 16"
    using unat_u8_bounds(2) [of b] div_le_dividend [of "unat b" 16] by linarith+
  ultimately show ?thesis
    by (simp add: u8_from_str_radix16_def hex_byte_def parse_uint_def hex_digit_not_plus)
qed

lemma hex_byte_graphic [text_simps]: "list_all graphic (hex_byte b)"
  by (simp add: hex_byte_def)

lemma length_hex_byte [simp]: "length (hex_byte b) = 2"
  by (simp add: hex_byte_def)

section \<open>Case folding\<close>

lemma graphic_ascii: "graphic c \<Longrightarrow> is_ascii c"
  by (simp add: graphic_def is_ascii_def)

lemma to_ascii_lower_ascii [simp]: "is_ascii (to_ascii_lower c) = is_ascii c"
  by (auto simp: is_ascii_def to_ascii_lower_def code_def)

lemma to_ascii_lower_idem [simp]: "to_ascii_lower (to_ascii_lower c) = to_ascii_lower c"
  by (auto simp: to_ascii_lower_def code_def)

lemma to_lowercase_ascii: "list_all is_ascii s \<Longrightarrow> to_lowercase uni s = map to_ascii_lower s"
  by (simp add: to_lowercase_def)

lemma to_lowercase_idem:
  "list_all is_ascii s \<Longrightarrow> to_lowercase uni (to_lowercase uni s) = to_lowercase uni s"
  by (simp add: to_lowercase_def list_all_iff)

lemma hex_byte_lower [simp]: "map to_ascii_lower (hex_byte b) = hex_byte b"
  by (simp add: hex_byte_def)

section \<open>Trimming and tokens together\<close>

lemma strip_suffix: "\<exists>p. s = p @ strip seqs s"
proof (induction seqs s rule: strip.induct)
  case (1 seqs s)
  show ?case
  proof (cases "lead seqs s = 0")
    case True
    then show ?thesis by (simp add: strip_id)
  next
    case False
    with 1 obtain p where "drop (lead seqs s) s = p @ strip seqs (drop (lead seqs s) s)" by auto
    then have "s = (take (lead seqs s) s @ p) @ strip seqs (drop (lead seqs s) s)"
      by (metis append.assoc append_take_drop_id)
    moreover have "strip seqs s = strip seqs (drop (lead seqs s) s)"
      using False by (subst strip.simps) simp
    ultimately show ?thesis by (metis (no_types))
  qed
qed

lemma lead_strip: "lead seqs (strip seqs s) = 0"
proof (induction seqs s rule: strip.induct)
  case (1 seqs s)
  then show ?case
    by (cases "lead seqs s = 0") (simp_all add: strip.simps [of seqs s])
qed

lemma trim_end_prefix: "prefix (trim_end s) s"
proof -
  obtain p where "rev s = p @ strip (map rev ws_seqs) (rev s)"
    using strip_suffix by blast
  then have "s = trim_end s @ rev p"
    by (metis rev_append rev_rev_ident trim_end_def)
  then show ?thesis by (metis prefixI)
qed

lemma ws_len_trim: "ws_len (trim s) = 0"
proof -
  have "ws_len (trim_start s) = 0"
    by (simp add: ws_len_def trim_start_def lead_strip)
  moreover obtain q where "trim_start s = trim s @ q"
    using trim_end_prefix [of "trim_start s"] by (auto simp: trim_def prefix_def)
  ultimately show ?thesis by (metis ws_len_append_0)
qed

lemma ws_seqs_not_graphic: "w \<in> set ws_seqs \<Longrightarrow> c \<in> set w \<Longrightarrow> \<not> graphic c"
  by (auto simp: ws_seqs_def graphic_def code_def)

lemma findSomeD: "find P xs = Some x \<Longrightarrow> P x \<and> x \<in> set xs"
  by (auto simp: find_Some_iff)

lemma lead_word: "lead seqs s \<noteq> 0 \<Longrightarrow> \<exists>w \<in> set seqs. prefix w s \<and> lead seqs s = length w"
  by (cases "find (\<lambda>w. prefix w s) seqs") (auto simp: lead_def dest: findSomeD)

lemma strip_before_graphic: "graphic c \<Longrightarrow> strip (map rev ws_seqs) (xs @ [c]) \<noteq> []"
proof (induction xs rule: measure_induct_rule [of length])
  case (less xs)
  let ?n = "lead (map rev ws_seqs) (xs @ [c])"
  show ?case
  proof (cases "?n = 0")
    case True
    then show ?thesis by (simp add: strip_id)
  next
    case False
    then obtain w where w: "w \<in> set ws_seqs" "prefix (rev w) (xs @ [c])" "?n = length w"
      using lead_word [of "map rev ws_seqs" "xs @ [c]"] by (auto simp del: prefix_snoc)
    have "c \<notin> set (rev w)" using ws_seqs_not_graphic [OF w(1), of c] less.prems by auto
    with prefix_append_Cons_notin [of "rev w" xs c "[]"] w(2) have "prefix (rev w) xs" by simp
    then have le: "?n \<le> length xs" using w(3) prefix_length_le by fastforce
    then have "strip (map rev ws_seqs) (drop ?n xs @ [c]) \<noteq> []"
      using less.prems False by (intro less.IH) auto
    with False le show ?thesis by (subst strip.simps) simp
  qed
qed

lemma trim_graphic_head:
  assumes "graphic c"
  shows "\<exists>r. trim (c # s) = c # r"
proof -
  have "trim (c # s) = trim_end (c # s)"
    using assms by (simp add: trim_def trim_start_id ws_len_graphic)
  moreover have "trim_end (c # s) \<noteq> []"
    using strip_before_graphic [OF assms, of "rev s"] by (simp add: trim_end_def)
  ultimately show ?thesis
    using trim_end_prefix [of "c # s"] by (cases "trim_end (c # s)") (auto simp: prefix_Cons)
qed

text \<open>A trimmed line that is not empty has a first token.\<close>

lemma split_whitespace_trim_nonempty: "trim s \<noteq> [] \<Longrightarrow> split_whitespace (trim s) \<noteq> []"
  using ws_len_trim [of s] tokens_from_acc_nonempty
  by (cases "trim s") (auto simp: split_whitespace_def tokens_from_char)

lemma graphic_not_nl: "list_all graphic s \<Longrightarrow> nl \<notin> set s"
  by (auto simp: list_all_iff graphic_def code_def)

lemma ascii_utf8_valid: "list_all is_ascii s \<Longrightarrow> utf8_valid s"
  by (induction s) auto

lemma graphic_utf8: "list_all graphic s \<Longrightarrow> list_all is_ascii s"
  by (auto simp: list_all_iff graphic_ascii)

lemma utf8_valid_append: "utf8_valid xs \<Longrightarrow> utf8_valid ys \<Longrightarrow> utf8_valid (xs @ ys)"
proof (induction xs rule: utf8_valid.induct)
  case 1
  then show ?case by simp
next
  case (2 a r)
  then show ?case
    by (auto split: if_splits list.splits)
qed

lemma utf8_valid_concat: "list_all utf8_valid xs \<Longrightarrow> utf8_valid (concat xs)"
  by (induction xs) (auto intro: utf8_valid_append)

lemma no_ws_notin: "no_ws s \<Longrightarrow> c \<in> set s \<Longrightarrow> [c] \<notin> set ws_seqs"
  by (induction s) (auto simp: ws_len_def lead_eq_0_iff prefix_Cons)

lemma no_ws_not_nl: "no_ws s \<Longrightarrow> nl \<notin> set s"
  using no_ws_notin [of s nl] by (auto simp: ws_seqs_def)

lemma no_ws_ws_len: "no_ws s \<Longrightarrow> ws_len s = 0"
  by (cases s) simp_all

end
