(* ===== verification/Library.thy ===== *)
theory Library
  imports Json Rust_Str_Facts
begin

text \<open>
  The third-party crates the program calls: base64, hex, sha2, ed25519-dalek, serde_json and x509-parser.
  Their code is not in the repository, so they are the fields of a record that every definition using
  them takes as its first argument, for arbitrary types of verifying and signing keys. The two Unicode
  tables of the standard library that the string layer leaves open are in the record as well.

  The documented behaviour that a property relies on is a named hypothesis, defined below.
\<close>

record ('vk, 'sk) lib =
  b64_encode :: "bytes \<Rightarrow> str"
  b64_decode :: "str \<Rightarrow> str + bytes"
  hex_encode :: "bytes \<Rightarrow> str"
  sha256 :: "bytes \<Rightarrow> bytes"
  vk_from_bytes :: "bytes \<Rightarrow> str + 'vk"
  vk_to_bytes :: "'vk \<Rightarrow> bytes"
  verify_strict :: "'vk \<Rightarrow> bytes \<Rightarrow> bytes \<Rightarrow> bool"
  sk_from_bytes :: "bytes \<Rightarrow> 'sk"
  sk_to_bytes :: "'sk \<Rightarrow> bytes"
  verifying_key :: "'sk \<Rightarrow> 'vk"
  sk_sign :: "'sk \<Rightarrow> bytes \<Rightarrow> bytes"
  cert_spki :: "bytes \<Rightarrow> str + bytes"
  json_write :: "json \<Rightarrow> bytes"
  json_read :: "bytes \<Rightarrow> json option"
  uni_lower :: "str \<Rightarrow> str"
  uni_debug :: "str \<Rightarrow> str"

section \<open>Documented behaviour\<close>

text \<open>base64, \<open>STANDARD\<close> engine: decoding inverts encoding; the alphabet; padding to groups of four.\<close>

definition b64_char :: "char \<Rightarrow> bool" where
  "b64_char c \<longleftrightarrow> (65 \<le> code c \<and> code c \<le> 90) \<or> (97 \<le> code c \<and> code c \<le> 122) \<or>
     (48 \<le> code c \<and> code c \<le> 57) \<or> code c = 43 \<or> code c = 47 \<or> code c = 61"

definition b64_spec :: "('vk, 'sk) lib \<Rightarrow> bool" where
  "b64_spec L \<longleftrightarrow> (\<forall>bs. b64_decode L (b64_encode L bs) = Inr bs \<and> list_all b64_char (b64_encode L bs) \<and>
     length (b64_encode L bs) = 4 * ((length bs + 2) div 3))"

text \<open>hex: two lower-case digits for each byte. sha2: a digest has 32 bytes.\<close>

definition hex_spec :: "('vk, 'sk) lib \<Rightarrow> bool" where
  "hex_spec L \<longleftrightarrow> (\<forall>bs. hex_encode L bs = concat (map hex_byte bs))"

definition sha_spec :: "('vk, 'sk) lib \<Rightarrow> bool" where
  "sha_spec L \<longleftrightarrow> (\<forall>bs. length (sha256 L bs) = 32)"

text \<open>ed25519-dalek: sizes and round trips of keys; a signature verifies under the signer's key.\<close>

definition vk_spec :: "('vk, 'sk) lib \<Rightarrow> bool" where
  "vk_spec L \<longleftrightarrow> (\<forall>vk. length (vk_to_bytes L vk) = 32 \<and> vk_from_bytes L (vk_to_bytes L vk) = Inr vk)"

definition sk_spec :: "('vk, 'sk) lib \<Rightarrow> bool" where
  "sk_spec L \<longleftrightarrow> (\<forall>sk. length (sk_to_bytes L sk) = 32 \<and> sk_from_bytes L (sk_to_bytes L sk) = sk)"

definition sign_spec :: "('vk, 'sk) lib \<Rightarrow> bool" where
  "sign_spec L \<longleftrightarrow> (\<forall>sk m. length (sk_sign L sk m) = 64 \<and>
     verify_strict L (verifying_key L sk) m (sk_sign L sk m))"

text \<open>serde_json: a document that was written is read back.\<close>

definition json_reads :: "('vk, 'sk) lib \<Rightarrow> json \<Rightarrow> bool" where
  "json_reads L j \<longleftrightarrow> json_read L (json_write L j) = Some j"

section \<open>Facts\<close>

lemma b64_char_graphic: "b64_char c \<Longrightarrow> graphic c"
  by (auto simp: b64_char_def graphic_def)

lemma b64_text:
  assumes "b64_spec L"
  shows "b64_decode L (b64_encode L bs) = Inr bs" "list_all graphic (b64_encode L bs)"
    "bs \<noteq> [] \<Longrightarrow> b64_encode L bs \<noteq> []" "length (b64_encode L bs) = 4 * ((length bs + 2) div 3)"
proof -
  from assms have a: "list_all b64_char (b64_encode L bs)"
    and l: "length (b64_encode L bs) = 4 * ((length bs + 2) div 3)"
    and d: "b64_decode L (b64_encode L bs) = Inr bs"
    by (auto simp: b64_spec_def)
  from d show "b64_decode L (b64_encode L bs) = Inr bs" .
  from a show "list_all graphic (b64_encode L bs)"
    by (auto simp: list_all_iff b64_char_graphic)
  from l show "length (b64_encode L bs) = 4 * ((length bs + 2) div 3)" .
  assume "bs \<noteq> []"
  then have "3 \<le> length bs + 2" by (cases bs) auto
  then have "0 < (length bs + 2) div 3" by (simp add: div_greater_zero_iff)
  with l show "b64_encode L bs \<noteq> []" by auto
qed

lemma b64_head:
  assumes "b64_spec L" and "b64_encode L bs = c # r"
  shows "c \<noteq> CHR ''#''"
proof
  assume "c = CHR ''#''"
  moreover have "b64_char c" using assms by (simp add: b64_spec_def) (metis list.pred_inject(2))
  ultimately show False by (simp add: b64_char_def code_def)
qed

lemma hex_text:
  assumes "hex_spec L"
  shows "hex_encode L bs = concat (map hex_byte bs)" "list_all graphic (hex_encode L bs)"
    "length (hex_encode L bs) = 2 * length bs"
proof -
  from assms show h: "hex_encode L bs = concat (map hex_byte bs)"
    by (simp add: hex_spec_def)
  show "list_all graphic (hex_encode L bs)"
    unfolding h by (induction bs) (simp_all add: hex_byte_graphic)
  show "length (hex_encode L bs) = 2 * length bs"
    unfolding h by (induction bs) simp_all
qed

lemma hex_lower: "map to_ascii_lower (concat (map hex_byte bs)) = concat (map hex_byte bs)"
  by (induction bs) simp_all

lemma hex_ascii: "list_all is_ascii (concat (map hex_byte bs))"
  by (induction bs) (auto simp: list_all_iff dest: hex_byte_graphic [unfolded list_all_iff, rule_format] graphic_ascii)

lemma concat_hex_inject: "concat (map hex_byte as) = concat (map hex_byte bs) \<Longrightarrow> as = bs"
proof (induction as arbitrary: bs)
  case Nil
  then show ?case by (cases bs) (auto simp: hex_byte_def)
next
  case (Cons a as)
  show ?case
  proof (cases bs)
    case Nil
    with Cons.prems show ?thesis by (simp add: hex_byte_def)
  next
    case bs: (Cons b bs')
    with Cons.prems have e: "hex_byte a = hex_byte b" "concat (map hex_byte as) = concat (map hex_byte bs')"
      by (simp_all add: append_eq_append_conv)
    from e(1) have "a = b" using u8_of_hex_byte by (metis option.inject)
    with Cons.IH [OF e(2)] bs show ?thesis by simp
  qed
qed

lemma hex_encode_inject: "hex_spec L \<Longrightarrow> hex_encode L as = hex_encode L bs \<longleftrightarrow> as = bs"
  by (auto simp: hex_spec_def dest: concat_hex_inject)

lemma hex_to_lowercase: "hex_spec L \<Longrightarrow> to_lowercase uni (hex_encode L bs) = hex_encode L bs"
  by (simp add: hex_text(1) to_lowercase_def hex_ascii hex_lower)

end
