(* ===== verification/Errors.thy ===== *)
theory Errors
  imports Rust_Str
begin

text \<open>
  The error types: the framing errors of \<open>sao-protocol\<close> (\<open>error.rs\<close>), the errors of \<open>sao-core\<close>
  (\<open>error.rs\<close>) and the part of \<open>std::io::Error\<close> the program looks at, which is its kind and its
  rendering. An error of a library (YAML, JSON) is represented by its rendering, which is all the
  program uses of it.
\<close>

section \<open>Input and output errors\<close>

datatype io_kind =
    UnexpectedEof_kind
  | NotFound
  | PermissionDenied
  | InvalidData
  | Other_kind

datatype io_error = IoError io_kind str

fun io_error_kind :: "io_error \<Rightarrow> io_kind" where
  "io_error_kind (IoError k m) = k"

fun io_error_display :: "io_error \<Rightarrow> str" where
  "io_error_display (IoError k m) = m"

section \<open>Protocol errors\<close>

datatype protocol_error =
    Io io_error
  | UnexpectedEof
  | InvalidMagic
  | UnsupportedVersion u8
  | PayloadTooLarge u32 u32
  | PayloadLengthOverflow u32

fun protocol_error_display :: "protocol_error \<Rightarrow> str" where
  "protocol_error_display (Io e) = ''io error: '' @ io_error_display e"
| "protocol_error_display UnexpectedEof = ''unexpected end of stream''"
| "protocol_error_display InvalidMagic = ''invalid frame magic (expected SAO)''"
| "protocol_error_display (UnsupportedVersion got) =
     ''unsupported protocol version: 0x'' @ hex_byte got"
| "protocol_error_display (PayloadTooLarge len lim) =
     ''payload length '' @ string_of_nat (unat len) @ '' exceeds maximum '' @ string_of_nat (unat lim)"
| "protocol_error_display (PayloadLengthOverflow len) =
     ''payload length '' @ string_of_nat (unat len) @ '' too large for this platform''"

fun protocol_error_source :: "protocol_error \<Rightarrow> io_error option" where
  "protocol_error_source (Io e) = Some e"
| "protocol_error_source _ = None"

definition protocol_error_from_io :: "io_error \<Rightarrow> protocol_error" where
  "protocol_error_from_io e = Io e"

text \<open>The \<open>map_err\<close> closure around both \<open>read_exact\<close> calls of the codec.\<close>

definition read_error :: "io_error \<Rightarrow> protocol_error" where
  "read_error e =
     (case io_error_kind e of UnexpectedEof_kind \<Rightarrow> UnexpectedEof | _ \<Rightarrow> Io e)"

section \<open>Core errors\<close>

datatype core_error =
    CoreIo io_error
  | Yaml str
  | Json str
  | KnownHostsLine str
  | KnownHostsMissing str
  | InvalidFingerprint str
  | AuthorizedKeys str
  | KeyNotFound
  | UnsupportedKeyType str
  | Ed25519 str
  | PolicyDenied str
  | X509 str
  | MissingConfig str

fun core_error_display :: "core_error \<Rightarrow> str" where
  "core_error_display (CoreIo e) = ''io: '' @ io_error_display e"
| "core_error_display (Yaml m) = ''yaml: '' @ m"
| "core_error_display (Json m) = ''json: '' @ m"
| "core_error_display (KnownHostsLine m) = ''invalid known_hosts line: '' @ m"
| "core_error_display (KnownHostsMissing m) = ''unknown host:port in known_hosts: '' @ m"
| "core_error_display (InvalidFingerprint m) =
     ''invalid fingerprint (expect 64 hex chars): '' @ m"
| "core_error_display (AuthorizedKeys m) = ''authorized_keys: '' @ m"
| "core_error_display KeyNotFound = ''no matching authorized key for fingerprint''"
| "core_error_display (UnsupportedKeyType m) = ''unsupported key type: '' @ m"
| "core_error_display (Ed25519 m) = ''ed25519: '' @ m"
| "core_error_display (PolicyDenied m) = ''policy denied: '' @ m"
| "core_error_display (X509 m) = ''x509 parse: '' @ m"
| "core_error_display (MissingConfig m) = ''missing config file: '' @ m"

text \<open>
  \<open>Box<dyn Error>\<close>: what the \<open>?\<close> operator of the session functions converts errors to. A JSON error
  carries nothing the program looks at.
\<close>

datatype boxed_error =
    BoxProtocol protocol_error
  | BoxCore core_error
  | BoxIo io_error
  | BoxJson
  | BoxBase64 str
  | BoxMsg str

section \<open>Facts\<close>

lemma read_error_eof [simp]: "read_error (IoError UnexpectedEof_kind m) = UnexpectedEof"
  by (simp add: read_error_def)

lemma read_error_cases: "read_error e = UnexpectedEof \<longleftrightarrow> io_error_kind e = UnexpectedEof_kind"
  by (cases "io_error_kind e") (auto simp: read_error_def)

text \<open>Only transport failures have a source, and it is the failure itself.\<close>

lemma protocol_error_source_iff: "protocol_error_source e = Some i \<longleftrightarrow> e = Io i"
  by (cases e) auto

end
