(* ===== verification/Paths.thy ===== *)
theory Paths
  imports Errors
begin

text \<open>
  Paths and the file system as the program uses them (\<open>std::path\<close>, \<open>std::fs\<close> on Unix).

  A path is its components, which is what Rust compares paths by. The file system maps paths to file
  contents and knows the directories. An operation can also fail for a reason outside of this state
  (permissions, a full disk): \<open>fault\<close> says which operation does, and for a write whether the file had
  already been truncated and how many bytes had reached it. The text of a path is that of its
  components, so repeated separators in an argument are not kept.
\<close>

section \<open>Paths\<close>

record path =
  rooted :: bool
  comps :: "str list"

fun split_on :: "char \<Rightarrow> str \<Rightarrow> str \<Rightarrow> str list" where
  "split_on c acc [] = [acc]"
| "split_on c acc (d # s) = (if d = c then acc # split_on c [] s else split_on c (acc @ [d]) s)"

text \<open>\<open>PathBuf::from\<close>: repeated separators and inner \<open>.\<close> components are dropped.\<close>

definition path_from :: "str \<Rightarrow> path" where
  "path_from s =
     (let parts = List.filter (\<lambda>p. p \<noteq> []) (split_on (CHR ''/'') [] s);
          r = (s \<noteq> [] \<and> hd s = CHR ''/'') in
      \<lparr>rooted = r,
       comps = (case parts of
          [] \<Rightarrow> []
        | p # ps \<Rightarrow> (if p = ''.'' \<and> r then [] else [p]) @ List.filter (\<lambda>q. q \<noteq> ''.'') ps)\<rparr>)"

definition path_display :: "path \<Rightarrow> str" where
  "path_display p = (if rooted p then ''/'' else []) @ join ''/'' (comps p)"

definition path_join :: "path \<Rightarrow> str \<Rightarrow> path" where
  "path_join p name =
     (let q = path_from name in
      if rooted q then q else p\<lparr>comps := comps p @ List.filter (\<lambda>c. c \<noteq> ''.'') (comps q)\<rparr>)"

definition path_parent :: "path \<Rightarrow> path option" where
  "path_parent p = (if comps p = [] then None else Some (p\<lparr>comps := butlast (comps p)\<rparr>))"

definition file_name :: "path \<Rightarrow> str option" where
  "file_name p =
     (if comps p = [] \<or> last (comps p) = ''..'' \<or> last (comps p) = ''.'' then None
      else Some (last (comps p)))"

definition path_empty :: "path \<Rightarrow> bool" where
  "path_empty p \<longleftrightarrow> \<not> rooted p \<and> comps p = []"

definition path_pop :: "path \<Rightarrow> path" where
  "path_pop p = (case path_parent p of None \<Rightarrow> p | Some q \<Rightarrow> q)"

section \<open>File system\<close>

datatype fs_op = OpRead path | OpWrite path | OpMkdir path

text \<open>
  A file whose directory cannot be searched (\<open>Hidden\<close>, a fault of reading) cannot be opened or written,
  and does not even exist as far as \<open>Path::exists\<close> can tell. When directories are made, \<open>AfterBytes n\<close>
  says how many components were there before the failure.
\<close>

datatype fault = AtOpen io_error | AfterBytes nat io_error | Hidden io_error

record fs =
  files :: "path \<Rightarrow> str option"
  dirs :: "path \<Rightarrow> bool"
  fault :: "fs_op \<Rightarrow> fault option"

fun fault_error :: "fault \<Rightarrow> io_error" where
  "fault_error (AtOpen e) = e"
| "fault_error (AfterBytes n e) = e"
| "fault_error (Hidden e) = e"

definition hidden :: "fs \<Rightarrow> path \<Rightarrow> io_error option" where
  "hidden w p = (case fault w (OpRead p) of Some (Hidden e) \<Rightarrow> Some e | _ \<Rightarrow> None)"

definition fs_exists :: "fs \<Rightarrow> path \<Rightarrow> bool" where
  "fs_exists w p \<longleftrightarrow> hidden w p = None \<and> (files w p \<noteq> None \<or> dirs w p)"

definition read_to_string :: "fs \<Rightarrow> path \<Rightarrow> (io_error, str) res" where
  "read_to_string w p =
     (case fault w (OpRead p) of
        Some x \<Rightarrow> Err (fault_error x)
      | None \<Rightarrow>
          (case files w p of
             None \<Rightarrow> Err (IoError NotFound ''No such file or directory (os error 2)'')
           | Some s \<Rightarrow>
               if utf8_valid s then Ok s
               else Err (IoError InvalidData ''stream did not contain valid UTF-8'')))"

text \<open>A relative path of one component lies in the working directory, which exists.\<close>

definition parent_ready :: "fs \<Rightarrow> path \<Rightarrow> bool" where
  "parent_ready w p = (case path_parent p of None \<Rightarrow> False | Some q \<Rightarrow> comps q = [] \<or> dirs w q)"

definition fs_write :: "path \<Rightarrow> str \<Rightarrow> fs \<Rightarrow> fs \<times> (io_error, unit) res" where
  "fs_write p s w =
     (if \<not> parent_ready w p
      then (w, Err (IoError NotFound ''No such file or directory (os error 2)''))
      else if dirs w p then (w, Err (IoError Other_kind ''Is a directory (os error 21)''))
      else case hidden w p of
        Some e \<Rightarrow> (w, Err e)
      | None \<Rightarrow>
          (case fault w (OpWrite p) of
             Some (AtOpen e) \<Rightarrow> (w, Err e)
           | Some (Hidden e) \<Rightarrow> (w, Err e)
           | Some (AfterBytes n e) \<Rightarrow> (w\<lparr>files := (files w)(p := Some (take n s))\<rparr>, Err e)
           | None \<Rightarrow> (w\<lparr>files := (files w)(p := Some s)\<rparr>, Ok ())))"

definition is_ancestor :: "path \<Rightarrow> path \<Rightarrow> bool" where
  "is_ancestor q p \<longleftrightarrow> rooted q = rooted p \<and> prefix (comps q) (comps p)"

text \<open>\<open>create_dir_all\<close>: the path and its ancestors become directories; the empty path succeeds. A
  failure can leave the first ones behind.\<close>

definition create_dir_all :: "path \<Rightarrow> fs \<Rightarrow> fs \<times> (io_error, unit) res" where
  "create_dir_all p w =
     (if path_empty p then (w, Ok ())
      else case fault w (OpMkdir p) of
        Some (AfterBytes n e) \<Rightarrow>
          (w\<lparr>dirs := (\<lambda>q. dirs w q \<or> is_ancestor q (p\<lparr>comps := take n (comps p)\<rparr>))\<rparr>, Err e)
      | Some x \<Rightarrow> (w, Err (fault_error x))
      | None \<Rightarrow>
          (if list_ex (\<lambda>n. files w (p\<lparr>comps := take n (comps p)\<rparr>) \<noteq> None) [0 ..< Suc (length (comps p))]
           then (w, Err (IoError Other_kind ''Not a directory (os error 20)''))
           else (w\<lparr>dirs := (\<lambda>q. dirs w q \<or> is_ancestor q p)\<rparr>, Ok ())))"

section \<open>Facts\<close>

lemma hidden_cong: "fault w' = fault w \<Longrightarrow> hidden w' p = hidden w p"
  by (simp add: hidden_def)

lemma hidden_update [simp]: "hidden (w\<lparr>files := f\<rparr>) p = hidden w p" "hidden (w\<lparr>dirs := d\<rparr>) p = hidden w p"
  by (simp_all add: hidden_def)

lemma hidden_None [simp]: "fault w (OpRead p) = None \<Longrightarrow> hidden w p = None"
  by (simp add: hidden_def)

lemma comps_update_eq [simp]: "p\<lparr>comps := a\<rparr> = p\<lparr>comps := b\<rparr> \<longleftrightarrow> a = b"
  by (cases p) simp

lemma create_dir_all_files: "create_dir_all p w = (w', r) \<Longrightarrow> files w' = files w \<and> fault w' = fault w"
  by (auto simp: create_dir_all_def split: if_splits option.splits fault.splits)

lemma fs_write_Ok:
  "fs_write p s w = (w', Ok u) \<Longrightarrow> files w' = (files w)(p \<mapsto> s) \<and> dirs w' = dirs w \<and> fault w' = fault w"
  by (auto simp: fs_write_def split: if_splits option.splits fault.splits)

lemma fs_write_other: "fs_write p s w = (w', r) \<Longrightarrow> q \<noteq> p \<Longrightarrow> files w' q = files w q"
  by (auto simp: fs_write_def split: if_splits option.splits fault.splits)

lemma fs_write_dirs: "fs_write p s w = (w', r) \<Longrightarrow> dirs w' = dirs w \<and> fault w' = fault w"
  by (auto simp: fs_write_def split: if_splits option.splits fault.splits)

lemma fs_write_exists: "fs_write p s w = (w', Ok u) \<Longrightarrow> fs_exists w' p"
  by (auto simp: fs_exists_def fs_write_def split: if_splits option.splits fault.splits)

lemma fs_write_keeps:
  "fs_write p s w = (w', r) \<Longrightarrow> fs_exists w q \<Longrightarrow> fs_exists w' q"
  "fs_write p s w = (w', r) \<Longrightarrow> q \<noteq> p \<Longrightarrow> fs_exists w' q = fs_exists w q"
  by (auto simp: fs_exists_def fs_write_def split: if_splits option.splits fault.splits)

lemma fs_write_hidden: "hidden w p \<noteq> None \<Longrightarrow> fs_write p s w = (w', r) \<Longrightarrow> w' = w"
  by (auto simp: fs_write_def split: if_splits)

text \<open>Making directories makes nothing exist but the path and its ancestors.\<close>

lemma create_dir_all_exists:
  "create_dir_all p w = (w', r) \<Longrightarrow> fs_exists w q \<Longrightarrow> fs_exists w' q"
  "create_dir_all p w = (w', r) \<Longrightarrow> \<not> is_ancestor q p \<Longrightarrow> fs_exists w' q = fs_exists w q"
  by (auto simp: create_dir_all_def fs_exists_def is_ancestor_def take_is_prefix
      split: if_splits option.splits fault.splits intro: prefix_order.trans)

lemma fs_write_not_Panic: "fs_write p s w \<noteq> (w', Panic)"
  by (auto simp: fs_write_def split: if_splits option.splits fault.splits)

lemma create_dir_all_not_Panic: "create_dir_all p w \<noteq> (w', Panic)"
  by (auto simp: create_dir_all_def split: if_splits option.splits fault.splits)

lemma read_to_string_not_Panic [simp]: "read_to_string w p \<noteq> Panic"
  by (auto simp: read_to_string_def split: option.splits)

lemma read_to_string_Ok:
  "read_to_string w p = Ok s \<longleftrightarrow> fault w (OpRead p) = None \<and> files w p = Some s \<and> utf8_valid s"
  by (auto simp: read_to_string_def split: option.splits)

lemma split_on_none: "c \<notin> set s \<Longrightarrow> split_on c acc s = [acc @ s]"
  by (induction s arbitrary: acc) auto

lemma path_from_name:
  assumes "CHR ''/'' \<notin> set n" and "n \<noteq> []"
  shows "path_from n = \<lparr>rooted = False, comps = [n]\<rparr>"
  using assms by (cases n) (auto simp: path_from_def split_on_none)

lemma path_join_name:
  assumes "CHR ''/'' \<notin> set n" and "n \<noteq> []" and "n \<noteq> ''.''"
  shows "path_join p n = p\<lparr>comps := comps p @ [n]\<rparr>"
  using assms by (simp add: path_join_def path_from_name Let_def)

section \<open>File systems for concrete runs\<close>

definition demo_fs :: "path \<Rightarrow> str \<Rightarrow> fs" where
  "demo_fs p s = \<lparr>files = (\<lambda>_. None)(p := Some s), dirs = (\<lambda>_. False), fault = (\<lambda>_. None)\<rparr>"

definition demo_empty_fs :: fs where
  "demo_empty_fs = \<lparr>files = (\<lambda>_. None), dirs = (\<lambda>_. False), fault = (\<lambda>_. None)\<rparr>"

end
