(* ===== verification/Pin_Store.thy ===== *)
theory Pin_Store
  imports Rust_Str
begin

text \<open>
  The interface between the store of TLS pins and the client that manages trust with it: what a lookup
  returns after an insertion, which lookups an insertion leaves alone, and that a rejected fingerprint
  changes nothing. Hosts are compared after normalisation.
\<close>

fun insert_all ::
    "(str \<Rightarrow> u16 \<Rightarrow> str \<Rightarrow> 's \<Rightarrow> 's \<times> ('e, unit) res) \<Rightarrow> (str \<times> u16 \<times> str) list \<Rightarrow> 's \<Rightarrow> 's" where
  "insert_all ins [] s = s"
| "insert_all ins ((h, p, fp) # xs) s = insert_all ins xs (fst (ins h p fp s))"

text \<open>The fingerprints that insertions for a host and port were accepted with, in order.\<close>

definition accepted_for ::
    "(str \<Rightarrow> str) \<Rightarrow> (str \<Rightarrow> ('e, bytes) res) \<Rightarrow> str \<Rightarrow> u16 \<Rightarrow> (str \<times> u16 \<times> str) list \<Rightarrow> bytes list" where
  "accepted_for norm parse h p xs =
     List.map_filter (\<lambda>(h', p', fp).
       if norm h' = norm h \<and> p' = p then (case parse fp of Ok d \<Rightarrow> Some d | _ \<Rightarrow> None) else None) xs"

locale pin_store =
  fixes lookup_pin :: "'s \<Rightarrow> str \<Rightarrow> u16 \<Rightarrow> ('e, bytes) res"
    and insert_pin :: "str \<Rightarrow> u16 \<Rightarrow> str \<Rightarrow> 's \<Rightarrow> 's \<times> ('e, unit) res"
    and norm :: "str \<Rightarrow> str"
    and parse :: "str \<Rightarrow> ('e, bytes) res"
  assumes insert_result: "snd (insert_pin h p fp s) = map_ok (\<lambda>_. ()) (parse fp)"
    and insert_lookup:
      "parse fp = Ok d \<Longrightarrow> norm h' = norm h \<Longrightarrow> lookup_pin (fst (insert_pin h p fp s)) h' p = Ok d"
    and insert_other:
      "norm h' \<noteq> norm h \<or> p' \<noteq> p \<Longrightarrow>
       lookup_pin (fst (insert_pin h p fp s)) h' p' = lookup_pin s h' p'"
    and insert_rejected: "\<not> is_ok (parse fp) \<Longrightarrow> fst (insert_pin h p fp s) = s"
begin

lemma insert_Ok: "insert_pin h p fp s = (s', Ok u) \<Longrightarrow> \<exists>d. parse fp = Ok d \<and> lookup_pin s' h p = Ok d"
proof -
  assume i: "insert_pin h p fp s = (s', Ok u)"
  then obtain d where d: "parse fp = Ok d"
    using insert_result [of h p fp s] by (cases "parse fp") auto
  with i insert_lookup [OF d refl, of h p s] show ?thesis by simp
qed

lemma insert_frame:
  "insert_pin h p fp s = (s', r) \<Longrightarrow> norm h' \<noteq> norm h \<or> p' \<noteq> p \<Longrightarrow>
   lookup_pin s' h' p' = lookup_pin s h' p'"
  using insert_other [of h' h p' p fp s] by simp

lemma lookup_insert:
  "lookup_pin (fst (insert_pin h' p' fp s)) h p =
   (if norm h' = norm h \<and> p' = p \<and> is_ok (parse fp)
    then parse fp else lookup_pin s h p)"
proof (cases "norm h' = norm h \<and> p' = p")
  case True
  show ?thesis
  proof (cases "parse fp")
    case (Ok d)
    with True insert_lookup [OF Ok, of h h' p s] show ?thesis by simp
  next
    case (Err e)
    with insert_rejected [of fp h' p' s] show ?thesis by simp
  next
    case Panic
    with insert_rejected [of fp h' p' s] show ?thesis by simp
  qed
next
  case False
  then have "norm h \<noteq> norm h' \<or> p \<noteq> p'" by auto
  from insert_other [OF this, of fp s] False show ?thesis by auto
qed

text \<open>After any sequence of insertions the last accepted one for a host and port counts.\<close>

lemma lookup_insert_all:
  "lookup_pin (insert_all insert_pin xs s) h p =
   (if accepted_for norm parse h p xs = [] then lookup_pin s h p else Ok (last (accepted_for norm parse h p xs)))"
proof (induction xs arbitrary: s)
  case Nil
  then show ?case by (simp add: accepted_for_def List.map_filter_def)
next
  case (Cons x xs)
  obtain h' p' fp where x: "x = (h', p', fp)" by (cases x)
  have "accepted_for norm parse h p (x # xs) =
    (if norm h' = norm h \<and> p' = p then (case parse fp of Ok d \<Rightarrow> [d] | _ \<Rightarrow> []) else []) @
    accepted_for norm parse h p xs"
    by (simp add: accepted_for_def x List.map_filter_def split: res.split)
  with Cons.IH [of "fst (insert_pin h' p' fp s)"] show ?case
    by (cases "parse fp") (auto simp: x lookup_insert)
qed

end

end
