(* ===== verification/Known_Hosts.thy ===== *)
theory Known_Hosts
  imports Library Paths Pin_Store
begin

text \<open>
  The client's store of TLS pins (\<open>sao-core/src/known_hosts.rs\<close>): a map from normalised host and port to
  the 32-byte SHA-256 of the server's public key, read from and written to a text file with one line
  \<open>host port hex\<close> for each entry.
\<close>

section \<open>Keys of the map\<close>

text \<open>The order is the one of the closure that \<open>save\<close> sorts with: host first, then port.\<close>

datatype host_key = HostKey (hk_host: str) (hk_port: u16)

definition host_key_le :: "host_key \<Rightarrow> host_key \<Rightarrow> bool" where
  "host_key_le a b \<longleftrightarrow> hk_host a < hk_host b \<or> (hk_host a = hk_host b \<and> hk_port a \<le> hk_port b)"

instantiation host_key :: linorder
begin

definition less_eq_host_key :: "host_key \<Rightarrow> host_key \<Rightarrow> bool" where
  "less_eq_host_key = host_key_le"

definition less_host_key :: "host_key \<Rightarrow> host_key \<Rightarrow> bool" where
  "less_host_key a b \<longleftrightarrow> hk_host a < hk_host b \<or> (hk_host a = hk_host b \<and> hk_port a < hk_port b)"

instance
proof
  fix a b c :: host_key
  show "a < b \<longleftrightarrow> a \<le> b \<and> \<not> b \<le> a"
    by (auto simp: less_eq_host_key_def host_key_le_def less_host_key_def)
  show "a \<le> a"
    by (simp add: less_eq_host_key_def host_key_le_def)
  show "a \<le> b \<Longrightarrow> b \<le> c \<Longrightarrow> a \<le> c"
    by (auto simp: less_eq_host_key_def host_key_le_def)
  show "a \<le> b \<Longrightarrow> b \<le> a \<Longrightarrow> a = b"
    by (cases a; cases b) (auto simp: less_eq_host_key_def host_key_le_def)
  show "a \<le> b \<or> b \<le> a"
    by (auto simp: less_eq_host_key_def host_key_le_def)
qed

end

record known_hosts =
  pins :: "(host_key, bytes) mapping"

definition known_hosts_default :: known_hosts where
  "known_hosts_default = \<lparr>pins = Mapping.empty\<rparr>"

section \<open>Normalisation and fingerprints\<close>

definition normalize_host :: "(str \<Rightarrow> str) \<Rightarrow> str \<Rightarrow> str" where
  "normalize_host uni host =
     (let h = trim_matches [CHR ''['', CHR '']''] host in
      if CHR '':'' \<in> set h \<and>
         \<not> list_all (\<lambda>c. is_ascii_digit c \<or> c = CHR ''.'' \<or> c = CHR '':'') h
      then to_lowercase uni h
      else to_lowercase uni h)"

text \<open>The loop of \<open>parse_hex32\<close> over its index; \<open>out\<close> is the array being filled.\<close>

fun parse_hex_from :: "str \<Rightarrow> nat list \<Rightarrow> bytes \<Rightarrow> (core_error, bytes) res" where
  "parse_hex_from s [] out = Ok out"
| "parse_hex_from s (i # is) out =
     bind_res (str_slice s (i * 2) (i * 2 + 2)) (\<lambda>digits.
       case u8_from_str_radix16 digits of
         None \<Rightarrow> Err (InvalidFingerprint s)
       | Some byte \<Rightarrow> parse_hex_from s is (out[i := byte]))"

definition parse_hex32 :: "(str \<Rightarrow> str) \<Rightarrow> str \<Rightarrow> (core_error, bytes) res" where
  "parse_hex32 uni str =
     (let s = to_lowercase uni (trim str) in
      if length s \<noteq> 64 then Err (InvalidFingerprint s)
      else parse_hex_from s [0 ..< 32] (replicate 32 0))"

section \<open>Operations\<close>

definition host_line_error :: "nat \<Rightarrow> str \<Rightarrow> core_error" where
  "host_line_error lineno msg = KnownHostsLine (''line '' @ string_of_nat (lineno + 1) @ '': '' @ msg)"

text \<open>The body of the loop of \<open>load\<close>; \<open>Ok None\<close> is a \<open>continue\<close>.\<close>

definition host_line :: "(str \<Rightarrow> str) \<Rightarrow> nat \<Rightarrow> str \<Rightarrow> (core_error, (host_key \<times> bytes) option) res" where
  "host_line uni lineno raw_line =
     (let line = trim raw_line in
      if line = [] \<or> starts_with line ''#'' then Ok None
      else case split_whitespace line of
        h # p # fp # _ \<Rightarrow>
          (let host = normalize_host uni h in
           case parse_u16 p of
             None \<Rightarrow> Err (host_line_error lineno ''bad port'')
           | Some port \<Rightarrow> map_ok (\<lambda>d. Some (HostKey host port, d)) (parse_hex32 uni fp))
      | _ \<Rightarrow> Err (host_line_error lineno ''need host port fingerprint''))"

fun load_host_lines ::
    "(str \<Rightarrow> str) \<Rightarrow> nat \<Rightarrow> str list \<Rightarrow> known_hosts \<Rightarrow> (core_error, known_hosts) res" where
  "load_host_lines uni lineno [] k = Ok k"
| "load_host_lines uni lineno (line # rest) k =
     (case host_line uni lineno line of
        Ok None \<Rightarrow> load_host_lines uni (Suc lineno) rest k
      | Ok (Some (key, fp)) \<Rightarrow>
          load_host_lines uni (Suc lineno) rest (k\<lparr>pins := Mapping.update key fp (pins k)\<rparr>)
      | Err e \<Rightarrow> Err e
      | Panic \<Rightarrow> Panic)"

definition known_hosts_load :: "(str \<Rightarrow> str) \<Rightarrow> fs \<Rightarrow> path \<Rightarrow> (core_error, known_hosts) res" where
  "known_hosts_load uni w p =
     (if \<not> fs_exists w p then Ok known_hosts_default
      else bind_res (map_err CoreIo (read_to_string w p)) (\<lambda>s.
        load_host_lines uni 0 (lines s) known_hosts_default))"

definition pin_hex :: "(str \<Rightarrow> str) \<Rightarrow> known_hosts \<Rightarrow> str \<Rightarrow> u16 \<Rightarrow> (core_error, bytes) res" where
  "pin_hex uni k host port =
     (let h = normalize_host uni host in
      ok_or (KnownHostsMissing (h @ '':'' @ show_u16 port)) (Mapping.lookup (pins k) (HostKey h port)))"

definition insert_hex ::
    "(str \<Rightarrow> str) \<Rightarrow> str \<Rightarrow> u16 \<Rightarrow> str \<Rightarrow> known_hosts \<Rightarrow> known_hosts \<times> (core_error, unit) res" where
  "insert_hex uni host port hex_fp k =
     (case parse_hex32 uni hex_fp of
        Err e \<Rightarrow> (k, Err e)
      | Panic \<Rightarrow> (k, Panic)
      | Ok fp \<Rightarrow>
          (k\<lparr>pins := Mapping.update (HostKey (normalize_host uni host) port) fp (pins k)\<rparr>, Ok ()))"

text \<open>The lines \<open>save\<close> pushes for the sorted keys; indexing the map panics on a key it does not hold.\<close>

fun pin_lines ::
    "('vk, 'sk) lib \<Rightarrow> known_hosts \<Rightarrow> host_key list \<Rightarrow> (core_error, str list) res" where
  "pin_lines L k [] = Ok []"
| "pin_lines L k (HostKey host port # ks) =
     (case Mapping.lookup (pins k) (HostKey host port) of
        None \<Rightarrow> Panic
      | Some d \<Rightarrow>
          map_ok ((#) (host @ '' '' @ show_u16 port @ '' '' @ hex_encode L d)) (pin_lines L k ks))"

definition kh_header :: str where
  "kh_header = ''# sao known_hosts: host port spki_sha256_hex''"

definition known_hosts_save ::
    "('vk, 'sk) lib \<Rightarrow> known_hosts \<Rightarrow> path \<Rightarrow> fs \<Rightarrow> fs \<times> (core_error, unit) res" where
  "known_hosts_save L k p w =
     (case (case path_parent p of None \<Rightarrow> (w, Ok ()) | Some dir \<Rightarrow> create_dir_all dir w) of
        (w1, Err e) \<Rightarrow> (w1, Err (CoreIo e))
      | (w1, Panic) \<Rightarrow> (w1, Panic)
      | (w1, Ok _) \<Rightarrow>
          (case pin_lines L k (Mapping.ordered_keys (pins k)) of
             Err e \<Rightarrow> (w1, Err e)
           | Panic \<Rightarrow> (w1, Panic)
           | Ok ls \<Rightarrow>
               (case fs_write p (join [nl] ([kh_header] @ ls @ [[]])) w1 of
                  (w2, r) \<Rightarrow> (w2, map_err CoreIo r))))"

section \<open>The store implements the pin store interface\<close>

interpretation pins: pin_store "pin_hex uni" "insert_hex uni" "normalize_host uni" "parse_hex32 uni"
  for uni
proof (unfold_locales, goal_cases)
  case (1 h p fp s)
  then show ?case by (auto simp: insert_hex_def split: res.splits)
next
  case (2 fp d h' h p s)
  then show ?case by (simp add: insert_hex_def pin_hex_def Let_def)
next
  case (3 h' h p' p fp s)
  then show ?case
    by (auto simp: insert_hex_def pin_hex_def Let_def lookup_update' split: res.splits)
next
  case (4 fp h p s)
  then show ?case by (auto simp: insert_hex_def split: res.splits)
qed

end
