(* ===== verification/Demo_Library.thy ===== *)
theory Demo_Library
  imports Library
begin

text \<open>
  A concrete instance of the library record, for the witnesses: it shows that the named hypotheses about
  the libraries can hold together. Base64 and hex are the real encodings; the signature scheme, the
  digest and the JSON text are toys with the documented algebraic behaviour. The JSON reader knows the
  documents in a given list.
\<close>

section \<open>Base64\<close>

definition b64_sym :: "nat \<Rightarrow> char" where
  "b64_sym n =
     (if n < 26 then char_of (65 + n) else if n < 52 then char_of (71 + n)
      else if n < 62 then char_of (n - 4) else if n = 62 then CHR ''+'' else CHR ''/'')"

definition b64_val :: "char \<Rightarrow> nat option" where
  "b64_val c =
     (let k = code c in
      if 65 \<le> k \<and> k \<le> 90 then Some (k - 65) else if 97 \<le> k \<and> k \<le> 122 then Some (k - 71)
      else if 48 \<le> k \<and> k \<le> 57 then Some (k + 4) else if k = 43 then Some 62
      else if k = 47 then Some 63 else None)"

fun b64e :: "nat list \<Rightarrow> str" where
  "b64e [] = []"
| "b64e [a] = [b64_sym (a div 4), b64_sym (a mod 4 * 16), CHR ''='', CHR ''='']"
| "b64e [a, b] =
     [b64_sym (a div 4), b64_sym (a mod 4 * 16 + b div 16), b64_sym (b mod 16 * 4), CHR ''='']"
| "b64e (a # b # c # r) =
     [b64_sym (a div 4), b64_sym (a mod 4 * 16 + b div 16), b64_sym (b mod 16 * 4 + c div 64),
      b64_sym (c mod 64)] @ b64e r"

fun b64d :: "str \<Rightarrow> nat list option" where
  "b64d [] = Some []"
| "b64d (w # x # y # z # r) =
     Option.bind (b64_val w) (\<lambda>a. Option.bind (b64_val x) (\<lambda>b.
       if y = CHR ''='' \<and> z = CHR ''='' then (if r = [] then Some [a * 4 + b div 16] else None)
       else Option.bind (b64_val y) (\<lambda>c.
         if z = CHR ''='' then
           (if r = [] then Some [a * 4 + b div 16, b mod 16 * 16 + c div 4] else None)
         else Option.bind (b64_val z) (\<lambda>d.
           map_option (\<lambda>bs. [a * 4 + b div 16, b mod 16 * 16 + c div 4, c mod 4 * 64 + d] @ bs) (b64d r)))))"
| "b64d _ = None"

lemma code_b64_sym:
  "n < 64 \<Longrightarrow> code (b64_sym n) =
    (if n < 26 then 65 + n else if n < 52 then 71 + n else if n < 62 then n - 4
     else if n = 62 then 43 else 47)"
  by (simp add: b64_sym_def code_def)

lemma b64_cases:
  fixes n :: nat
  assumes "n < 64"
  obtains "n < 26" | "26 \<le> n" "n < 52" | "52 \<le> n" "n < 62" | "n = 62" | "n = 63"
  using assms by linarith

lemma b64_val_sym [simp]: "n < 64 \<Longrightarrow> b64_val (b64_sym n) = Some n"
  by (cases rule: b64_cases [of n]) (auto simp: b64_val_def code_b64_sym Let_def)

lemma b64_char_sym [simp]: "n < 64 \<Longrightarrow> b64_char (b64_sym n)"
  by (cases rule: b64_cases [of n]) (auto simp: b64_char_def code_b64_sym)

lemma b64_val_pad: "b64_val CHR ''='' = None"
  by (simp add: b64_val_def code_def)

lemma b64_sym_not_pad [simp]: "n < 64 \<Longrightarrow> b64_sym n \<noteq> CHR ''=''"
proof
  assume n: "n < 64" and e: "b64_sym n = CHR ''=''"
  from n have "b64_val (b64_sym n) = Some n" by (rule b64_val_sym)
  with e show False by (simp add: b64_val_pad)
qed

lemma six_bits:
  fixes a b c :: nat
  assumes "a < 256" "b < 256" "c < 256"
  shows "a div 4 < 64" "a mod 4 * 16 + b div 16 < 64" "b mod 16 * 4 + c div 64 < 64"
    "a mod 4 * 16 < 64" "b mod 16 * 4 < 64"
    "a div 4 * 4 + (a mod 4 * 16 + b div 16) div 16 = a"
    "(a mod 4 * 16 + b div 16) mod 16 * 16 + (b mod 16 * 4 + c div 64) div 4 = b"
    "(b mod 16 * 4 + c div 64) mod 4 * 64 + c mod 64 = c"
    "a div 4 * 4 + (a mod 4 * 16) div 16 = a"
    "(a mod 4 * 16 + b div 16) mod 16 * 16 + (b mod 16 * 4) div 4 = b"
proof -
  have b16: "b div 16 < 16" and c64: "c div 64 < 4" using assms by simp_all
  show "a div 4 < 64" using assms by simp
  have r: "a mod 4 < 4" "b mod 16 < 16" by simp_all
  show "a mod 4 * 16 + b div 16 < 64" "b mod 16 * 4 + c div 64 < 64"
    "a mod 4 * 16 < 64" "b mod 16 * 4 < 64"
    using b16 c64 r by linarith+
  show "a div 4 * 4 + (a mod 4 * 16 + b div 16) div 16 = a"
    using b16 by simp
  show "(a mod 4 * 16 + b div 16) mod 16 * 16 + (b mod 16 * 4 + c div 64) div 4 = b"
    using b16 c64 by simp
  show "(b mod 16 * 4 + c div 64) mod 4 * 64 + c mod 64 = c"
    using c64 by simp
  show "a div 4 * 4 + (a mod 4 * 16) div 16 = a"
    by simp
  show "(a mod 4 * 16 + b div 16) mod 16 * 16 + (b mod 16 * 4) div 4 = b"
    using b16 by simp
qed

lemma b64d_b64e: "list_all (\<lambda>x. x < 256) xs \<Longrightarrow> b64d (b64e xs) = Some xs"
proof (induction xs rule: b64e.induct)
  case 1
  then show ?case by simp
next
  case (2 a)
  then show ?case using six_bits [of a 0 0] by simp
next
  case (3 a b)
  then show ?case using six_bits [of a b 0] by simp
next
  case (4 a b c r)
  then show ?case using six_bits [of a b c] by simp
qed

lemma b64e_chars: "list_all (\<lambda>x. x < 256) xs \<Longrightarrow> list_all b64_char (b64e xs)"
proof (induction xs rule: b64e.induct)
  case 1
  then show ?case by simp
next
  case (2 a)
  then show ?case using six_bits [of a 0 0] by (simp add: b64_char_def [of "CHR ''=''"] code_def)
next
  case (3 a b)
  then show ?case using six_bits [of a b 0] by (simp add: b64_char_def [of "CHR ''=''"] code_def)
next
  case (4 a b c r)
  then show ?case using six_bits [of a b c] by simp
qed

lemma div3_step: "(n + 5) div 3 = Suc ((n + 2) div (3 :: nat))"
  by presburger

lemma length_b64e: "length (b64e xs) = 4 * ((length xs + 2) div 3)"
proof (induction xs rule: b64e.induct)
  case (4 a b c r)
  have "length (a # b # c # r) + 2 = length r + 5" by simp
  with 4 show ?case by (simp only: div3_step) simp
qed simp_all

section \<open>JSON text\<close>

fun demo_json :: "json \<Rightarrow> str" where
  "demo_json JNull = ''null''"
| "demo_json (JBool b) = (if b then ''true'' else ''false'')"
| "demo_json (JInt i) = string_of_int i"
| "demo_json (JFloat s) = s"
| "demo_json (JStr s) = CHR 0x22 # s @ [CHR 0x22]"
| "demo_json (JArr js) = ''['' @ concat (map (\<lambda>j. demo_json j @ '','') js) @ '']''"
| "demo_json (JObj kvs) =
     ''{'' @ concat (map (\<lambda>kv. fst kv @ '':'' @ demo_json (snd kv) @ '','') kvs) @ ''}''"

section \<open>The instance\<close>

definition pad :: "nat \<Rightarrow> bytes \<Rightarrow> bytes" where
  "pad n bs = take n (bs @ replicate n 0)"

lemma length_pad [simp]: "length (pad n bs) = n"
  by (simp add: pad_def)

definition demo_lib :: "json list \<Rightarrow> (u8, u8) lib" where
  "demo_lib docs =
     \<lparr>b64_encode = (\<lambda>bs. b64e (map unat bs)),
      b64_decode = (\<lambda>s. case b64d s of None \<Rightarrow> Inl ''Invalid byte'' | Some ns \<Rightarrow> Inr (map of_nat ns)),
      hex_encode = (\<lambda>bs. concat (map hex_byte bs)),
      sha256 = pad 32,
      vk_from_bytes = (\<lambda>bs. case bs of [] \<Rightarrow> Inl ''no key'' | b # r \<Rightarrow>
        if bs = replicate 32 b then Inr b else Inl ''not a point''),
      vk_to_bytes = replicate 32,
      verify_strict = (\<lambda>vk m s. s = pad 64 (vk # m)),
      sk_from_bytes = (\<lambda>bs. case bs of [] \<Rightarrow> 0 | b # r \<Rightarrow> b),
      sk_to_bytes = replicate 32,
      verifying_key = (\<lambda>sk. sk),
      sk_sign = (\<lambda>sk m. pad 64 (sk # m)),
      cert_spki = (\<lambda>der. if der = [] then Inl ''no certificate'' else Inr (tl der)),
      json_write = (\<lambda>j. as_bytes (demo_json j)),
      json_read = (\<lambda>bs. find (\<lambda>j. as_bytes (demo_json j) = bs) docs),
      uni_lower = (\<lambda>s. s),
      uni_debug = (\<lambda>s. s)\<rparr>"

lemma demo_lib_simps [simp]:
  "b64_encode (demo_lib d) bs = b64e (map unat bs)"
  "hex_encode (demo_lib d) bs = concat (map hex_byte bs)"
  "sha256 (demo_lib d) = pad 32"
  "vk_to_bytes (demo_lib d) vk = replicate 32 vk"
  "verifying_key (demo_lib d) sk = sk"
  "sk_to_bytes (demo_lib d) sk = replicate 32 sk"
  "sk_sign (demo_lib d) sk m = pad 64 (sk # m)"
  "uni_lower (demo_lib d) s = s"
  "uni_debug (demo_lib d) s = s"
  by (simp_all add: demo_lib_def)

lemma demo_b64 [simp]: "b64_spec (demo_lib d)"
proof -
  have l: "list_all (\<lambda>x. x < 256) (map unat bs)" for bs :: bytes
    by (simp add: list_all_iff)
  have m: "map (of_nat \<circ> unat) bs = bs" for bs :: bytes
    by (induction bs) simp_all
  show ?thesis
    using b64d_b64e [OF l] b64e_chars [OF l]
    by (simp add: b64_spec_def length_b64e) (simp add: demo_lib_def m)
qed

lemma demo_specs [simp]:
  "hex_spec (demo_lib d)" "sha_spec (demo_lib d)" "vk_spec (demo_lib d)" "sk_spec (demo_lib d)"
  "sign_spec (demo_lib d)"
proof -
  show "hex_spec (demo_lib d)" "sha_spec (demo_lib d)"
    by (simp_all add: hex_spec_def sha_spec_def)
  have r: "replicate 32 b = b # replicate 31 b" for b :: u8
    by (simp add: numeral_eq_Suc)
  show "vk_spec (demo_lib d)" "sk_spec (demo_lib d)" "sign_spec (demo_lib d)"
    by (simp_all add: vk_spec_def sk_spec_def sign_spec_def)
       (simp_all add: demo_lib_def r)
qed

end
