(* ===== verification/Known_Hosts_Props.thy ===== *)
theory Known_Hosts_Props
  imports Known_Hosts Demo_Library
begin

text \<open>
  What the pin store promises: fingerprints are parsed exactly, a store survives being written and read
  back, the last accepted pin for a host counts, and which hosts break the file.
\<close>

section \<open>Fingerprints\<close>

definition digits_at :: "str \<Rightarrow> nat \<Rightarrow> str" where
  "digits_at s i = take 2 (drop (i * 2) s)"

definition is_hex :: "char \<Rightarrow> bool" where
  "is_hex c \<longleftrightarrow> digit_val 16 c \<noteq> None"

lemma str_slice_ascii:
  assumes "list_all is_ascii s" and "a \<le> b" and "b \<le> length s"
  shows "str_slice s a b = Ok (take (b - a) (drop a s))"
proof -
  have "is_char_boundary s i" if "i \<le> length s" for i
  proof (cases "i = length s")
    case False
    with that have "i < length s" by simp
    with assms(1) have "is_ascii (s ! i)" by (simp add: list_all_length)
    with \<open>i < length s\<close> show ?thesis
      by (simp add: is_char_boundary_def is_ascii_def is_cont_def)
  qed (simp add: is_char_boundary_def)
  with assms(2,3) show ?thesis by (simp add: str_slice_def)
qed

lemma parse_hex_from_ascii:
  assumes "list_all is_ascii s" and "length s = 64" and "length out = 32" and "n \<le> 32"
  shows "parse_hex_from s [n ..< 32] out =
    (if \<forall>i \<in> {n ..< 32}. u8_from_str_radix16 (digits_at s i) \<noteq> None
     then Ok (take n out @ map (\<lambda>i. the (u8_from_str_radix16 (digits_at s i))) [n ..< 32])
     else Err (InvalidFingerprint s))"
  using assms(4,3)
proof (induction n arbitrary: out rule: inc_induct)
  case base
  then show ?case by simp
next
  case (step n)
  have slice: "str_slice s (n * 2) (n * 2 + 2) = (Ok (digits_at s n) :: (core_error, str) res)"
    using step.hyps assms(1,2) by (subst str_slice_ascii) (auto simp: digits_at_def)
  have upt: "[n ..< 32] = n # [Suc n ..< 32]"
    using step.hyps by (simp add: upt_conv_Cons)
  have split: "(\<forall>i \<in> {n ..< 32}. P i) \<longleftrightarrow> P n \<and> (\<forall>i \<in> {Suc n ..< 32}. P i)" for P
    using step.hyps by (auto simp: Suc_le_eq le_less)
  show ?case
  proof (cases "u8_from_str_radix16 (digits_at s n)")
    case None
    with slice show ?thesis by (simp add: upt split)
  next
    case (Some b)
    have "take (Suc n) (out[n := b]) = take n out @ [b]"
      using step.hyps step.prems by (simp add: take_Suc_conv_app_nth)
    with slice Some step.IH [of "out[n := b]"] step.prems show ?thesis
      by (simp add: upt split)
  qed
qed

lemma concat_digits_at: "concat (map (digits_at s) [0 ..< n]) = take (2 * n) s"
  by (induction n) (simp_all add: digits_at_def take_add [symmetric] mult.commute add.commute)

lemma digit_val_less: "digit_val r c = Some v \<Longrightarrow> v < r"
  by (auto simp: digit_val_def Let_def split: if_splits)

lemma code_char_of [simp]: "char_of (code c) = c"
  by (simp add: code_def)

lemma code_inject: "code a = code b \<longleftrightarrow> a = b"
  by (metis code_char_of)

lemma hex_digit_val:
  assumes "digit_val 16 c = Some v" and "to_ascii_lower c = c"
  shows "hex_digit v = c"
proof -
  have "\<not> (65 \<le> code c \<and> code c \<le> 90)"
  proof
    assume u: "65 \<le> code c \<and> code c \<le> 90"
    with assms(2) have "code c = code (char_of (code c + 32))"
      by (simp add: to_ascii_lower_def)
    with u show False by (simp add: code_def)
  qed
  with assms(1) have "(48 \<le> code c \<and> code c \<le> 57 \<and> v = code c - 48) \<or>
    (97 \<le> code c \<and> code c \<le> 102 \<and> v = code c - 87)"
    by (auto simp: digit_val_def Let_def split: if_splits)
  then show ?thesis
    by (auto simp: hex_digit_def)
qed

lemma radix16_two:
  assumes "code a \<noteq> 43" and "digit_val 16 a = Some x" and "digit_val 16 b = Some y"
  shows "u8_from_str_radix16 [a, b] = Some (word_of_nat (x * 16 + y))"
  using assms digit_val_less [of 16 a x] digit_val_less [of 16 b y]
  by (simp add: u8_from_str_radix16_def parse_uint_def)

lemma radix16_Some:
  assumes "u8_from_str_radix16 [a, b] = Some n" and "code a \<noteq> 43"
    and "to_ascii_lower a = a" and "to_ascii_lower b = b"
  shows "hex_byte n = [a, b]"
proof -
  from assms(1,2) obtain x y where x: "digit_val 16 a = Some x" and y: "digit_val 16 b = Some y"
    by (auto simp: u8_from_str_radix16_def parse_uint_def split: option.splits if_splits)
  have l: "x < 16" "y < 16" using digit_val_less x y by blast+
  have "n = word_of_nat (x * 16 + y)"
    using radix16_two [OF assms(2) x y] assms(1) by simp
  moreover have "(x * 16 + y) mod 2 ^ LENGTH(8) = x * 16 + y"
    using l by simp
  ultimately have "unat n = x * 16 + y"
    by (metis unat_of_nat)
  then show ?thesis
    using l hex_digit_val [OF x assms(3)] hex_digit_val [OF y assms(4)] by (simp add: hex_byte_def)
qed

lemma set_strip: "set (strip seqs s) \<subseteq> set s"
proof -
  obtain q where "s = q @ strip seqs s" using strip_suffix by blast
  then have "set s = set q \<union> set (strip seqs s)" by (metis set_append)
  then show ?thesis by blast
qed

lemma set_trim: "set (trim s) \<subseteq> set s"
  using set_strip [of ws_seqs s] set_strip [of "map rev ws_seqs" "rev (trim_start s)"]
  by (auto simp: trim_def trim_end_def trim_start_def)

lemma length_digits_at: "i < 32 \<Longrightarrow> length s = 64 \<Longrightarrow> length (digits_at s i) = 2"
  by (simp add: digits_at_def)

lemma set_digits_at: "set (digits_at s i) \<subseteq> set s"
  unfolding digits_at_def using set_take_subset set_drop_subset by (rule subset_trans)

lemma two_chars: "length s = 2 \<Longrightarrow> \<exists>a b. s = [a, b]"
  by (auto simp: length_Suc_conv numeral_eq_Suc)

lemma lower_digits:
  assumes "map to_ascii_lower s = s"
  shows "\<forall>c \<in> set (digits_at s i). to_ascii_lower c = c"
  using assms set_digits_at [of s i] by (metis map_eq_conv list.map_ident subsetD)

lemma digits_hex:
  assumes "i < 32" and "length s = 64" and "list_all is_hex s"
  shows "u8_from_str_radix16 (digits_at s i) \<noteq> None"
proof -
  obtain a b where d: "digits_at s i = [a, b]"
    using two_chars [OF length_digits_at [OF assms(1,2)]] by blast
  with set_digits_at [of s i] assms(3) have ab: "is_hex a" "is_hex b"
    by (auto simp: list_all_iff)
  then obtain x y where xy: "digit_val 16 a = Some x" "digit_val 16 b = Some y"
    by (auto simp: is_hex_def)
  have "code a \<noteq> 43"
    using xy(1) by (auto simp: digit_val_def Let_def split: if_splits)
  then show ?thesis using radix16_two [OF _ xy] by (simp add: d)
qed

lemma parse_hex32_ascii:
  assumes "list_all is_ascii s"
  defines "t \<equiv> map to_ascii_lower (trim s)"
  shows "parse_hex32 uni s =
    (if length t = 64 \<and> (\<forall>i \<in> {0 ..< 32}. u8_from_str_radix16 (digits_at t i) \<noteq> None)
     then Ok (map (\<lambda>i. the (u8_from_str_radix16 (digits_at t i))) [0 ..< 32])
     else Err (InvalidFingerprint t))"
proof -
  have "list_all is_ascii (trim s)"
    using assms(1) set_trim [of s] by (auto simp: list_all_iff)
  then have lower: "to_lowercase uni (trim s) = t" and tasc: "list_all is_ascii t"
    by (simp_all add: to_lowercase_ascii t_def list_all_iff)
  show ?thesis
    using parse_hex_from_ascii [OF tasc, of "replicate 32 0" 0]
    by (simp add: parse_hex32_def lower)
qed

lemma no_plus_lower:
  assumes "CHR ''+'' \<notin> set s"
  shows "CHR ''+'' \<notin> set (map to_ascii_lower (trim s))"
proof
  assume "CHR ''+'' \<in> set (map to_ascii_lower (trim s))"
  then obtain c where c: "c \<in> set (trim s)" "to_ascii_lower c = CHR ''+''" by auto
  then have "code (to_ascii_lower c) = 43" by (simp add: code_def)
  then have "code c = 43" by (auto simp: to_ascii_lower_def code_def split: if_splits)
  then have "c = CHR ''+''" by (simp add: code_plus_iff)
  with c(1) assms set_trim [of s] show False by auto
qed

lemma hex_of_digits:
  assumes "map to_ascii_lower t = t" and "length t = 64" and "CHR ''+'' \<notin> set t"
    and "\<forall>i \<in> {0 ..< 32}. u8_from_str_radix16 (digits_at t i) \<noteq> None"
  shows "concat (map hex_byte (map (\<lambda>i. the (u8_from_str_radix16 (digits_at t i))) [0 ..< 32])) = t"
proof -
  have "hex_byte (the (u8_from_str_radix16 (digits_at t i))) = digits_at t i" if i: "i < 32" for i
  proof -
    obtain a b where d: "digits_at t i = [a, b]"
      using two_chars [OF length_digits_at [OF i assms(2)]] by blast
    have "code a \<noteq> 43"
      using assms(3) set_digits_at [of t i] d by (auto simp: code_plus_iff)
    moreover have "u8_from_str_radix16 (digits_at t i) \<noteq> None"
      using assms(4) i by (meson atLeastLessThan_iff le0)
    then obtain n where "u8_from_str_radix16 (digits_at t i) = Some n" by blast
    ultimately show ?thesis
      using radix16_Some [of a b n] lower_digits [OF assms(1), of i] d by simp
  qed
  then have m: "map (\<lambda>i. hex_byte (the (u8_from_str_radix16 (digits_at t i)))) [0 ..< 32] = map (digits_at t) [0 ..< 32]"
    by simp
  show ?thesis
    unfolding map_map comp_def m using concat_digits_at [of t 32] assms(2) by simp
qed

text \<open>
  Fingerprint parsing. For ASCII input the parser never panics. A result has 32 bytes, and unless
  the input contains a plus sign the result is exactly the bytes whose lower-case hex rendering is the
  trimmed input with its letters lowered. An error names that text, and it is only reported when the
  text is not 64 hex digits.
\<close>

theorem parse_hex32_exact:
  assumes "list_all is_ascii s"
  shows "case parse_hex32 uni s of
      Ok bs \<Rightarrow> length bs = 32 \<and>
        (CHR ''+'' \<notin> set s \<longrightarrow> concat (map hex_byte bs) = map to_ascii_lower (trim s))
    | Err e \<Rightarrow> e = InvalidFingerprint (map to_ascii_lower (trim s)) \<and>
        \<not> (length (trim s) = 64 \<and> list_all is_hex (map to_ascii_lower (trim s)))
    | Panic \<Rightarrow> False"
proof -
  define t where "t = map to_ascii_lower (trim s)"
  have low: "map to_ascii_lower t = t" by (simp add: t_def comp_def)
  note p = parse_hex32_ascii [OF assms, of uni, folded t_def]
  let ?ok = "\<forall>i \<in> {0 ..< 32}. u8_from_str_radix16 (digits_at t i) \<noteq> None"
  consider (short) "length t \<noteq> 64" | (good) "length t = 64" ?ok | (bad) "length t = 64" "\<not> ?ok" by blast
  then show ?thesis
  proof cases
    case short
    with p show ?thesis by (simp add: t_def)
  next
    case good
    with hex_of_digits [OF low good(1) _ good(2)] no_plus_lower [of s, folded t_def] p show ?thesis
      by (auto simp: t_def)
  next
    case bad
    then obtain i where i: "i < 32" "u8_from_str_radix16 (digits_at t i) = None"
      by (meson atLeastLessThan_iff)
    then have "\<not> list_all is_hex t" using digits_hex [OF i(1) bad(1)] by blast
    moreover from p bad have "parse_hex32 uni s = Err (InvalidFingerprint t)" by auto
    ultimately show ?thesis using bad(1) by (simp add: t_def)
  qed
qed

lemma hex_graphic: "list_all graphic (concat (map hex_byte bs))"
  by (induction bs) (simp_all add: hex_byte_graphic)

lemma length_hex: "length (concat (map hex_byte bs)) = 2 * length bs"
  by (induction bs) simp_all

lemma digits_at_hex: "i < length bs \<Longrightarrow> digits_at (concat (map hex_byte bs)) i = hex_byte (bs ! i)"
proof (induction bs arbitrary: i)
  case Nil
  then show ?case by simp
next
  case (Cons b bs)
  obtain x y where b: "hex_byte b = [x, y]" by (simp add: hex_byte_def)
  show ?case
  proof (cases i)
    case 0
    with b show ?thesis by (simp add: digits_at_def)
  next
    case (Suc j)
    with Cons have "digits_at (concat (map hex_byte bs)) j = hex_byte (bs ! j)" by simp
    with b Suc show ?thesis by (simp add: digits_at_def)
  qed
qed

text \<open>The fingerprints the program writes are read back.\<close>

lemma parse_hex32_hex:
  assumes "length bs = 32"
  shows "parse_hex32 uni (concat (map hex_byte bs)) = Ok bs"
proof -
  let ?s = "concat (map hex_byte bs)"
  have t: "map to_ascii_lower (trim ?s) = ?s"
    by (simp only: trim_graphic [OF hex_graphic] hex_lower)
  have "map (\<lambda>i. the (u8_from_str_radix16 (digits_at ?s i))) [0 ..< 32] = map ((!) bs) [0 ..< 32]"
    using assms by (simp add: digits_at_hex)
  also have "\<dots> = bs"
    using assms by (simp add: map_nth flip: assms)
  finally show ?thesis
    using parse_hex32_ascii [OF hex_ascii, of uni bs] assms
    by (simp add: t length_hex digits_at_hex)
qed

theorem parse_hex32_exact_witness:
  "parse_hex32 id (concat (map hex_byte (replicate 32 0xAB))) \<noteq> Panic"
  using parse_hex32_exact [OF hex_ascii [of "replicate 32 0xAB"], of id]
  by (auto split: res.splits)

section \<open>Invariant\<close>

text \<open>Every store the program can build is finite and holds 32-byte pins only.\<close>

definition kh_inv :: "known_hosts \<Rightarrow> bool" where
  "kh_inv k \<longleftrightarrow> finite (Mapping.keys (pins k)) \<and>
     (\<forall>key d. Mapping.lookup (pins k) key = Some d \<longrightarrow> length d = 32)"

lemma kh_inv_default: "kh_inv known_hosts_default"
  by (simp add: kh_inv_def known_hosts_default_def)

lemma kh_inv_update: "kh_inv k \<Longrightarrow> length d = 32 \<Longrightarrow> kh_inv (k\<lparr>pins := Mapping.update key d (pins k)\<rparr>)"
  by (auto simp: kh_inv_def lookup_update' keys_update split: if_splits)

lemma parse_hex_from_length: "parse_hex_from s is out = Ok d \<Longrightarrow> length d = length out"
  by (induction "is" arbitrary: out) (fastforce simp: res_iff split: option.splits)+

lemma parse_hex32_length: "parse_hex32 uni s = Ok d \<Longrightarrow> length d = 32"
  by (auto simp: parse_hex32_def Let_def dest!: parse_hex_from_length split: if_splits)

lemma insert_hex_inv: "insert_hex uni h p fp k = (k', r) \<Longrightarrow> kh_inv k \<Longrightarrow> kh_inv k'"
  by (auto simp: insert_hex_def kh_inv_update parse_hex32_length split: res.splits)

lemma host_line_length: "host_line uni n l = Ok (Some (key, d)) \<Longrightarrow> length d = 32"
  by (auto simp: host_line_def Let_def res_iff parse_hex32_length
      split: if_splits list.splits option.splits)

lemma load_host_lines_inv:
  "load_host_lines uni n ls k = Ok k' \<Longrightarrow> kh_inv k \<Longrightarrow> kh_inv k'"
proof (induction ls arbitrary: n k)
  case Nil
  then show ?case by simp
next
  case (Cons l ls)
  show ?case
  proof (cases "host_line uni n l")
    case (Ok x)
    show ?thesis
    proof (cases x)
      case None
      with Ok Cons.prems Cons.IH [of "Suc n" k] show ?thesis by simp
    next
      case (Some y)
      then obtain key d where y: "x = Some (key, d)" by (cases y) auto
      with Ok Cons.prems(1)
      have "load_host_lines uni (Suc n) ls (k\<lparr>pins := Mapping.update key d (pins k)\<rparr>) = Ok k'"
        by simp
      moreover have "kh_inv (k\<lparr>pins := Mapping.update key d (pins k)\<rparr>)"
        using Cons.prems(2) Ok y by (auto intro: kh_inv_update host_line_length)
      ultimately show ?thesis by (rule Cons.IH)
    qed
  qed (use Cons.prems in simp_all)
qed

lemma known_hosts_load_inv: "known_hosts_load uni w p = Ok k \<Longrightarrow> kh_inv k"
  by (auto simp: known_hosts_load_def kh_inv_default res_iff intro: load_host_lines_inv split: if_splits)

section \<open>Where a pin comes from\<close>

text \<open>A text spells a fingerprint: without space around it, it is 64 bytes long, two digits for each byte.\<close>

definition spells :: "(str \<Rightarrow> str) \<Rightarrow> str \<Rightarrow> bytes \<Rightarrow> bool" where
  "spells uni text fp \<longleftrightarrow> length (to_lowercase uni (trim text)) = 64 \<and> length fp = 32 \<and>
     (\<forall>i < 32. u8_from_str_radix16 (digits_at (to_lowercase uni (trim text)) i) = Some (fp ! i))"

lemma parse_hex_from_spells:
  assumes "parse_hex_from s [n ..< m] out = Ok fp" and "m \<le> length out"
  shows "(\<forall>i < n. i < length out \<longrightarrow> fp ! i = out ! i) \<and>
    (\<forall>i \<in> {n ..< m}. u8_from_str_radix16 (digits_at s i) = Some (fp ! i))"
  using assms
proof (induction "m - n" arbitrary: n out)
  case 0
  then show ?case by simp
next
  case (Suc d)
  then have n: "[n ..< m] = n # [Suc n ..< m]" by (simp add: upt_conv_Cons)
  from Suc.prems(1) obtain b where b: "u8_from_str_radix16 (digits_at s n) = Some b"
    and rest: "parse_hex_from s [Suc n ..< m] (out[n := b]) = Ok fp"
    by (auto simp: n res_iff str_slice_def digits_at_def split: option.splits if_splits)
  from Suc.hyps(1) [OF _ rest] Suc.hyps(2) Suc.prems(2)
  have ih: "\<forall>i < Suc n. i < length out \<longrightarrow> fp ! i = out[n := b] ! i"
    "\<forall>i \<in> {Suc n ..< m}. u8_from_str_radix16 (digits_at s i) = Some (fp ! i)" by auto
  moreover have "n < length out" using Suc.hyps(2) Suc.prems(2) by linarith
  ultimately have "fp ! n = b" by simp
  with ih b show ?case by (auto simp: Suc_le_eq nth_list_update less_Suc_eq elim: le_neq_implies_less)
qed

lemma parse_hex32_spells: "parse_hex32 uni t = Ok fp \<Longrightarrow> spells uni t fp"
  using parse_hex_from_spells [of "to_lowercase uni (trim t)" 0 32 "replicate 32 0" fp] parse_hex32_length [of uni t fp]
  by (auto simp: parse_hex32_def Let_def spells_def split: if_splits)

text \<open>What the lines of a file say, host, port and fingerprint as they are written.\<close>

definition line_entry :: "str \<Rightarrow> (str \<times> u16 \<times> str) option" where
  "line_entry l =
     (if starts_with (trim l) ''#'' then None
      else case split_whitespace (trim l) of
          h # p # text # _ \<Rightarrow> map_option (\<lambda>port. (h, port, text)) (parse_u16 p)
        | _ \<Rightarrow> None)"

definition file_entries :: "fs \<Rightarrow> path \<Rightarrow> (str \<times> u16 \<times> str) list" where
  "file_entries w p =
     (if fs_exists w p then case read_to_string w p of Ok s \<Rightarrow> List.map_filter line_entry (lines s) | _ \<Rightarrow> [] else [])"

text \<open>The fingerprints that are given for a host and port and can be read.\<close>

definition texts_for :: "(str \<Rightarrow> str) \<Rightarrow> str \<Rightarrow> u16 \<Rightarrow> (str \<times> u16 \<times> str) list \<Rightarrow> str list" where
  "texts_for uni host port es = [text. (h, p, text) \<leftarrow> es,
     normalize_host uni h = normalize_host uni host \<and> p = port \<and> is_ok (parse_hex32 uni text)]"

lemma insert_all_append: "insert_all ins (xs @ ys) s = insert_all ins ys (insert_all ins xs s)"
  by (induction xs arbitrary: s) auto

lemma split_whitespace_Nil: "split_whitespace [] = []"
  by code_simp

text \<open>To load a file is to insert what its lines say, one after the other.\<close>

lemma load_inserts:
  "load_host_lines uni n ls k = Ok k' \<Longrightarrow> k' = insert_all (insert_hex uni) (List.map_filter line_entry ls) k"
proof (induction ls arbitrary: n k)
  case Nil
  then show ?case by (simp add: List.map_filter_def)
next
  case (Cons l ls)
  from Cons.prems obtain x where x: "host_line uni n l = Ok x" by (auto split: res.splits)
  show ?case
  proof (cases x)
    case None
    with x have "line_entry l = None"
      by (auto simp: split_whitespace_Nil host_line_def line_entry_def Let_def res_iff split: if_splits list.splits option.splits)
    with Cons x None show ?thesis by (auto simp: List.map_filter_simps)
  next
    case (Some kd)
    with x obtain h q t d where "line_entry l = Some (h, q, t)" "kd = (HostKey (normalize_host uni h) q, d)"
      "parse_hex32 uni t = Ok d"
      by (auto simp: host_line_def line_entry_def Let_def res_iff split: if_splits list.splits option.splits)
    with Cons x Some show ?thesis by (auto simp: List.map_filter_simps insert_hex_def)
  qed
qed

lemma known_hosts_load_inserts:
  "known_hosts_load uni w p = Ok k \<Longrightarrow> k = insert_all (insert_hex uni) (file_entries w p) known_hosts_default"
  by (auto simp: known_hosts_load_def file_entries_def res_iff dest: load_inserts split: if_splits)

lemma accepted_texts:
  "map Ok (accepted_for (normalize_host uni) (parse_hex32 uni) h p es) = map (parse_hex32 uni) (texts_for uni h p es)"
proof (induction es)
  case (Cons e es)
  obtain h' p' t where e: "e = (h', p', t)" by (cases e)
  show ?case
    using Cons by (cases "parse_hex32 uni t") (simp_all add: e accepted_for_def texts_for_def List.map_filter_simps)
qed (simp add: accepted_for_def texts_for_def List.map_filter_def)

text \<open>
  C28. Where a pin comes from. After a file was loaded, whatever it contains, and any number of \<open>insert_hex\<close>
  calls were made, accepted or rejected, the pin of a host and port is what the last readable fingerprint
  for them spells, digit by digit in 64 bytes, in the order of the lines of the file and then of the calls;
  hosts count as equal when they are normalised equally. Without such a text there is no pin. A lookup
  never panics.
\<close>

theorem pins_have_a_source:
  assumes "known_hosts_load uni w p = Ok k"
  shows "case pin_hex uni (insert_all (insert_hex uni) xs k) host port of
      Ok fp \<Rightarrow> texts_for uni host port (file_entries w p @ xs) \<noteq> [] \<and>
        spells uni (last (texts_for uni host port (file_entries w p @ xs))) fp
    | Err e \<Rightarrow> texts_for uni host port (file_entries w p @ xs) = [] \<and>
        e = KnownHostsMissing (normalize_host uni host @ '':'' @ show_u16 port)
    | Panic \<Rightarrow> False"
proof -
  let ?ts = "texts_for uni host port (file_entries w p @ xs)"
    and ?as = "accepted_for (normalize_host uni) (parse_hex32 uni) host port (file_entries w p @ xs)"
  have pin: "pin_hex uni (insert_all (insert_hex uni) xs k) host port =
      (if ?as = [] then pin_hex uni known_hosts_default host port else Ok (last ?as))"
    unfolding known_hosts_load_inserts [OF assms] insert_all_append [symmetric] by (rule pins.lookup_insert_all)
  have none: "pin_hex uni known_hosts_default host port =
      Err (KnownHostsMissing (normalize_host uni host @ '':'' @ show_u16 port))"
    by (simp add: pin_hex_def known_hosts_default_def Let_def)
  note texts = accepted_texts [of uni host port "file_entries w p @ xs"]
  show ?thesis
  proof (cases "?as = []")
    case True
    with texts have "?ts = []" by simp
    with True pin none show ?thesis by simp
  next
    case False
    with texts have ts: "?ts \<noteq> []" by auto
    with False texts have "parse_hex32 uni (last ?ts) = Ok (last ?as)" by (metis last_map)
    with False ts pin show ?thesis by (simp add: parse_hex32_spells)
  qed
qed

section \<open>Saving and loading\<close>

text \<open>The hosts that can be written as the first token of a line and read back unchanged.\<close>

definition host_ok :: "(str \<Rightarrow> str) \<Rightarrow> str \<Rightarrow> bool" where
  "host_ok uni h \<longleftrightarrow> h \<noteq> [] \<and> no_ws h \<and> hd h \<noteq> CHR ''#'' \<and> normalize_host uni h = h \<and> utf8_valid h"

definition pin_line :: "str \<Rightarrow> u16 \<Rightarrow> bytes \<Rightarrow> str" where
  "pin_line host port d = host @ '' '' @ show_u16 port @ '' '' @ concat (map hex_byte d)"

lemma pin_lines_Ok:
  assumes "hex_spec L" and "pin_lines L k ks = Ok ls"
  shows "ls = map (\<lambda>key. pin_line (hk_host key) (hk_port key) (the (Mapping.lookup (pins k) key))) ks"
  using assms(2)
proof (induction ks arbitrary: ls)
  case Nil
  then show ?case by simp
next
  case (Cons key ks)
  obtain h p where "key = HostKey h p" by (cases key)
  with Cons assms(1) show ?case
    by (auto simp: res_iff pin_line_def hex_text(1) split: option.splits)
qed

lemma hex_nonempty: "length d = 32 \<Longrightarrow> concat (map hex_byte d) \<noteq> []"
  by (cases d) (simp_all add: hex_byte_def)

lemma graphic_last: "list_all graphic x \<Longrightarrow> x \<noteq> [] \<Longrightarrow> graphic (last (y @ x))"
  by (simp add: list_all_iff)

lemma pin_line_last: "length d = 32 \<Longrightarrow> graphic (last (pin_line h p d))"
  using graphic_last [OF hex_graphic hex_nonempty, of d "h @ '' '' @ show_u16 p @ '' ''"]
  by (simp add: pin_line_def)

lemma host_line_pin_line:
  assumes "host_ok uni h" and "length d = 32"
  shows "host_line uni n (pin_line h p d) = Ok (Some (HostKey h p, d))"
proof -
  let ?x = "concat (map hex_byte d)"
  have h: "h \<noteq> []" "no_ws h" "hd h \<noteq> CHR ''#''" "normalize_host uni h = h"
    using assms(1) by (auto simp: host_ok_def)
  have "ws_len (pin_line h p d) = ws_len h"
    using h(1) by (simp add: pin_line_def ws_len_before_space)
  then have "trim (pin_line h p d) = pin_line h p d"
    using h(1,2) pin_line_last [OF assms(2)]
    by (intro trim_graphic_end) (simp_all add: no_ws_ws_len pin_line_def)
  moreover have "\<not> starts_with (pin_line h p d) ''#''" "pin_line h p d \<noteq> []"
    using h(1,3) by (cases h; simp add: starts_with_def pin_line_def)+
  moreover have "split_whitespace (pin_line h p d) = [h, show_u16 p, ?x]"
    using h(1,2) hex_nonempty [OF assms(2)] hex_graphic [of d] show_u16_graphic [of p]
    by (simp add: pin_line_def split_whitespace_space split_whitespace_one no_ws_graphic
        del: concat_eq_Nil_conv)
  ultimately show ?thesis
    using h(4) by (simp add: host_line_def Let_def parse_hex32_hex assms(2))
qed

lemma kh_header_skipped: "host_line uni n kh_header = Ok None"
proof -
  have "graphic CHR ''#''" "graphic CHR ''x''" by (simp_all add: graphic_def code_def)
  then have "trim kh_header = kh_header"
    by (intro trim_graphic_end) (simp_all add: kh_header_def ws_len_graphic)
  then show ?thesis
    by (simp add: host_line_def Let_def starts_with_def kh_header_def)
qed

lemma load_pin_lines:
  assumes "\<forall>key \<in> set ks. host_ok uni (hk_host key) \<and> length (f key) = 32"
  shows "load_host_lines uni n (map (\<lambda>key. pin_line (hk_host key) (hk_port key) (f key)) ks) k
    = Ok (k\<lparr>pins := fold (\<lambda>key. Mapping.update key (f key)) ks (pins k)\<rparr>)"
  using assms by (induction ks arbitrary: n k) (simp_all add: host_line_pin_line)

lemma lookup_fold_update:
  "Mapping.lookup (fold (\<lambda>key. Mapping.update key (f key)) ks m) key =
   (if key \<in> set ks then Some (f key) else Mapping.lookup m key)"
  by (induction ks arbitrary: m) (auto simp: lookup_update')

text \<open>What a successful save leaves in the file.\<close>

definition kh_text :: "known_hosts \<Rightarrow> str list" where
  "kh_text k = kh_header #
     map (\<lambda>key. pin_line (hk_host key) (hk_port key) (the (Mapping.lookup (pins k) key)))
       (Mapping.ordered_keys (pins k))"

lemma known_hosts_save_Ok:
  assumes "hex_spec L" and "known_hosts_save L k p w = (w', Ok u)"
  shows "files w' = (files w)(p \<mapsto> concat (map (\<lambda>l. l @ [nl]) (kh_text k))) \<and> fault w' = fault w"
proof -
  from assms(2) obtain w1 ls u1 where
    1: "(case path_parent p of None \<Rightarrow> (w, Ok ()) | Some dir \<Rightarrow> create_dir_all dir w) = (w1, Ok u1)"
    and 2: "pin_lines L k (Mapping.ordered_keys (pins k)) = Ok ls"
    and 3: "fs_write p (join [nl] ([kh_header] @ ls @ [[]])) w1 = (w', Ok ())"
    by (auto simp: known_hosts_save_def res_iff split: prod.splits res.splits)
  have "join [nl] ([kh_header] @ ls @ [[]]) = concat (map (\<lambda>l. l @ [nl]) (kh_text k))"
    using join_snoc_empty [of "[nl]" "kh_header # ls"] pin_lines_Ok [OF assms(1) 2]
    by (simp add: kh_text_def)
  moreover from 1 have "files w1 = files w \<and> fault w1 = fault w"
    by (auto dest: create_dir_all_files split: option.splits)
  ultimately show ?thesis
    using fs_write_Ok [OF 3] by simp
qed

lemma pin_line_text:
  assumes "no_ws h" and "length d = 32"
  shows "nl \<notin> set (pin_line h p d)" "strip_cr (pin_line h p d) = pin_line h p d"
proof -
  show "nl \<notin> set (pin_line h p d)"
    using no_ws_not_nl [OF assms(1)] graphic_not_nl [OF hex_graphic [of d]]
      graphic_not_nl [OF show_u16_graphic(1)] by (simp add: pin_line_def)
  show "strip_cr (pin_line h p d) = pin_line h p d"
    using pin_line_last [OF assms(2)] by (intro strip_cr_graphic) (simp_all add: pin_line_def)
qed

lemma kh_header_text [simp]: "nl \<notin> set kh_header" "strip_cr kh_header = kh_header"
  "list_all is_ascii kh_header"
  by (simp_all add: kh_header_def strip_cr_def is_ascii_def code_def)

lemma kh_text_lines:
  assumes "\<forall>key \<in> set (Mapping.ordered_keys (pins k)). no_ws (hk_host key) \<and>
      length (the (Mapping.lookup (pins k) key)) = 32"
  shows "lines (concat (map (\<lambda>l. l @ [nl]) (kh_text k))) = kh_text k"
proof -
  have "\<forall>l \<in> set (kh_text k). nl \<notin> set l" "map strip_cr (kh_text k) = kh_text k"
    using assms by (auto simp: kh_text_def pin_line_text comp_def)
  then show ?thesis by (simp add: lines_concat)
qed

lemma kh_text_utf8:
  assumes "\<forall>key \<in> set (Mapping.ordered_keys (pins k)). utf8_valid (hk_host key)"
  shows "utf8_valid (concat (map (\<lambda>l. l @ [nl]) (kh_text k)))"
proof (rule utf8_valid_concat)
  have "utf8_valid (pin_line h p d)" if "utf8_valid h" for h p d
    unfolding pin_line_def
  proof (rule utf8_valid_append [OF that ascii_utf8_valid])
    show "list_all is_ascii ('' '' @ show_u16 p @ '' '' @ concat (map hex_byte d))"
      using graphic_utf8 [OF hex_graphic [of d]] graphic_utf8 [OF show_u16_graphic(1) [of p]]
      by (simp add: is_ascii_def code_def)
  qed
  then show "list_all utf8_valid (map (\<lambda>l. l @ [nl]) (kh_text k))"
    using assms ascii_utf8_valid [of "[nl]"] ascii_utf8_valid [OF kh_header_text(3)]
    by (auto simp: list_all_iff kh_text_def is_ascii_def code_def intro!: utf8_valid_append)
qed

lemma ordered_keys_set: "kh_inv k \<Longrightarrow> set (Mapping.ordered_keys (pins k)) = Mapping.keys (pins k)"
  by (simp add: kh_inv_def Mapping.ordered_keys_def)

lemma key_lookup: "key \<in> Mapping.keys m \<longleftrightarrow> (\<exists>d. Mapping.lookup m key = Some d)"
  by (auto simp: keys_is_none_rep Option.is_none_def)

lemma save_then_load:
  assumes "hex_spec L" and "kh_inv k" and "\<forall>key \<in> Mapping.keys (pins k). host_ok uni (hk_host key)"
    and "known_hosts_save L k p w = (w', Ok u)" and "fault w (OpRead p) = None"
  shows "known_hosts_load uni w' p = Ok k"
proof -
  let ?ks = "Mapping.ordered_keys (pins k)" and ?f = "\<lambda>key. the (Mapping.lookup (pins k) key)"
  have ks: "\<forall>key \<in> set ?ks. host_ok uni (hk_host key) \<and> length (?f key) = 32"
    using assms(2,3) by (auto simp: ordered_keys_set key_lookup kh_inv_def)
  have "read_to_string w' p = Ok (concat (map (\<lambda>l. l @ [nl]) (kh_text k)))"
    using known_hosts_save_Ok [OF assms(1,4)] assms(5) ks
    by (auto simp: read_to_string_Ok host_ok_def intro: kh_text_utf8)
  moreover have "lines (concat (map (\<lambda>l. l @ [nl]) (kh_text k))) = kh_text k"
    using ks by (intro kh_text_lines) (auto simp: host_ok_def)
  moreover have "fs_exists w' p"
    using known_hosts_save_Ok [OF assms(1,4)] assms(5) by (simp add: fs_exists_def)
  ultimately have "known_hosts_load uni w' p =
    Ok (known_hosts_default\<lparr>pins := fold (\<lambda>key. Mapping.update key (?f key)) ?ks Mapping.empty\<rparr>)"
    using load_pin_lines [OF ks]
    by (simp add: known_hosts_load_def kh_text_def kh_header_skipped)
       (simp add: known_hosts_default_def)
  moreover have "fold (\<lambda>key. Mapping.update key (?f key)) ?ks Mapping.empty = pins k"
    using assms(2)
    by (intro mapping_eqI) (auto simp: lookup_fold_update ordered_keys_set key_lookup)
  ultimately show ?thesis by (simp add: known_hosts_default_def)
qed

text \<open>
  C26. Persistence of trust. A store whose hosts are usable as the first token of a line, once saved
  successfully, is loaded back as exactly the same store: no pin is lost, changed or added, whatever
  number of entries it has and whatever the file contained before.
\<close>

theorem known_hosts_roundtrip:
  assumes "hex_spec L" and "kh_inv k" and "\<forall>key \<in> Mapping.keys (pins k). host_ok uni (hk_host key)"
    and "known_hosts_save L k p w = (w', Ok u)" and "fault w (OpRead p) = None"
  shows "known_hosts_load uni w' p = Ok k"
  using assms by (rule save_then_load)

definition demo_kh :: known_hosts where
  "demo_kh = \<lparr>pins = Mapping.update (HostKey ''example.org'' 8443) (replicate 32 0xAB) Mapping.empty\<rparr>"

definition demo_kh_path :: path where
  "demo_kh_path = \<lparr>rooted = True, comps = [''kh'']\<rparr>"

lemma demo_save:
  "\<exists>w'. known_hosts_save (demo_lib []) demo_kh demo_kh_path demo_empty_fs = (w', Ok ())"
  by (simp add: known_hosts_save_def demo_kh_def demo_kh_path_def demo_empty_fs_def path_parent_def
      create_dir_all_def path_empty_def fs_write_def parent_ready_def is_ancestor_def
      Mapping.ordered_keys_def)

lemma host_ok_demo: "host_ok id ''example.org''"
  unfolding host_ok_def
proof (intro conjI)
  have g: "list_all graphic ''example.org''" by (simp add: graphic_def code_def)
  then show "no_ws ''example.org''" by (rule no_ws_graphic)
  show "utf8_valid ''example.org''" using g by (intro ascii_utf8_valid graphic_utf8)
  show "normalize_host id ''example.org'' = ''example.org''"
    by (simp add: normalize_host_def trim_matches_def to_lowercase_def is_ascii_def code_def
        to_ascii_lower_def)
qed simp_all

theorem known_hosts_roundtrip_witness:
  "\<exists>w'. known_hosts_save (demo_lib []) demo_kh demo_kh_path demo_empty_fs = (w', Ok ()) \<and>
     known_hosts_load id w' demo_kh_path = Ok demo_kh"
proof -
  obtain w' where w': "known_hosts_save (demo_lib []) demo_kh demo_kh_path demo_empty_fs = (w', Ok ())"
    using demo_save by blast
  have "kh_inv demo_kh"
    using kh_inv_update [OF kh_inv_default, of "replicate 32 0xAB" "HostKey ''example.org'' 8443"]
    by (simp add: demo_kh_def known_hosts_default_def)
  moreover have "\<forall>key \<in> Mapping.keys (pins demo_kh). host_ok id (hk_host key)"
    using host_ok_demo by (simp add: demo_kh_def)
  ultimately show ?thesis
    using known_hosts_roundtrip [OF demo_specs(1) _ _ w', of id] w' by (simp add: demo_empty_fs_def)
qed

text \<open>A line, a rejected call and an accepted one.\<close>

theorem pins_have_a_source_witness:
  "\<exists>fp. pin_hex id (insert_all (insert_hex id) [(''h'', 1, ''zz''), (''H'', 1, concat (map hex_byte (replicate 32 7)))]
     known_hosts_default) ''h'' 1 = Ok fp"
proof -
  let ?t = "concat (map hex_byte (replicate 32 7))"
  have load: "known_hosts_load id demo_empty_fs demo_kh_path = Ok known_hosts_default"
    and none: "file_entries demo_empty_fs demo_kh_path = []"
    by (simp_all add: known_hosts_load_def file_entries_def fs_exists_def demo_empty_fs_def)
  have "parse_hex32 id ?t = Ok (replicate 32 7)" by (rule parse_hex32_hex) simp
  moreover have "normalize_host id ''H'' = normalize_host id ''h''" by code_simp
  ultimately have "texts_for id ''h'' 1 [(''h'', 1, ''zz''), (''H'', 1, ?t)] \<noteq> []"
    by (simp add: texts_for_def del: map_replicate)
  with pins_have_a_source [OF load, where xs = "[(''h'', 1, ''zz''), (''H'', 1, ?t)]" and host = "''h''" and port = 1] none show ?thesis
    by (auto split: res.splits)
qed

section \<open>Hosts\<close>

text \<open>
  The last accepted pin counts. After any sequence of \<open>insert_hex\<close> calls, the pin of a host and port
  is the one of the last call with an equal normalised host, the same port and a valid fingerprint;
  rejected fingerprints, other hosts and other ports have no influence on it.
\<close>

theorem last_pin_wins:
  "pin_hex uni (insert_all (insert_hex uni) xs k) h p =
   (if accepted_for (normalize_host uni) (parse_hex32 uni) h p xs = [] then pin_hex uni k h p
    else Ok (last (accepted_for (normalize_host uni) (parse_hex32 uni) h p xs)))"
  by (rule pins.lookup_insert_all)

lemma trim_matches_brackets:
  assumes "b \<in> set cs" and "e \<in> set cs"
  shows "trim_matches cs (b # h @ [e]) = trim_matches cs h"
proof (cases "dropWhile (\<lambda>c. c \<in> set cs) h = []")
  case True
  then have "\<forall>c \<in> set h. c \<in> set cs" by (simp add: dropWhile_eq_Nil_conv)
  with assms show ?thesis by (simp add: trim_matches_def dropWhile_append2 True)
next
  case False
  then have "dropWhile (\<lambda>c. c \<in> set cs) (h @ [e]) = dropWhile (\<lambda>c. c \<in> set cs) h @ [e]"
    by (simp add: dropWhile_append dropWhile_eq_Nil_conv)
  with assms show ?thesis by (simp add: trim_matches_def)
qed

lemma dropWhile_map: "dropWhile P (map f xs) = map f (dropWhile (P \<circ> f) xs)"
  by (induction xs) auto

lemma trim_matches_lower:
  assumes "\<And>c. c \<in> set cs \<longleftrightarrow> to_ascii_lower c \<in> set cs"
  shows "trim_matches cs (map to_ascii_lower s) = map to_ascii_lower (trim_matches cs s)"
proof -
  have "(\<lambda>c. c \<in> set cs) \<circ> to_ascii_lower = (\<lambda>c. c \<in> set cs)"
    using assms by auto
  then show ?thesis by (simp add: trim_matches_def dropWhile_map rev_map)
qed

lemma trim_matches_idem: "trim_matches cs (trim_matches cs s) = trim_matches cs s"
proof -
  let ?P = "\<lambda>c. c \<in> set cs" and ?t = "trim_matches cs s"
  have l: "dropWhile ?P (rev ?t) = rev ?t"
    by (simp add: trim_matches_def dropWhile_idem)
  have "prefix ?t (dropWhile ?P s)"
    unfolding trim_matches_def by (metis suffix_dropWhile rev_rev_ident suffix_to_prefix)
  then have "dropWhile ?P ?t = ?t"
  proof (cases ?t)
    case (Cons c r)
    with \<open>prefix ?t (dropWhile ?P s)\<close> obtain r' where "dropWhile ?P s = c # r'"
      by (metis prefix_Cons list.distinct(1) prefix_def append_Cons)
    then have "\<not> ?P c" using hd_dropWhile [of ?P s] by auto
    with Cons show ?thesis by simp
  qed simp
  then show ?thesis using l by (simp add: trim_matches_def [of cs ?t])
qed

lemma set_trim_matches: "set (trim_matches cs s) \<subseteq> set s"
  unfolding trim_matches_def by (auto dest!: set_dropWhileD)

lemma normalize_host_eq: "normalize_host uni h = to_lowercase uni (trim_matches [CHR ''['', CHR '']''] h)"
  by (simp add: normalize_host_def Let_def)

lemma brackets_lower: "c \<in> set [CHR ''['', CHR '']''] \<longleftrightarrow> to_ascii_lower c \<in> set [CHR ''['', CHR '']'']"
proof -
  have *: "x = CHR ''['' \<longleftrightarrow> code x = 91" "x = CHR '']'' \<longleftrightarrow> code x = 93" for x
    using code_inject [of x "CHR ''[''"] code_inject [of x "CHR '']''"] by (simp_all add: code_def)
  show ?thesis
    by (auto simp: * to_ascii_lower_def code_def)
qed

lemma normalize_host_ascii:
  assumes "list_all is_ascii h"
  shows "normalize_host uni h = trim_matches [CHR ''['', CHR '']''] (map to_ascii_lower h)"
proof -
  have "list_all is_ascii (trim_matches [CHR ''['', CHR '']''] h)"
    using assms set_trim_matches by (fastforce simp: list_all_iff)
  then show ?thesis
    by (simp only: normalize_host_eq to_lowercase_ascii trim_matches_lower [OF brackets_lower])
qed

lemma list_all_ascii_lower [simp]: "list_all is_ascii (map to_ascii_lower h) = list_all is_ascii h"
  by (simp add: list_all_iff)

text \<open>
  Host names are compared up to case and brackets: for ASCII hosts the normal form does not change
  when it is normalised again, hosts that differ in case only have the same normal form, and an address
  in brackets has the normal form of the address without them. So the pin that is found does not depend
  on how the host was written.
\<close>

theorem normalize_host_canonical:
  assumes "list_all is_ascii h" and "list_all is_ascii g"
    and "map to_ascii_lower g = map to_ascii_lower h"
  shows "normalize_host uni (normalize_host uni h) = normalize_host uni h \<and>
    pin_hex uni k g p = pin_hex uni k h p \<and>
    pin_hex uni k (CHR ''['' # h @ [CHR '']'']) p = pin_hex uni k h p"
proof -
  let ?n = "normalize_host uni"
  have "list_all is_ascii (?n h)"
    using assms(1) set_trim_matches [of "[CHR ''['', CHR '']'']" "map to_ascii_lower h"]
    by (auto simp: normalize_host_ascii list_all_iff)
  then have "?n (?n h) = trim_matches [CHR ''['', CHR '']''] (map to_ascii_lower (?n h))"
    by (rule normalize_host_ascii)
  also have "map to_ascii_lower (?n h) = ?n h"
  proof -
    have "map to_ascii_lower (map to_ascii_lower h) = map to_ascii_lower h" by simp
    with trim_matches_lower [OF brackets_lower, of "map to_ascii_lower h"] show ?thesis
      by (simp only: normalize_host_ascii [OF assms(1)])
  qed
  also have "trim_matches [CHR ''['', CHR '']''] (?n h) = ?n h"
    by (simp only: normalize_host_ascii [OF assms(1)] trim_matches_idem)
  finally have "?n (?n h) = ?n h" .
  moreover have "?n g = ?n h"
    by (simp only: normalize_host_ascii assms)
  moreover have "?n (CHR ''['' # h @ [CHR '']'']) = ?n h"
    using trim_matches_brackets [of "CHR ''[''" "[CHR ''['', CHR '']'']" "CHR '']''" h]
    by (simp only: normalize_host_eq list.set_intros simp_thms)
  ultimately show ?thesis by (simp add: pin_hex_def Let_def)
qed

theorem normalize_host_canonical_witness:
  "pin_hex id demo_kh ''Example.ORG'' 8443 = Ok (replicate 32 0xAB)"
proof -
  have "pin_hex id demo_kh ''Example.ORG'' 8443 = pin_hex id demo_kh ''example.org'' 8443"
  proof (rule normalize_host_canonical [THEN conjunct2, THEN conjunct1])
    show "map to_ascii_lower ''Example.ORG'' = map to_ascii_lower ''example.org''" by code_simp
  qed (simp_all add: is_ascii_def code_def)
  moreover have "normalize_host id ''example.org'' = ''example.org''"
    using host_ok_demo by (simp only: host_ok_def)
  ultimately show ?thesis by (simp add: pin_hex_def demo_kh_def)
qed

section \<open>Limits of the format\<close>

text \<open>
  \<open>parse_hex32\<close> slices by byte positions: 64 bytes of UTF-8 with a character across such a position make
  it panic. And it accepts a plus sign as the first of two digits.
\<close>

lemma parse_hex32_panics:
  "parse_hex32 id (CHR ''a'' # CHR 0xC3 # CHR 0xA9 # replicate 61 (CHR ''a'')) = Panic"
  by code_simp

lemma parse_hex32_plus: "parse_hex32 id (concat (replicate 32 ''+f'')) = Ok (replicate 32 0x0F)"
  by code_simp

text \<open>
  A host that normalises to the empty string is accepted, but the file it is saved in cannot be loaded
  any more; one that starts with a hash sign is lost when the file is loaded.
\<close>

lemma empty_host_accepted:
  assumes "length d = 32"
  shows "insert_hex uni ''[]'' p (concat (map hex_byte d)) k =
    (k\<lparr>pins := Mapping.update (HostKey [] p) d (pins k)\<rparr>, Ok ())"
  by (simp add: insert_hex_def parse_hex32_hex assms normalize_host_eq trim_matches_def to_lowercase_def)

lemma empty_host_unloadable:
  assumes "length d = 32"
  shows "host_line uni n (pin_line [] p d) = Err (host_line_error n ''need host port fingerprint'')"
proof -
  let ?x = "concat (map hex_byte d)" and ?p = "show_u16 p" and ?t = "show_u16 p @ CHR 0x20 # concat (map hex_byte d)"
  have l: "pin_line [] p d = CHR 0x20 # ?t" by (simp add: pin_line_def)
  have g: "list_all graphic ?p" "?p \<noteq> []" "list_all graphic ?x" "?x \<noteq> []"
    using show_u16_graphic hex_graphic hex_nonempty [OF assms] by auto
  have "trim (pin_line [] p d) = trim ?t"
    by (simp add: l trim_space)
  also have "trim ?t = ?t"
  proof (rule trim_graphic_end)
    show "ws_len ?t = 0" using g(1,2) by (simp add: ws_len_before_space ws_len_graphic_head)
    show "graphic (last ?t)"
      using graphic_last [OF g(3,4), of "?p @ [CHR 0x20]"] by simp
  qed simp
  finally have t: "trim (pin_line [] p d) = ?t" .
  moreover have "split_whitespace ?t = [?p, ?x]"
    using g by (simp add: split_whitespace_space split_whitespace_one no_ws_graphic
        del: concat_eq_Nil_conv)
  moreover have "\<not> starts_with ?t ''#''"
  proof -
    obtain c r where c: "?p = c # r" using g(2) by (cases ?p) auto
    have "c \<noteq> CHR ''#''"
    proof
      assume "c = CHR ''#''"
      with c have "parse_u16 (show_u16 p) = None"
        by (simp add: parse_u16_def parse_uint_def digit_val_def code_def)
      then show False by simp
    qed
    with c show ?thesis by (simp add: starts_with_def)
  qed
  ultimately show ?thesis by (simp add: host_line_def Let_def)
qed

lemma hash_host_lost: "host_line uni n (pin_line (CHR ''#'' # h) p d) = Ok None"
proof -
  have g: "graphic CHR ''#''" by (simp add: graphic_def code_def)
  obtain r where "trim (pin_line (CHR ''#'' # h) p d) = CHR ''#'' # r"
    using trim_graphic_head [OF g] by (auto simp: pin_line_def)
  then show ?thesis by (simp add: host_line_def Let_def starts_with_def)
qed

end
