(* ===== verification/Spki.thy ===== *)
theory Spki
  imports Known_Hosts_Props
begin

text \<open>
  The fingerprint of a server certificate (\<open>sao-core/src/spki.rs\<close>): the SHA-256 digest of the public key
  inside of it. The X.509 parser is the field \<open>cert_spki\<close> of the library record; it returns the raw
  public key information or the rendering of its error.
\<close>

section \<open>Definitions\<close>

definition spki_sha256_bytes_from_cert_der ::
    "('vk, 'sk) lib \<Rightarrow> bytes \<Rightarrow> (core_error, bytes) res" where
  "spki_sha256_bytes_from_cert_der L der =
     bind_res (map_err X509 (of_sum (cert_spki L der))) (\<lambda>spki. Ok (sha256 L spki))"

definition spki_sha256_hex_from_cert_der ::
    "('vk, 'sk) lib \<Rightarrow> bytes \<Rightarrow> (core_error, str) res" where
  "spki_sha256_hex_from_cert_der L der =
     bind_res (spki_sha256_bytes_from_cert_der L der) (\<lambda>d. Ok (hex_encode L d))"

definition PEM_START :: str where
  "PEM_START = ''-----BEGIN CERTIFICATE-----''"

definition PEM_END :: str where
  "PEM_END = ''-----END CERTIFICATE-----''"

definition spki_sha256_hex_from_pem :: "('vk, 'sk) lib \<Rightarrow> str \<Rightarrow> (core_error, str) res" where
  "spki_sha256_hex_from_pem L pem =
     bind_res (ok_or (X509 ''no BEGIN CERTIFICATE'') (find_sub PEM_START pem)) (\<lambda>start.
     bind_res (str_slice pem (start + length PEM_START) (length pem)) (\<lambda>rest.
     bind_res (ok_or (X509 ''no END CERTIFICATE'') (find_sub PEM_END rest)) (\<lambda>stop.
     bind_res (str_slice rest 0 stop) (\<lambda>body.
     let b64 = concat (List.filter (\<lambda>l. l \<noteq> [] \<and> \<not> starts_with l ''#'') (lines body)) in
     bind_res (map_err X509 (of_sum (b64_decode L (trim b64)))) (\<lambda>der.
     spki_sha256_hex_from_cert_der L der)))))"

section \<open>Facts\<close>

lemma utf8_valid_after_ascii: "utf8_valid s \<Longrightarrow> s = xs @ c # ys \<Longrightarrow> is_ascii c \<Longrightarrow> utf8_valid ys"
proof (induction s arbitrary: xs rule: utf8_valid.induct)
  case 1
  then show ?case by simp
next
  case (2 a r)
  show ?case
  proof (cases xs)
    case Nil
    with 2 show ?thesis by simp
  next
    case (Cons x xs')
    have na: "\<not> is_cont c" "\<not> in_range lo hi c" if "128 \<le> lo" for lo hi
      using "2.prems"(3) that by (auto simp: is_cont_def is_ascii_def in_range_def)
    have r: "r = xs' @ c # ys" using Cons "2.prems"(2) by simp
    have v: "utf8_valid (a # r)" by (rule "2.prems"(1))
    consider "is_ascii a" | "\<not> is_ascii a" "in_range 0xC2 0xDF a"
      | "\<not> is_ascii a" "\<not> in_range 0xC2 0xDF a" "in_range 0xE0 0xEF a"
      | "\<not> is_ascii a" "\<not> in_range 0xC2 0xDF a" "\<not> in_range 0xE0 0xEF a" "in_range 0xF0 0xF4 a"
      using v by (auto split: if_splits)
    then show ?thesis
    proof cases
      case 1
      with v show ?thesis using "2.IH"(1) [OF 1 _ r "2.prems"(3)] by simp
    next
      case 2
      with v obtain b r' where "r = b # r'" "is_cont b" "utf8_valid r'"
        by (auto split: list.splits)
      moreover from this r na obtain ws where "r' = ws @ c # ys" by (cases xs') auto
      ultimately show ?thesis using "2.IH"(2) [OF 2] "2.prems"(3) by blast
    next
      case 3
      with v obtain b d r' where "r = b # d # r'" "in_range (if code a = 0xE0 then 0xA0 else 0x80) (if code a = 0xED then 0x9F else 0xBF) b" "is_cont d" "utf8_valid r'"
        by (auto split: list.splits)
      moreover from this r na obtain ws where "r' = ws @ c # ys"
        by (cases xs'; cases "tl xs'") (auto split: if_splits)
      ultimately show ?thesis using "2.IH"(3) [OF 3] "2.prems"(3) by blast
    next
      case 4
      with v obtain b d e r' where "r = b # d # e # r'" "in_range (if code a = 0xF0 then 0x90 else 0x80) (if code a = 0xF4 then 0x8F else 0xBF) b" "is_cont d" "is_cont e" "utf8_valid r'"
        by (auto split: list.splits)
      moreover from this r na obtain ws where "r' = ws @ c # ys"
        by (cases xs'; cases "tl xs'"; cases "tl (tl xs')") (auto split: if_splits)
      ultimately show ?thesis using "2.IH"(4) [OF 4] "2.prems"(3) by blast
    qed
  qed
qed

lemma utf8_valid_head: "utf8_valid (c # s) \<Longrightarrow> \<not> is_cont c"
  by (auto simp: is_cont_def is_ascii_def in_range_def split: if_splits)

lemma char_boundary_after_ascii:
  assumes "utf8_valid (xs @ c # ys)" and "is_ascii c"
  shows "is_char_boundary (xs @ c # ys) (Suc (length xs))"
proof (cases ys)
  case Nil
  then show ?thesis by (simp add: is_char_boundary_def)
next
  case (Cons y ys')
  with utf8_valid_after_ascii [OF assms(1) refl assms(2)] have "\<not> is_cont y"
    using utf8_valid_head by blast
  with Cons show ?thesis by (simp add: is_char_boundary_def nth_append)
qed

lemma PEM_END_Cons: "PEM_END = CHR ''-'' # ''----END CERTIFICATE-----''"
  by (simp add: PEM_END_def)

lemma dash [simp]: "is_ascii CHR ''-''" "\<not> is_cont CHR ''-''"
  by (simp_all add: is_ascii_def is_cont_def code_def)

lemma slice_after_start:
  assumes "utf8_valid s" and "find_sub PEM_START s = Some i"
  shows "str_slice s (i + length PEM_START) (length s) = Ok (drop (i + length PEM_START) s)"
proof -
  from find_sub_Some [OF assms(2)] have le: "i + length PEM_START \<le> length s"
    and t: "take (length PEM_START) (drop i s) = PEM_START" by simp_all
  let ?xs = "take i s @ ''-----BEGIN CERTIFICATE----''" and ?ys = "drop (i + length PEM_START) s"
  have s: "s = take i s @ PEM_START @ ?ys"
    using t by (metis add.commute append_take_drop_id drop_drop)
  then have "s = ?xs @ CHR ''-'' # ?ys" by (simp add: PEM_START_def)
  moreover have "Suc (length ?xs) = i + length PEM_START"
    using le by (simp add: PEM_START_def)
  ultimately have "is_char_boundary s (i + length PEM_START)"
    using char_boundary_after_ascii [of ?xs "CHR ''-''" ?ys] assms(1) by simp
  with le show ?thesis
    by (simp add: str_slice_def) (simp add: is_char_boundary_def)
qed

lemma slice_before_end:
  assumes "find_sub PEM_END s = Some i"
  shows "str_slice s 0 i = Ok (take i s)"
proof -
  from find_sub_Some [OF assms] have le: "i + length PEM_END \<le> length s"
    and t: "take (length PEM_END) (drop i s) = PEM_END" by simp_all
  then have "i < length s" by (simp add: PEM_END_def)
  moreover have "hd (drop i s) = CHR ''-''"
    using t PEM_END_Cons by (metis hd_take length_greater_0_conv list.distinct(1) list.sel(1))
  ultimately have "s ! i = CHR ''-''" by (simp add: hd_drop_conv_nth)
  with \<open>i < length s\<close> show ?thesis
    by (simp add: str_slice_def is_char_boundary_def)
qed

lemma find_sub_skip: "p \<noteq> [] \<Longrightarrow> hd p \<notin> set xs \<Longrightarrow> find_sub p (xs @ p @ ys) = Some (length xs)"
proof (induction xs)
  case Nil
  then show ?case by (cases p) auto
next
  case (Cons x xs)
  then show ?case by (cases p) auto
qed

lemma cert_der_not_Panic [simp]: "spki_sha256_hex_from_cert_der L der \<noteq> Panic"
  by (auto simp: spki_sha256_hex_from_cert_der_def spki_sha256_bytes_from_cert_der_def res_iff)

section \<open>Properties\<close>

text \<open>
  Reading a PEM file is safe: whatever valid UTF-8 text the certificate file contains, the slices
  \<open>pem[start + START.len()..]\<close> and \<open>rest[..end]\<close> are within bounds and on character boundaries, so
  the function returns a fingerprint or an error and never panics.
\<close>

theorem spki_from_pem_safe:
  assumes "utf8_valid pem"
  shows "spki_sha256_hex_from_pem L pem \<noteq> Panic"
  using assms
  by (auto simp: spki_sha256_hex_from_pem_def res_iff Let_def slice_after_start slice_before_end)

theorem spki_from_pem_safe_witness:
  "spki_sha256_hex_from_pem (demo_lib []) (PEM_START @ [CHR 0xC3, CHR 0xA9] @ PEM_END) \<noteq> Panic"
proof (rule spki_from_pem_safe)
  have "utf8_valid PEM_START" "utf8_valid PEM_END"
    by (rule ascii_utf8_valid, simp add: PEM_START_def PEM_END_def is_ascii_def code_def)+
  moreover have "utf8_valid [CHR 0xC3, CHR 0xA9]"
    by (simp add: is_ascii_def in_range_def is_cont_def code_def)
  ultimately show "utf8_valid (PEM_START @ [CHR 0xC3, CHR 0xA9] @ PEM_END)"
    by (intro utf8_valid_append)
qed

lemma pem_lines:
  assumes "\<forall>l \<in> set ls. list_all graphic l"
  shows "lines ([nl] @ concat (map (\<lambda>l. l @ [nl]) ls)) = [] # ls"
proof -
  have "\<forall>l \<in> set ([] # ls). nl \<notin> set l" "map strip_cr ([] # ls) = [] # ls"
    using assms by (auto simp: graphic_not_nl strip_cr_graphic_all map_idI strip_cr_def [of "[]"])
  then show ?thesis using lines_concat [of "[] # ls"] by simp
qed

lemma b64_lines:
  assumes "b64_spec L" and "concat ls = b64_encode L der" and "l \<in> set ls"
  shows "list_all graphic l" "\<not> starts_with l ''#''" "CHR ''-'' \<notin> set l"
proof -
  have s: "\<forall>c \<in> set l. b64_char c"
    using assms by (auto simp: b64_spec_def list_all_iff) (metis UN_I set_concat)
  then show "list_all graphic l" by (simp add: list_all_iff b64_char_graphic)
  have "\<not> b64_char CHR ''#''" "\<not> b64_char CHR ''-''" by (simp_all add: b64_char_def code_def)
  with s show "\<not> starts_with l ''#''" "CHR ''-'' \<notin> set l"
    by (auto simp: starts_with_def prefix_def)
qed

lemma pem_fingerprint:
  assumes "b64_spec L" and "hex_spec L" and "sha_spec L" and "utf8_valid pem"
    and "pem = pre @ PEM_START @ [nl] @ concat (map (\<lambda>l. l @ [nl]) ls) @ PEM_END @ post"
    and "find_sub PEM_START pem = Some (length pre)"
    and "concat ls = b64_encode L der" and "cert_spki L der = Inr spki"
  shows "\<exists>fp. spki_sha256_hex_from_pem L pem = Ok fp \<and> parse_hex32 uni fp = Ok (sha256 L spki) \<and>
    spki_sha256_bytes_from_cert_der L der = Ok (sha256 L spki)"
proof -
  let ?body = "[nl] @ concat (map (\<lambda>l. l @ [nl]) ls)"
  have l: "\<forall>l \<in> set ls. list_all graphic l \<and> \<not> starts_with l ''#'' \<and> CHR ''-'' \<notin> set l"
    using b64_lines [OF assms(1,7)] by blast
  have "drop (length pre + length PEM_START) pem = ?body @ PEM_END @ post"
    by (simp add: assms(5))
  then have 1: "str_slice pem (length pre + length PEM_START) (length pem) =
    (Ok (?body @ PEM_END @ post) :: (core_error, str) res)"
    using slice_after_start [OF assms(4,6)] by simp
  have "find_sub PEM_END (?body @ PEM_END @ post) = Some (length ?body)"
    using l by (intro find_sub_skip) (auto simp: PEM_END_def)
  then have 2: "find_sub PEM_END (?body @ PEM_END @ post) = Some (length ?body)"
    "str_slice (?body @ PEM_END @ post) 0 (length ?body) = (Ok ?body :: (core_error, str) res)"
    using slice_before_end by fastforce+
  have pl: "lines ?body = [] # ls" using l by (intro pem_lines) blast
  have "concat (List.filter (\<lambda>l. l \<noteq> [] \<and> \<not> starts_with l ''#'') ls) = concat (List.filter (\<lambda>l. l \<noteq> []) ls)"
    using l by (intro arg_cong [where f = concat] filter_cong) auto
  also have "\<dots> = concat ls" by (induction ls) auto
  finally have 3: "concat (List.filter (\<lambda>l. l \<noteq> [] \<and> \<not> starts_with l ''#'') (lines ?body)) = b64_encode L der"
    using assms(7) by (simp only: pl) simp
  have "spki_sha256_hex_from_pem L pem = spki_sha256_hex_from_cert_der L der"
    using assms(6) 1 2 3 b64_text [OF assms(1), of der]
    by (simp only: spki_sha256_hex_from_pem_def ok_or.simps bind_res.simps Let_def trim_graphic
        of_sum.simps map_err.simps)
  with assms(2,3,8) show ?thesis
    by (simp add: spki_sha256_hex_from_cert_der_def spki_sha256_bytes_from_cert_der_def hex_text(1)
        parse_hex32_hex sha_spec_def)
qed

text \<open>
  C38. The fingerprint the server prints is the pin the client checks. For a certificate file with any
  text before the certificate block and the DER bytes base64-encoded over any number of lines, the
  server's \<open>spki_sha256_hex_from_pem\<close> returns a text that \<open>insert_hex\<close> parses to exactly the digest
  \<open>connect_pinned\<close> computes from the certificate of the connection.
\<close>

theorem pem_fingerprint_is_pin:
  assumes "b64_spec L" and "hex_spec L" and "sha_spec L" and "utf8_valid pem"
    and "pem = pre @ PEM_START @ [nl] @ concat (map (\<lambda>l. l @ [nl]) ls) @ PEM_END @ post"
    and "find_sub PEM_START pem = Some (length pre)"
    and "concat ls = b64_encode L der" and "cert_spki L der = Inr spki"
  shows "\<exists>fp. spki_sha256_hex_from_pem L pem = Ok fp \<and> parse_hex32 uni fp = Ok (sha256 L spki) \<and>
    spki_sha256_bytes_from_cert_der L der = Ok (sha256 L spki)"
  using assms by (rule pem_fingerprint)

definition demo_pem :: str where
  "demo_pem = PEM_START @ [nl] @ concat (map (\<lambda>l. l @ [nl]) [''AQ'', ''ID'']) @ PEM_END @ [nl]"

lemma demo_pem_utf8: "utf8_valid demo_pem"
  by (rule ascii_utf8_valid) (simp add: demo_pem_def PEM_START_def PEM_END_def is_ascii_def code_def)

lemma demo_pem_facts:
  "find_sub PEM_START demo_pem = Some (length [])"
  "concat [''AQ'', ''ID''] = b64_encode (demo_lib []) [1, 2, 3]"
  "cert_spki (demo_lib []) [1, 2, 3] = Inr [2, 3]"
  "demo_pem = [] @ PEM_START @ [nl] @ concat (map (\<lambda>l. l @ [nl]) [''AQ'', ''ID'']) @ PEM_END @ [nl]"
proof -
  show "find_sub PEM_START demo_pem = Some (length [])"
    using find_sub_skip [of PEM_START "[]"] by (simp add: demo_pem_def PEM_START_def)
  show "concat [''AQ'', ''ID''] = b64_encode (demo_lib []) [1, 2, 3]" by code_simp
  show "cert_spki (demo_lib []) [1, 2, 3] = Inr [2, 3]" by (simp add: demo_lib_def)
  show "demo_pem = [] @ PEM_START @ [nl] @ concat (map (\<lambda>l. l @ [nl]) [''AQ'', ''ID'']) @ PEM_END @ [nl]"
    by (simp only: demo_pem_def append_Nil)
qed

lemma pem_demo: "\<exists>fp. spki_sha256_hex_from_pem (demo_lib []) demo_pem = Ok fp"
  using pem_fingerprint [OF demo_b64 demo_specs(1,2) demo_pem_utf8 demo_pem_facts(4,1,2,3)] by blast

theorem pem_fingerprint_is_pin_witness:
  "\<exists>fp. spki_sha256_hex_from_pem (demo_lib []) demo_pem = Ok fp \<and>
     parse_hex32 id fp = Ok (pad 32 [2, 3])"
  using pem_fingerprint_is_pin [OF demo_b64 demo_specs(1,2) demo_pem_utf8 demo_pem_facts(4,1,2,3), of id]
  by simp blast

end
