(* ===== verification/Config.thy ===== *)
theory Config
  imports Paths Rust_Str_Facts
begin

text \<open>
  The server configuration (\<open>sao-core/src/config.rs\<close>) and the shell policy (\<open>policy.rs\<close>). The YAML
  reader and writer belong to a library and are arguments of \<open>load\<close> and \<open>save\<close>.
\<close>

section \<open>Configuration\<close>

record tls_config =
  cert_path :: path
  key_path :: path
  auto_generate_self_signed :: bool

record policy_config =
  deny_substrings :: "str list"

record server_config =
  listen :: str
  tls :: tls_config
  authorized_keys_path :: path
  allow_insecure_plain :: bool
  insecure_plain_listen :: "str option"
  policy :: policy_config
  shell_argv :: "str list"
  exec_timeout_secs :: u64
  policy_group_default :: str
  policy_group_by_fingerprint :: "str \<Rightarrow> str option"

definition default_cert_path :: path where
  "default_cert_path = path_from ''/etc/sao/tls/cert.pem''"

definition default_key_path :: path where
  "default_key_path = path_from ''/etc/sao/tls/key.pem''"

definition tls_config_default :: tls_config where
  "tls_config_default =
     \<lparr>cert_path = default_cert_path, key_path = default_key_path, auto_generate_self_signed = False\<rparr>"

definition policy_config_default :: policy_config where
  "policy_config_default = \<lparr>deny_substrings = []\<rparr>"

definition default_listen :: str where
  "default_listen = ''0.0.0.0:8443''"

definition default_authorized_keys :: path where
  "default_authorized_keys = path_from ''/etc/sao/authorized_keys''"

definition default_shell_argv :: "str list" where
  "default_shell_argv = [''bash'', ''-lc'']"

definition default_exec_timeout_secs :: u64 where
  "default_exec_timeout_secs = 300"

definition default_policy_group :: str where
  "default_policy_group = ''default''"

definition LOCAL_DEV_CONFIG_PATH :: str where
  "LOCAL_DEV_CONFIG_PATH = ''.sao/config.yaml''"

definition server_config_default :: server_config where
  "server_config_default =
     \<lparr>listen = default_listen, tls = tls_config_default,
      authorized_keys_path = default_authorized_keys, allow_insecure_plain = False,
      insecure_plain_listen = None, policy = policy_config_default,
      shell_argv = default_shell_argv, exec_timeout_secs = default_exec_timeout_secs,
      policy_group_default = default_policy_group, policy_group_by_fingerprint = (\<lambda>_. None)\<rparr>"

definition init_for_dir :: "path \<Rightarrow> server_config" where
  "init_for_dir dir =
     (let addr = (if starts_with (path_display dir) ''/etc'' then ''0.0.0.0:8443'' else ''127.0.0.1:8443'') in
      \<lparr>listen = addr,
       tls = \<lparr>cert_path = path_join (path_join dir ''tls'') ''cert.pem'',
              key_path = path_join (path_join dir ''tls'') ''key.pem'',
              auto_generate_self_signed = True\<rparr>,
       authorized_keys_path = path_join dir ''authorized_keys'',
       allow_insecure_plain = False, insecure_plain_listen = None,
       policy = \<lparr>deny_substrings = [''rm -rf /'']\<rparr>,
       shell_argv = default_shell_argv, exec_timeout_secs = 120,
       policy_group_default = default_policy_group, policy_group_by_fingerprint = (\<lambda>_. None)\<rparr>)"

definition local_dev_init :: server_config where
  "local_dev_init = init_for_dir (path_from ''.sao'')"

definition server_config_load ::
    "(str \<Rightarrow> str + server_config) \<Rightarrow> fs \<Rightarrow> path \<Rightarrow> (core_error, server_config) res" where
  "server_config_load yaml_read w p =
     bind_res (map_err CoreIo (read_to_string w p)) (\<lambda>raw.
     bind_res (map_err Yaml (of_sum (yaml_read raw))) (\<lambda>c. Ok c))"

definition server_config_save ::
    "(server_config \<Rightarrow> str + str) \<Rightarrow> server_config \<Rightarrow> path \<Rightarrow> fs \<Rightarrow> fs \<times> (core_error, unit) res" where
  "server_config_save yaml_write c p w =
     (let (w1, r1) = (case path_parent p of
            None \<Rightarrow> (w, Ok ())
          | Some parent \<Rightarrow> if path_empty parent then (w, Ok ()) else create_dir_all parent w) in
      case r1 of
        Err e \<Rightarrow> (w1, Err (CoreIo e))
      | Panic \<Rightarrow> (w1, Panic)
      | Ok _ \<Rightarrow>
          (case yaml_write c of
             Inl e \<Rightarrow> (w1, Err (Yaml e))
           | Inr yaml \<Rightarrow> (case fs_write p yaml w1 of (w2, r2) \<Rightarrow> (w2, map_err CoreIo r2))))"

section \<open>Policy\<close>

fun check_patterns :: "(str \<Rightarrow> str) \<Rightarrow> str list \<Rightarrow> str \<Rightarrow> (core_error, unit) res" where
  "check_patterns dbg [] shell = Ok ()"
| "check_patterns dbg (pat # pats) shell =
     (if contains shell pat then Err (PolicyDenied (''matched deny pattern: '' @ debug_str dbg pat))
      else check_patterns dbg pats shell)"

definition check_shell :: "(str \<Rightarrow> str) \<Rightarrow> policy_config \<Rightarrow> str \<Rightarrow> (core_error, unit) res" where
  "check_shell dbg pol shell = check_patterns dbg (deny_substrings pol) shell"

section \<open>Facts\<close>

lemma check_patterns_Ok: "check_patterns dbg pats shell = Ok u \<longleftrightarrow> (\<forall>p \<in> set pats. \<not> sublist p shell)"
  by (induction pats) (auto simp: contains_iff_sublist)

lemma check_patterns_Err:
  "check_patterns dbg pats shell = Err e \<Longrightarrow>
   \<exists>p i. i < length pats \<and> pats ! i = p \<and> sublist p shell \<and> (\<forall>j < i. \<not> sublist (pats ! j) shell) \<and>
     e = PolicyDenied (''matched deny pattern: '' @ debug_str dbg p)"
proof (induction pats)
  case Nil
  then show ?case by simp
next
  case (Cons q pats)
  show ?case
  proof (cases "sublist q shell")
    case True
    with Cons.prems show ?thesis
      by (intro exI [of _ q] exI [of _ 0]) (simp add: contains_iff_sublist)
  next
    case False
    with Cons.prems have "check_patterns dbg pats shell = Err e"
      by (simp add: contains_iff_sublist)
    with Cons.IH obtain i where i: "i < length pats" "sublist (pats ! i) shell"
      "\<forall>j < i. \<not> sublist (pats ! j) shell"
      "e = PolicyDenied (''matched deny pattern: '' @ debug_str dbg (pats ! i))" by auto
    with False show ?thesis
      by (intro exI [of _ "pats ! i"] exI [of _ "Suc i"]) (auto simp: less_Suc_eq_0_disj)
  qed
qed

lemma check_patterns_not_Panic [simp]: "check_patterns dbg pats shell \<noteq> Panic"
  by (induction pats) auto

lemma check_shell_Ok: "check_shell dbg pol shell = Ok u \<longleftrightarrow> (\<forall>p \<in> set (deny_substrings pol). \<not> sublist p shell)"
  by (simp add: check_shell_def check_patterns_Ok)

lemma check_shell_cases:
  obtains (allowed) "check_shell dbg pol shell = Ok ()"
  | (denied) msg where "check_shell dbg pol shell = Err (PolicyDenied msg)"
proof (cases "check_shell dbg pol shell")
  case (Ok u)
  then show ?thesis using allowed by simp
next
  case (Err e)
  then have "\<exists>msg. e = PolicyDenied msg"
    unfolding check_shell_def by (auto dest!: check_patterns_Err)
  with Err show ?thesis using denied by blast
next
  case Panic
  then show ?thesis by (simp add: check_shell_def)
qed

section \<open>Properties\<close>

text \<open>
  The policy check decides exactly the documented rule: a shell line passes if and only if none of
  the configured patterns is a substring of it; otherwise the call fails with a policy error that
  names the first matching pattern. There is no other outcome.
\<close>

theorem check_shell_decides:
  "(check_shell dbg pol shell = Ok () \<longleftrightarrow> (\<forall>p \<in> set (deny_substrings pol). \<not> sublist p shell)) \<and>
   (case check_shell dbg pol shell of
      Ok u \<Rightarrow> True
    | Err e \<Rightarrow> (\<exists>i < length (deny_substrings pol).
        sublist (deny_substrings pol ! i) shell \<and>
        (\<forall>j < i. \<not> sublist (deny_substrings pol ! j) shell) \<and>
        e = PolicyDenied (''matched deny pattern: '' @ debug_str dbg (deny_substrings pol ! i)))
    | Panic \<Rightarrow> False)"
proof (cases rule: check_shell_cases [of dbg pol shell])
  case allowed
  then have "\<forall>p \<in> set (deny_substrings pol). \<not> sublist p shell"
    by (simp only: check_shell_Ok)
  with allowed show ?thesis by simp
next
  case (denied msg)
  then have "\<not> (\<forall>p \<in> set (deny_substrings pol). \<not> sublist p shell)"
    using check_shell_Ok [of dbg pol shell "()"] by simp
  with denied check_patterns_Err [OF denied [unfolded check_shell_def]] show ?thesis
    by auto
qed

theorem check_shell_decides_witness:
  "check_shell id (policy local_dev_init) ''cd /; rm -rf / --no-preserve-root'' \<noteq> Ok ()"
proof -
  have "sublist ''rm -rf /'' ''cd /; rm -rf / --no-preserve-root''"
    by (simp add: sublist_Cons_right)
  then show ?thesis
    using check_shell_decides [of id "policy local_dev_init" "''cd /; rm -rf / --no-preserve-root''"]
    by (auto simp: local_dev_init_def init_for_dir_def Let_def)
qed

text \<open>
  Saving a configuration and loading it again gives the same configuration, whatever directories
  the save had to create, provided the YAML library reads back the document it wrote and the document
  is valid UTF-8.
\<close>

theorem config_save_load:
  assumes "server_config_save yaml_write c p w = (w', Ok u)"
    and "yaml_write c = Inr doc" and "yaml_read doc = Inr c" and "utf8_valid doc"
    and "fault w (OpRead p) = None"
  shows "server_config_load yaml_read w' p = Ok c"
proof -
  from assms(1,2) obtain w1 where w1: "fault w1 = fault w" "fs_write p doc w1 = (w', Ok ())"
    by (auto simp: server_config_save_def Let_def res_iff dest: create_dir_all_files
        split: prod.splits option.splits res.splits if_splits)
  with assms(3-5) show ?thesis
    by (auto simp: server_config_load_def res_iff read_to_string_Ok dest!: fs_write_Ok)
qed

lemma demo_config_save:
  "\<exists>w'. server_config_save (\<lambda>c. Inr ''doc'') local_dev_init \<lparr>rooted = True, comps = [''c'']\<rparr> demo_empty_fs
     = (w', Ok ())"
  by (simp add: server_config_save_def demo_empty_fs_def path_parent_def create_dir_all_def path_empty_def
      fs_write_def parent_ready_def is_ancestor_def)

theorem config_save_load_witness:
  "\<exists>w'. server_config_load (\<lambda>s. Inr local_dev_init) w' \<lparr>rooted = True, comps = [''c'']\<rparr> = Ok local_dev_init"
proof -
  obtain w' where w': "server_config_save (\<lambda>c. Inr ''doc'') local_dev_init
      \<lparr>rooted = True, comps = [''c'']\<rparr> demo_empty_fs = (w', Ok ())"
    using demo_config_save by blast
  have "utf8_valid ''doc''" by (simp add: is_ascii_def code_def)
  then show ?thesis
    using config_save_load [OF w' refl refl] by (auto simp: demo_empty_fs_def)
qed

end
