(* ===== verification/Tls_Util.thy ===== *)
theory Tls_Util
  imports Spki Config
begin

text \<open>
  The server's certificate files (\<open>sao-server/src/tls_util.rs\<close>) and the initialisation command
  (\<open>cmd_init\<close> of \<open>sao-server/src/main.rs\<close>). The certificate generator, the PEM reader and the TLS
  configuration builder are libraries and are arguments: a generated pair of PEM texts, the items the
  PEM reader finds in what could be read of a file, and the result of the builder.
\<close>

section \<open>Certificate files\<close>

definition ensure_self_signed_pem ::
    "('vk, 'sk) lib \<Rightarrow> str + (str \<times> str) \<Rightarrow> tls_config \<Rightarrow> fs \<Rightarrow> fs \<times> (core_error, unit) res" where
  "ensure_self_signed_pem L gen t w =
     (if fs_exists w (cert_path t) \<and> fs_exists w (key_path t) then (w, Ok ())
      else if \<not> auto_generate_self_signed t
      then (w, Err (CoreIo (IoError NotFound
             (''TLS cert/key missing and auto_generate_self_signed=false: '' @
              debug_str (uni_debug L) (path_display (cert_path t)) @ '' '' @
              debug_str (uni_debug L) (path_display (key_path t))))))
      else case (case path_parent (cert_path t) of None \<Rightarrow> (w, Ok ()) | Some p \<Rightarrow> create_dir_all p w) of
        (w1, Err e) \<Rightarrow> (w1, Err (CoreIo e))
      | (w1, Panic) \<Rightarrow> (w1, Panic)
      | (w1, Ok _) \<Rightarrow>
          (case (case path_parent (key_path t) of None \<Rightarrow> (w1, Ok ()) | Some p \<Rightarrow> create_dir_all p w1) of
             (w2, Err e) \<Rightarrow> (w2, Err (CoreIo e))
           | (w2, Panic) \<Rightarrow> (w2, Panic)
           | (w2, Ok _) \<Rightarrow>
               (case gen of
                  Inl m \<Rightarrow> (w2, Err (CoreIo (IoError Other_kind m)))
                | Inr (cert_pem, key_pem) \<Rightarrow>
                    (case fs_write (cert_path t) cert_pem w2 of
                       (w3, Err e) \<Rightarrow> (w3, Err (CoreIo e))
                     | (w3, Panic) \<Rightarrow> (w3, Panic)
                     | (w3, Ok _) \<Rightarrow>
                         (case fs_write (key_path t) key_pem w3 of
                            (w4, r) \<Rightarrow> (w4, map_err CoreIo r))))))"

text \<open>The text that goes to standard error, when there is one.\<close>

definition print_spki_fingerprint :: "('vk, 'sk) lib \<Rightarrow> str \<Rightarrow> (core_error, str) res" where
  "print_spki_fingerprint L cert_pem =
     bind_res (spki_sha256_hex_from_pem L cert_pem) (\<lambda>fp.
       Ok (''sao-server TLS SPKI SHA256 (pin): '' @ fp @ [nl]))"

text \<open>
  \<open>File::open\<close> and what a reader then gets: the readable part of the file and the error after it. A
  directory can be opened but not read.
\<close>

definition file_open :: "fs \<Rightarrow> path \<Rightarrow> (io_error, str \<times> io_error option) res" where
  "file_open w p =
     (case fault w (OpRead p) of
        Some (AtOpen e) \<Rightarrow> Err e
      | Some (Hidden e) \<Rightarrow> Err e
      | x \<Rightarrow>
          (case files w p of
             Some s \<Rightarrow> Ok (case x of Some (AfterBytes n e) \<Rightarrow> (take n s, Some e) | _ \<Rightarrow> (s, None))
           | None \<Rightarrow>
               if dirs w p then Ok ([], Some (IoError Other_kind ''Is a directory (os error 21)''))
               else Err (IoError NotFound ''No such file or directory (os error 2)'')))"

fun ok_items :: "('e + 'a) list \<Rightarrow> 'a list" where
  "ok_items [] = []"
| "ok_items (Inl e # xs) = ok_items xs"
| "ok_items (Inr a # xs) = a # ok_items xs"

definition rustls_server_config ::
    "('vk, 'sk) lib \<Rightarrow> str + (str \<times> str) \<Rightarrow> (str \<times> io_error option \<Rightarrow> (io_error + 'cert) list) \<Rightarrow>
     (str \<times> io_error option \<Rightarrow> (io_error + 'key) list) \<Rightarrow> ('cert list \<Rightarrow> 'key \<Rightarrow> str + 'cfg) \<Rightarrow>
     tls_config \<Rightarrow> fs \<Rightarrow> fs \<times> (core_error, 'cfg) res" where
  "rustls_server_config L gen pem_certs pem_keys single_cert t w =
     (case ensure_self_signed_pem L gen t w of
        (w1, Err e) \<Rightarrow> (w1, Err e)
      | (w1, Panic) \<Rightarrow> (w1, Panic)
      | (w1, Ok _) \<Rightarrow> (w1,
          bind_res (map_err CoreIo (read_to_string w1 (cert_path t))) (\<lambda>cert_pem.
          bind_res (print_spki_fingerprint L cert_pem) (\<lambda>_.
          bind_res (map_err CoreIo (file_open w1 (cert_path t))) (\<lambda>cert_r.
          let certs = ok_items (pem_certs cert_r) in
          if certs = [] then Err (CoreIo (IoError InvalidData ''no certificates in PEM''))
          else
          bind_res (map_err CoreIo (file_open w1 (key_path t))) (\<lambda>key_r.
          bind_res (case pem_keys key_r of
              Inl e # _ \<Rightarrow> Err (CoreIo (IoError InvalidData (io_error_display e)))
            | [] \<Rightarrow> Err (CoreIo (IoError InvalidData ''no PKCS8 private key''))
            | Inr k # _ \<Rightarrow> Ok k) (\<lambda>key.
          map_err (\<lambda>m. CoreIo (IoError InvalidData m)) (of_sum (single_cert certs key)))))))))"

section \<open>Initialisation\<close>

text \<open>\<open>examples/authorized_keys.example\<close>, which the program includes as text.\<close>

definition AUTHORIZED_KEYS_STUB :: str where
  "AUTHORIZED_KEYS_STUB =
     ''# Generate client key:'' @ [nl] @
     ''#   sao key-fingerprint'' @ [nl] @
     ''# Then append the non-comment line from ~/.sao/keys/agent.ed25519.pub below.'' @ [nl] @ [nl] @
     ''# sao-ed25519 <base64-32-byte-pubkey> my-agent'' @ [nl]"

text \<open>
  The function works on the configuration path; \<open>gen\<close> and \<open>yaml_write\<close> are the libraries' results.
  The value of an \<open>Ok\<close> is what was printed to standard error.
\<close>

definition cmd_init ::
    "('vk, 'sk) lib \<Rightarrow> str + (str \<times> str) \<Rightarrow> (server_config \<Rightarrow> str + str) \<Rightarrow> path \<Rightarrow> bool \<Rightarrow> fs \<Rightarrow>
     fs \<times> (boxed_error, str) res" where
  "cmd_init L gen yaml_write config_path force w =
     (if fs_exists w config_path \<and> \<not> force
      then (w, Err (BoxMsg (path_display config_path @ '' already exists (pass --force to overwrite)'')))
      else
        let cfg = init_for_dir (case path_parent config_path of None \<Rightarrow> path_from ''.'' | Some p \<Rightarrow> p) in
        case server_config_save yaml_write cfg config_path w of
          (w1, Err e) \<Rightarrow> (w1, Err (BoxCore e))
        | (w1, Panic) \<Rightarrow> (w1, Panic)
        | (w1, Ok _) \<Rightarrow>
        (case ensure_self_signed_pem L gen (tls cfg) w1 of
          (w2, Err e) \<Rightarrow> (w2, Err (BoxCore e))
        | (w2, Panic) \<Rightarrow> (w2, Panic)
        | (w2, Ok _) \<Rightarrow>
        (case read_to_string w2 (cert_path (tls cfg)) of
          Err e \<Rightarrow> (w2, Err (BoxIo e))
        | Panic \<Rightarrow> (w2, Panic)
        | Ok cert_pem \<Rightarrow>
        (case print_spki_fingerprint L cert_pem of
          Err e \<Rightarrow> (w2, Err (BoxCore e))
        | Panic \<Rightarrow> (w2, Panic)
        | Ok printed \<Rightarrow>
          let ak = authorized_keys_path cfg;
              (w3, r3) =
                (if fs_exists w2 ak then (w2, Ok ())
                 else
                   case (case path_parent ak of
                      Some p \<Rightarrow> (if \<not> path_empty p then create_dir_all p w2 else (w2, Ok ()))
                    | None \<Rightarrow> (w2, Ok ())) of
                     (wa, Err e) \<Rightarrow> (wa, Err e)
                   | (wa, Panic) \<Rightarrow> (wa, Panic)
                   | (wa, Ok _) \<Rightarrow> fs_write ak AUTHORIZED_KEYS_STUB wa)
          in (w3, map_ok (\<lambda>_. printed @ ''Initialized '' @ path_display config_path @ '' '' @
                 [CHR 0xE2, CHR 0x80, CHR 0x94] @ '' add sao-ed25519 lines to '' @ path_display ak @
                 '', then: sao-server --config '' @ path_display config_path @ [nl])
               (map_err BoxIo r3))))))"

section \<open>Facts\<close>

lemma parent_dir_files:
  "(case x of None \<Rightarrow> (w, Ok ()) | Some p \<Rightarrow> create_dir_all p w) = (w', r) \<Longrightarrow> files w' = files w"
  by (auto dest: create_dir_all_files split: option.splits)

lemma ensure_other:
  assumes "ensure_self_signed_pem L gen t w = (w', r)" and "q \<noteq> cert_path t" and "q \<noteq> key_path t"
  shows "files w' q = files w q"
  using assms
  by (auto simp: ensure_self_signed_pem_def dest!: parent_dir_files fs_write_other [where q = q]
      split: if_splits prod.splits res.splits sum.splits)

lemma ensure_Ok:
  assumes "ensure_self_signed_pem L gen t w = (w', Ok u)"
  shows "fs_exists w' (cert_path t) \<and> fs_exists w' (key_path t)"
  using assms
  by (auto simp: ensure_self_signed_pem_def res_iff intro: fs_write_exists fs_write_keeps(1)
      split: if_splits prod.splits res.splits sum.splits)

text \<open>Either both files are there and stay, or both are written; a failure may have written the first one.\<close>

lemma ensure_generates:
  assumes "ensure_self_signed_pem L gen t w = (w', Ok u)" and "\<not> (fs_exists w (cert_path t) \<and> fs_exists w (key_path t))"
    and "cert_path t \<noteq> key_path t"
  shows "\<exists>c k. gen = Inr (c, k) \<and> files w' = (files w)(cert_path t \<mapsto> c, key_path t \<mapsto> k)"
  using assms
  by (auto simp: ensure_self_signed_pem_def res_iff dest!: parent_dir_files fs_write_Ok
      split: if_splits prod.splits res.splits sum.splits)

lemma parent_dir_exists:
  "(case x of None \<Rightarrow> (w, Ok ()) | Some p \<Rightarrow> create_dir_all p w) = (w', r) \<Longrightarrow>
   \<forall>p. x = Some p \<longrightarrow> \<not> is_ancestor q p \<Longrightarrow> fs_exists w' q = fs_exists w q"
  by (auto dest: create_dir_all_exists(2) split: option.splits)

lemma ensure_exists_other:
  assumes "ensure_self_signed_pem L gen t w = (w', r)" and "q \<noteq> cert_path t" and "q \<noteq> key_path t"
    and "\<forall>p. path_parent (cert_path t) = Some p \<or> path_parent (key_path t) = Some p \<longrightarrow> \<not> is_ancestor q p"
  shows "fs_exists w' q = fs_exists w q"
  using assms
  by (auto simp: ensure_self_signed_pem_def dest!: parent_dir_exists [where q = q] fs_write_keeps(2) [where q = q]
      split: if_splits prod.splits res.splits sum.splits)

lemma save_exists_other:
  assumes "server_config_save yaml_write c p w = (w', r)" and "q \<noteq> p"
    and "\<forall>d. path_parent p = Some d \<longrightarrow> \<not> is_ancestor q d"
  shows "fs_exists w' q = fs_exists w q"
  using assms
  by (auto simp: server_config_save_def Let_def
      dest!: create_dir_all_exists(2) [where q = q] fs_write_keeps(2) [where q = q]
      split: prod.splits option.splits res.splits sum.splits if_splits)

lemma save_Ok:
  "server_config_save yaml_write c p w = (w', Ok u) \<Longrightarrow> \<exists>doc. yaml_write c = Inr doc \<and> files w' p = Some doc"
  by (auto simp: server_config_save_def Let_def res_iff dest!: create_dir_all_files fs_write_Ok
      split: prod.splits option.splits res.splits sum.splits if_splits)

lemma ensure_exists:
  "fs_exists w (cert_path t) \<Longrightarrow> fs_exists w (key_path t) \<Longrightarrow> ensure_self_signed_pem L gen t w = (w, Ok ())"
  by (simp add: ensure_self_signed_pem_def)

lemma ensure_no_generation:
  "ensure_self_signed_pem L gen t w = (w', r) \<Longrightarrow> \<not> auto_generate_self_signed t \<Longrightarrow> w' = w"
  by (auto simp: ensure_self_signed_pem_def split: if_splits)

lemma save_other: "server_config_save yaml_write c p w = (w', r) \<Longrightarrow> q \<noteq> p \<Longrightarrow> files w' q = files w q"
  by (auto simp: server_config_save_def Let_def dest!: create_dir_all_files fs_write_other [where q = q]
      split: prod.splits option.splits res.splits sum.splits if_splits)

lemma init_paths:
  "cert_path (tls (init_for_dir d)) = d\<lparr>comps := comps d @ [''tls'', ''cert.pem'']\<rparr>"
  "key_path (tls (init_for_dir d)) = d\<lparr>comps := comps d @ [''tls'', ''key.pem'']\<rparr>"
  "authorized_keys_path (init_for_dir d) = d\<lparr>comps := comps d @ [''authorized_keys'']\<rparr>"
  by (simp_all add: init_for_dir_def Let_def path_join_name)

section \<open>Properties\<close>

text \<open>
  C30. The certificate is generated once. After a start of the server that succeeded, every later start
  on the resulting files succeeds with the same TLS configuration and changes nothing, whatever
  certificate the generator would produce then, so the pins that clients hold stay valid; and a server
  that is not allowed to generate certificates never writes a file.
\<close>

theorem server_identity_stable:
  assumes "rustls_server_config L gen pem_certs pem_keys single_cert t w = (w1, Ok c)"
  shows "rustls_server_config L gen' pem_certs pem_keys single_cert t w1 = (w1, Ok c) \<and>
    (\<not> auto_generate_self_signed t \<longrightarrow> w1 = w)"
proof -
  from assms obtain u where e: "ensure_self_signed_pem L gen t w = (w1, Ok u)"
    by (auto simp: rustls_server_config_def split: prod.splits res.splits)
  then have "ensure_self_signed_pem L gen' t w1 = (w1, Ok ())"
    using ensure_Ok [OF e] by (intro ensure_exists) simp_all
  with assms e show ?thesis
    by (auto simp: rustls_server_config_def dest: ensure_no_generation)
qed

definition demo_dir_fs :: fs where
  "demo_dir_fs = \<lparr>files = (\<lambda>_. None), dirs = (\<lambda>p. p = \<lparr>rooted = True, comps = [''d'']\<rparr>), fault = (\<lambda>_. None)\<rparr>"

definition demo_tls :: tls_config where
  "demo_tls = \<lparr>cert_path = \<lparr>rooted = True, comps = [''d'', ''c'']\<rparr>,
     key_path = \<lparr>rooted = True, comps = [''d'', ''k'']\<rparr>, auto_generate_self_signed = True\<rparr>"

lemma demo_start:
  "\<exists>w1. rustls_server_config (demo_lib []) (Inr (demo_pem, ''key'')) (\<lambda>_. [Inr ()]) (\<lambda>_. [Inr ()])
     (\<lambda>_ _. Inr True) demo_tls demo_dir_fs = (w1, Ok True)"
proof -
  let ?p = "\<lparr>rooted = True, comps = [''d'']\<rparr>" and ?c = "cert_path demo_tls" and ?k = "key_path demo_tls"
  have par: "path_parent ?c = Some ?p" "path_parent ?k = Some ?p" "?c \<noteq> ?k" "?c \<noteq> ?p" "?k \<noteq> ?p"
    "\<not> is_ancestor ?c ?p" "\<not> is_ancestor ?k ?p"
    by (simp_all add: demo_tls_def path_parent_def is_ancestor_def)
  have mk: "create_dir_all ?p w = (w\<lparr>dirs := (\<lambda>q. dirs w q \<or> is_ancestor q ?p)\<rparr>, Ok ())"
    if "files w = (\<lambda>_. None)" "fault w = (\<lambda>_. None)" for w
    using that by (simp add: create_dir_all_def path_empty_def)
  let ?d = "\<lambda>q. dirs demo_dir_fs q \<or> is_ancestor q ?p"
  let ?w1 = "\<lparr>files = (\<lambda>_. None)(?c \<mapsto> demo_pem, ?k \<mapsto> ''key''), dirs = ?d, fault = (\<lambda>_. None)\<rparr>"
  have e: "ensure_self_signed_pem (demo_lib []) (Inr (demo_pem, ''key'')) demo_tls demo_dir_fs = (?w1, Ok ())"
    using par
    by (simp add: ensure_self_signed_pem_def fs_exists_def mk demo_dir_fs_def fs_write_def parent_ready_def)
       (simp add: demo_tls_def)
  have "read_to_string ?w1 ?c = Ok demo_pem"
    using par demo_pem_utf8 by (simp add: read_to_string_Ok)
  moreover obtain fp where "spki_sha256_hex_from_pem (demo_lib []) demo_pem = Ok fp"
    using pem_demo by blast
  moreover have "file_open ?w1 ?c = Ok (demo_pem, None)" "file_open ?w1 ?k = Ok (''key'', None)"
    using par by (simp_all add: file_open_def)
  ultimately show ?thesis
    by (simp add: rustls_server_config_def e print_spki_fingerprint_def)
qed

theorem server_identity_stable_witness:
  "\<exists>w1. rustls_server_config (demo_lib []) (Inl ''no generator'') (\<lambda>_. [Inr ()]) (\<lambda>_. [Inr ()])
     (\<lambda>_ _. Inr True) demo_tls w1 = (w1, Ok True)"
proof -
  obtain w1 where "rustls_server_config (demo_lib []) (Inr (demo_pem, ''key'')) (\<lambda>_. [Inr ()]) (\<lambda>_. [Inr ()])
     (\<lambda>_ _. Inr True) demo_tls demo_dir_fs = (w1, Ok True)"
    using demo_start by blast
  from server_identity_stable [OF this] show ?thesis by blast
qed

text \<open>None of the files that \<open>init\<close> makes is a directory on the way to another one.\<close>

lemma init_distinct:
  assumes "path_parent cp = Some d" and "authorized_keys_path (init_for_dir d) \<noteq> cp"
  defines "t \<equiv> tls (init_for_dir d)" and "ak \<equiv> authorized_keys_path (init_for_dir d)"
  shows "distinct [cp, cert_path t, key_path t, ak]"
    and "q \<in> {cert_path t, key_path t, ak} \<Longrightarrow> \<not> is_ancestor q d"
    and "path_parent (cert_path t) = Some p \<or> path_parent (key_path t) = Some p \<Longrightarrow> \<not> is_ancestor ak p"
proof -
  obtain n where cp: "cp = d\<lparr>comps := comps d @ [n]\<rparr>"
    using assms(1) by (auto simp: path_parent_def split: if_splits) (metis append_butlast_last_id path.surjective
      path.update_convs(2) old.unit.exhaust)
  show "distinct [cp, cert_path t, key_path t, ak]"
    using assms(2) by (simp add: cp t_def ak_def init_paths)
  show "q \<in> {cert_path t, key_path t, ak} \<Longrightarrow> \<not> is_ancestor q d"
    by (auto simp: t_def ak_def init_paths is_ancestor_def dest!: prefix_length_le)
  show "path_parent (cert_path t) = Some p \<or> path_parent (key_path t) = Some p \<Longrightarrow> \<not> is_ancestor ak p"
    by (auto simp: t_def ak_def init_paths is_ancestor_def path_parent_def butlast_append)
qed


lemma cmd_init_files:
  assumes "cmd_init L gen yaml_write cp force w = (w', r)" and "path_parent cp = Some d"
    and "authorized_keys_path (init_for_dir d) \<noteq> cp" and "q \<noteq> cp"
    and cert: "q \<in> {cert_path (tls (init_for_dir d)), key_path (tls (init_for_dir d))} \<longrightarrow>
      fs_exists w (cert_path (tls (init_for_dir d))) \<and> fs_exists w (key_path (tls (init_for_dir d)))"
    and "q = authorized_keys_path (init_for_dir d) \<longrightarrow> files w q \<noteq> None"
  shows "files w' q = files w q"
proof (cases "fs_exists w cp \<and> \<not> force")
  case True
  with assms(1) show ?thesis by (simp add: cmd_init_def)
next
  case False
  let ?cfg = "init_for_dir d" and ?ak = "authorized_keys_path (init_for_dir d)"
  obtain w1 r1 where 1: "server_config_save yaml_write ?cfg cp w = (w1, r1)" by fastforce
  obtain w2 r2 where 2: "ensure_self_signed_pem L gen (tls ?cfg) w1 = (w2, r2)" by fastforce
  note apart = init_distinct [OF assms(2,3)]
  have "fs_exists w1 p = fs_exists w p" if "p \<in> {cert_path (tls ?cfg), key_path (tls ?cfg)}" for p
    using save_exists_other [OF 1, of p] apart(1,2) that assms(2) by auto
  then have q: "files w1 q = files w q" "files w2 q = files w q"
    using save_other [OF 1 assms(4)] ensure_other [OF 2, of q] cert 2
    by (auto simp: ensure_exists)
  have "w' \<in> {w1, w2} \<or> (\<exists>wa r3. \<not> fs_exists w2 ?ak \<and> files wa = files w2 \<and> fault wa = fault w2 \<and>
    (w' = wa \<or> fs_write ?ak AUTHORIZED_KEYS_STUB wa = (w', r3)))"
    using assms(1,2) False 1 2
    by (auto simp: cmd_init_def Let_def dest!: create_dir_all_files
        split: prod.splits res.splits if_splits option.splits)
  with q assms(6) show ?thesis
    by (auto simp: fs_exists_def dest: fs_write_other [where q = q] fs_write_hidden [rotated] hidden_cong)
       (metis fs_write_hidden hidden_cong option.distinct(1))
qed

lemma cmd_init_Ok:
  assumes "cmd_init L gen yaml_write cp force w = (w', Ok u)" and "path_parent cp = Some d"
    and "authorized_keys_path (init_for_dir d) \<noteq> cp"
  defines "t \<equiv> tls (init_for_dir d)" and "ak \<equiv> authorized_keys_path (init_for_dir d)"
  shows "\<exists>doc. yaml_write (init_for_dir d) = Inr doc \<and> files w' cp = Some doc"
    and "\<not> (fs_exists w (cert_path t) \<and> fs_exists w (key_path t)) \<Longrightarrow>
      \<exists>c k. gen = Inr (c, k) \<and> files w' (cert_path t) = Some c \<and> files w' (key_path t) = Some k"
    and "\<not> fs_exists w ak \<Longrightarrow> files w' ak = Some AUTHORIZED_KEYS_STUB"
proof -
  from assms(1,2) obtain w1 w2 v1 v2 where 1: "server_config_save yaml_write (init_for_dir d) cp w = (w1, Ok v1)"
    and 2: "ensure_self_signed_pem L gen t w1 = (w2, Ok v2)"
    and 3: "if fs_exists w2 ak then w' = w2 else files w' = (files w2)(ak \<mapsto> AUTHORIZED_KEYS_STUB)"
    by (auto simp: cmd_init_def Let_def t_def ak_def res_iff dest!: create_dir_all_files fs_write_Ok
        split: prod.splits res.splits if_splits option.splits)
  note apart = init_distinct [OF assms(2,3), folded t_def ak_def]
  have same: "fs_exists w1 p = fs_exists w p" if "p \<in> {cert_path t, key_path t, ak}" for p
    using save_exists_other [OF 1, of p] apart(1,2) that assms(2) by auto
  have w2: "files w2 cp = files w1 cp" using ensure_other [OF 2, of cp] apart(1) by auto
  then show "\<exists>doc. yaml_write (init_for_dir d) = Inr doc \<and> files w' cp = Some doc"
    using save_Ok [OF 1] 3 apart(1) by (auto split: if_splits)
  show "\<exists>c k. gen = Inr (c, k) \<and> files w' (cert_path t) = Some c \<and> files w' (key_path t) = Some k"
    if "\<not> (fs_exists w (cert_path t) \<and> fs_exists w (key_path t))"
    using ensure_generates [OF 2] that same 3 apart(1) by (auto split: if_splits)
  have "fs_exists w2 ak = fs_exists w1 ak"
    using apart by (intro ensure_exists_other [OF 2]) auto
  then show "files w' ak = Some AUTHORIZED_KEYS_STUB" if "\<not> fs_exists w ak"
    using that same 3 by auto
qed

text \<open>
  If one of the two files is missing, the other one is overwritten: a certificate or a private key that
  was put there by hand is lost.
\<close>

lemma half_a_pair_is_lost:
  assumes "ensure_self_signed_pem L (Inr (c, k)) t w = (w', Ok u)" and "files w (key_path t) = Some mine"
    and "\<not> fs_exists w (cert_path t)" and "cert_path t \<noteq> key_path t"
  shows "files w' (key_path t) = Some k"
  using ensure_generates [OF assms(1) _ assms(4)] assms(3) by auto

text \<open>
  C40. What initialisation does to the files. Without \<open>--force\<close> an existing configuration is an error and
  nothing changes. In every case, also when it fails half-way, the command touches at most the
  configuration, the certificate, the key and \<open>authorized_keys\<close>; it leaves an \<open>authorized_keys\<close> that exists
  as it is, and it leaves certificate and key as they are when both exist. When it succeeds, the
  configuration is the written document, a pair of certificate and key of which one was missing has
  been replaced by the generated pair as a whole, and a missing \<open>authorized_keys\<close> is the stub.
\<close>

theorem cmd_init_careful:
  assumes "cmd_init L gen yaml_write cp force w = (w', r)" and "path_parent cp = Some d"
    and "authorized_keys_path (init_for_dir d) \<noteq> cp"
  shows "let cert = cert_path (tls (init_for_dir d)); key = key_path (tls (init_for_dir d));
      ak = authorized_keys_path (init_for_dir d) in
    (fs_exists w cp \<and> \<not> force \<longrightarrow> w' = w \<and> \<not> is_ok r) \<and>
    (\<forall>q. q \<notin> {cp, cert, key, ak} \<longrightarrow> files w' q = files w q) \<and>
    (files w ak \<noteq> None \<longrightarrow> files w' ak = files w ak) \<and>
    (fs_exists w cert \<and> fs_exists w key \<longrightarrow> files w' cert = files w cert \<and> files w' key = files w key) \<and>
    (is_ok r \<longrightarrow>
      (\<exists>doc. yaml_write (init_for_dir d) = Inr doc \<and> files w' cp = Some doc) \<and>
      (\<not> (fs_exists w cert \<and> fs_exists w key) \<longrightarrow>
         (\<exists>c k. gen = Inr (c, k) \<and> files w' cert = Some c \<and> files w' key = Some k)) \<and>
      (\<not> fs_exists w ak \<longrightarrow> files w' ak = Some AUTHORIZED_KEYS_STUB))"
  unfolding Let_def
proof (intro conjI impI allI)
  let ?t = "tls (init_for_dir d)" and ?ak = "authorized_keys_path (init_for_dir d)"
  note same = cmd_init_files [OF assms(1-3)] and apart = init_distinct(1) [OF assms(2,3)]
  show "w' = w" "\<not> is_ok r" if "fs_exists w cp \<and> \<not> force" using assms(1) that by (auto simp: cmd_init_def)
  show "files w' q = files w q" if "q \<notin> {cp, cert_path ?t, key_path ?t, ?ak}" for q
    using same [of q] that by simp
  show "files w' ?ak = files w ?ak" if "files w ?ak \<noteq> None" using same [of ?ak] that apart by auto
  show "files w' (cert_path ?t) = files w (cert_path ?t)" "files w' (key_path ?t) = files w (key_path ?t)"
    if "fs_exists w (cert_path ?t) \<and> fs_exists w (key_path ?t)"
    using same [of "cert_path ?t"] same [of "key_path ?t"] that apart by auto
  assume "is_ok r"
  then obtain u where "cmd_init L gen yaml_write cp force w = (w', Ok u)" using assms(1) by (cases r) auto
  note ok = cmd_init_Ok [OF this assms(2,3)]
  show "\<exists>doc. yaml_write (init_for_dir d) = Inr doc \<and> files w' cp = Some doc" by (rule ok(1))
  show "\<exists>c k. gen = Inr (c, k) \<and> files w' (cert_path ?t) = Some c \<and> files w' (key_path ?t) = Some k"
    if "\<not> (fs_exists w (cert_path ?t) \<and> fs_exists w (key_path ?t))" using that by (rule ok(2))
  show "files w' ?ak = Some AUTHORIZED_KEYS_STUB" if "\<not> fs_exists w ?ak" using that by (rule ok(3))
qed

theorem cmd_init_careful_witness:
  "files (fst (cmd_init (demo_lib []) (Inr (demo_pem, ''key'')) (\<lambda>c. Inr ''doc'')
       \<lparr>rooted = True, comps = [''d'', ''config.yaml'']\<rparr> False
       (demo_fs \<lparr>rooted = True, comps = [''d'', ''authorized_keys'']\<rparr> ''keep'')))
     \<lparr>rooted = True, comps = [''d'', ''authorized_keys'']\<rparr> = Some ''keep''"
proof -
  let ?cp = "\<lparr>rooted = True, comps = [''d'', ''config.yaml'']\<rparr>" and ?d = "\<lparr>rooted = True, comps = [''d'']\<rparr>"
  have p: "path_parent ?cp = Some ?d" by (simp add: path_parent_def)
  have ak: "authorized_keys_path (init_for_dir ?d) = \<lparr>rooted = True, comps = [''d'', ''authorized_keys'']\<rparr>"
    by (simp add: init_paths)
  show ?thesis
    using cmd_init_careful [OF prod.collapse [symmetric] p,
        where L = "demo_lib []" and gen = "Inr (demo_pem, ''key'')" and yaml_write = "\<lambda>c. Inr ''doc''"
          and force = False
          and w = "demo_fs \<lparr>rooted = True, comps = [''d'', ''authorized_keys'']\<rparr> ''keep''"]
    by (simp add: ak Let_def) (simp add: demo_fs_def)
qed

end
