(* ===== verification/Authorized_Keys.thy ===== *)
theory Authorized_Keys
  imports Library Paths
begin

text \<open>
  The signed message (\<open>sao-core/src/auth_message.rs\<close>) and the server's list of agent keys
  (\<open>authorized_keys.rs\<close>).
\<close>

section \<open>The signed message\<close>

definition PREFIX :: bytes where
  "PREFIX = as_bytes (''sao-auth-v1'' @ [CHR 0x00])"

definition signing_bytes :: "bytes \<Rightarrow> str \<Rightarrow> bytes" where
  "signing_bytes nonce session_id = PREFIX @ nonce @ as_bytes session_id"

section \<open>Keys\<close>

definition KEY_TYPE_ED25519 :: str where
  "KEY_TYPE_ED25519 = ''sao-ed25519''"

record 'vk authorized_key =
  key_type :: str
  vk_of :: 'vk
  fingerprint_hex :: str
  comment :: str

definition ed25519_fingerprint_hex :: "('vk, 'sk) lib \<Rightarrow> 'vk \<Rightarrow> str" where
  "ed25519_fingerprint_hex L pk = hex_encode L (sha256 L (vk_to_bytes L pk))"

definition line_error :: "nat \<Rightarrow> str \<Rightarrow> str" where
  "line_error lineno msg = ''line '' @ string_of_nat (lineno + 1) @ '': '' @ msg"

text \<open>
  The body of the loop over the lines, \<open>lineno\<close> counting from 0: \<open>Ok None\<close> is a \<open>continue\<close>, \<open>Ok (Some k)\<close>
  reaches the push at the end, and \<open>Panic\<close> is the \<open>unwrap\<close> of the first token.
\<close>

definition key_line ::
    "('vk, 'sk) lib \<Rightarrow> nat \<Rightarrow> str \<Rightarrow> (core_error, 'vk authorized_key option) res" where
  "key_line L lineno raw_line =
     (let line = trim raw_line in
      if line = [] \<or> starts_with line ''#'' then Ok None
      else case split_whitespace line of
        [] \<Rightarrow> Panic
      | kt # parts \<Rightarrow>
          (case parts of
             [] \<Rightarrow> Err (AuthorizedKeys (line_error lineno ''missing key blob''))
           | b64 # cs \<Rightarrow>
               if kt \<noteq> KEY_TYPE_ED25519 then Ok None
               else (case b64_decode L b64 of
                 Inl e \<Rightarrow> Err (AuthorizedKeys (line_error lineno e))
               | Inr raw \<Rightarrow>
                   if length raw \<noteq> 32
                   then Err (AuthorizedKeys (line_error lineno ''ed25519 key must decode to 32 bytes''))
                   else (case vk_from_bytes L raw of
                     Inl e \<Rightarrow> Err (AuthorizedKeys (line_error lineno e))
                   | Inr vk \<Rightarrow>
                       Ok (Some \<lparr>key_type = kt, vk_of = vk,
                                 fingerprint_hex = ed25519_fingerprint_hex L vk,
                                 comment = join '' '' cs\<rparr>)))))"

fun load_key_lines ::
    "('vk, 'sk) lib \<Rightarrow> nat \<Rightarrow> str list \<Rightarrow> 'vk authorized_key list \<Rightarrow>
     (core_error, 'vk authorized_key list) res" where
  "load_key_lines L lineno [] out = Ok out"
| "load_key_lines L lineno (line # rest) out =
     (case key_line L lineno line of
        Ok None \<Rightarrow> load_key_lines L (Suc lineno) rest out
      | Ok (Some k) \<Rightarrow> load_key_lines L (Suc lineno) rest (out @ [k])
      | Err e \<Rightarrow> Err e
      | Panic \<Rightarrow> Panic)"

definition load_authorized_keys ::
    "('vk, 'sk) lib \<Rightarrow> fs \<Rightarrow> path \<Rightarrow> (core_error, 'vk authorized_key list) res" where
  "load_authorized_keys L w p =
     bind_res (map_err CoreIo (read_to_string w p)) (\<lambda>s.
     bind_res (load_key_lines L 0 (lines s) []) (\<lambda>out.
       if out = [] then Err (AuthorizedKeys ''no sao-ed25519 keys in file'') else Ok out))"

definition find_key :: "('vk, 'sk) lib \<Rightarrow> 'vk authorized_key list \<Rightarrow> str \<Rightarrow> 'vk authorized_key option" where
  "find_key L keys fp =
     (let f = to_lowercase (uni_lower L) (trim fp) in find (\<lambda>k. fingerprint_hex k = f) keys)"

definition verify_ed25519_signature ::
    "('vk, 'sk) lib \<Rightarrow> 'vk \<Rightarrow> bytes \<Rightarrow> str \<Rightarrow> (core_error, unit) res" where
  "verify_ed25519_signature L vk message sig_b64 =
     (case b64_decode L sig_b64 of
        Inl e \<Rightarrow> Err (Ed25519 e)
      | Inr raw \<Rightarrow>
          if length raw \<noteq> 64 then Err (Ed25519 ''bad signature length'')
          else if verify_strict L vk message raw then Ok ()
          else Err (Ed25519 ''signature verify failed''))"

section \<open>Facts\<close>

lemma key_line_not_Panic: "key_line L n line \<noteq> Panic"
  using split_whitespace_trim_nonempty [of line]
  by (auto simp: key_line_def Let_def split: list.splits sum.splits)

lemma load_key_lines_not_Panic: "load_key_lines L n ls out \<noteq> Panic"
  by (induction ls arbitrary: n out)
     (auto simp: key_line_not_Panic split: res.splits option.splits)

text \<open>What the loader guarantees of each key it returns.\<close>

definition key_ok :: "('vk, 'sk) lib \<Rightarrow> 'vk authorized_key \<Rightarrow> bool" where
  "key_ok L k \<longleftrightarrow> key_type k = KEY_TYPE_ED25519 \<and>
     fingerprint_hex k = ed25519_fingerprint_hex L (vk_of k) \<and>
     (\<exists>raw. length raw = 32 \<and> vk_from_bytes L raw = Inr (vk_of k))"

lemma key_line_ok: "key_line L n line = Ok (Some k) \<Longrightarrow> key_ok L k"
  by (auto simp: key_line_def Let_def key_ok_def split: list.splits sum.splits if_splits)

text \<open>The keys are those of the lines, in the order of the lines.\<close>

lemma load_key_lines_ok:
  "load_key_lines L n ls out = Ok ks \<Longrightarrow> \<forall>k \<in> set out. key_ok L k \<Longrightarrow> \<forall>k \<in> set ks. key_ok L k"
proof (induction ls arbitrary: n out)
  case Nil
  then show ?case by simp
next
  case (Cons l ls)
  from Cons.prems(1) obtain x where x: "key_line L n l = Ok x"
    and r: "load_key_lines L (Suc n) ls (case x of None \<Rightarrow> out | Some k \<Rightarrow> out @ [k]) = Ok ks"
    by (auto split: res.splits option.splits)
  have "\<forall>k \<in> set (case x of None \<Rightarrow> out | Some k \<Rightarrow> out @ [k]). key_ok L k"
    using Cons.prems(2) key_line_ok x by (cases x) auto
  with r show ?case by (rule Cons.IH)
qed

lemma load_authorized_keys_Ok:
  assumes "load_authorized_keys L w p = Ok keys"
  shows "keys \<noteq> [] \<and> (\<forall>k \<in> set keys. key_ok L k)"
  using assms load_key_lines_ok [of L 0 _ "[]" keys]
  by (auto simp: load_authorized_keys_def res_iff split: if_splits)

lemma find_key_Some:
  "find_key L keys fp = Some k \<Longrightarrow> k \<in> set keys \<and> fingerprint_hex k = to_lowercase (uni_lower L) (trim fp)"
  by (auto simp: find_key_def Let_def find_Some_iff)

lemma verify_Ok_iff:
  "verify_ed25519_signature L vk m sig = Ok u \<longleftrightarrow>
   (\<exists>raw. b64_decode L sig = Inr raw \<and> length raw = 64 \<and> verify_strict L vk m raw)"
  by (auto simp: verify_ed25519_signature_def split: sum.splits if_splits)

lemma verify_not_Panic [simp]: "verify_ed25519_signature L vk m sig \<noteq> Panic"
  by (auto simp: verify_ed25519_signature_def split: sum.splits)

end
