(* ===== verification/Agent_Key.thy ===== *)
theory Agent_Key
  imports Authorized_Keys
begin

text \<open>
  The client's signing key on disk (\<open>sao-core/src/agent_key.rs\<close>): the private key file, the public
  line written next to it, and the signature of the authentication message. A freshly generated key is
  an argument, because it comes from the operating system's random source.
\<close>

definition FILE_HEADER :: str where
  "FILE_HEADER = ''sao-ed25519-private-v1''"

definition public_key_path :: "path \<Rightarrow> path" where
  "public_key_path p =
     (let name = (case file_name p of Some s \<Rightarrow> s | None \<Rightarrow> ''agent.ed25519'') in
      path_join (path_pop p) (name @ ''.pub''))"

definition public_line :: "('vk, 'sk) lib \<Rightarrow> 'sk \<Rightarrow> str" where
  "public_line L key =
     KEY_TYPE_ED25519 @ '' '' @ b64_encode L (vk_to_bytes L (verifying_key L key)) @ '' agent''"

definition public_body :: "('vk, 'sk) lib \<Rightarrow> 'sk \<Rightarrow> str" where
  "public_body L key =
     ''# Append this line to the server'' @ [CHR 0x27] @ ''s authorized_keys file.'' @ [nl] @
     public_line L key @ [nl]"

definition write_agent_public_key_file ::
    "('vk, 'sk) lib \<Rightarrow> path \<Rightarrow> 'sk \<Rightarrow> fs \<Rightarrow> fs \<times> (core_error, unit) res" where
  "write_agent_public_key_file L p key w =
     (let pub_path = public_key_path p;
          (w1, r1) = (case path_parent pub_path of
            None \<Rightarrow> (w, Ok ())
          | Some dir \<Rightarrow> create_dir_all dir w) in
      case r1 of
        Err e \<Rightarrow> (w1, Err (CoreIo e))
      | Panic \<Rightarrow> (w1, Panic)
      | Ok _ \<Rightarrow> (case fs_write pub_path (public_body L key) w1 of (w2, r2) \<Rightarrow> (w2, map_err CoreIo r2)))"

text \<open>The loop over the lines of the key file stops at the first line that is not skipped.\<close>

fun key_from_lines :: "('vk, 'sk) lib \<Rightarrow> str list \<Rightarrow> (core_error, 'sk option) res" where
  "key_from_lines L [] = Ok None"
| "key_from_lines L (raw_line # rest) =
     (let line = trim raw_line in
      if line = FILE_HEADER \<or> line = [] \<or> starts_with line ''#'' then key_from_lines L rest
      else (case b64_decode L line of
        Inl e \<Rightarrow> Err (Ed25519 e)
      | Inr raw \<Rightarrow>
          if length raw \<noteq> 32 then Err (Ed25519 ''private key must be 32 bytes'')
          else Ok (Some (sk_from_bytes L raw))))"

definition private_body :: "('vk, 'sk) lib \<Rightarrow> 'sk \<Rightarrow> str" where
  "private_body L key = FILE_HEADER @ [nl] @ b64_encode L (sk_to_bytes L key) @ [nl]"

definition load_or_create_signing_key ::
    "('vk, 'sk) lib \<Rightarrow> 'sk \<Rightarrow> path \<Rightarrow> fs \<Rightarrow> fs \<times> (core_error, 'sk) res" where
  "load_or_create_signing_key L generated p w =
     (let (w1, r1) =
        (if fs_exists w p
         then (w, bind_res (map_err CoreIo (read_to_string w p)) (\<lambda>s.
                  bind_res (key_from_lines L (lines s)) (ok_or (Ed25519 ''no key material in file''))))
         else
           (case (case path_parent p of None \<Rightarrow> (w, Ok ()) | Some dir \<Rightarrow> create_dir_all dir w) of
              (wa, Err e) \<Rightarrow> (wa, Err (CoreIo e))
            | (wa, Panic) \<Rightarrow> (wa, Panic)
            | (wa, Ok _) \<Rightarrow>
                (case fs_write p (private_body L generated) wa of
                   (wb, r) \<Rightarrow> (wb, map_ok (\<lambda>_. generated) (map_err CoreIo r))))) in
      case r1 of
        Err e \<Rightarrow> (w1, Err e)
      | Panic \<Rightarrow> (w1, Panic)
      | Ok key \<Rightarrow>
          (case write_agent_public_key_file L p key w1 of (w2, r2) \<Rightarrow> (w2, map_ok (\<lambda>_. key) r2)))"

definition sign_auth_message :: "('vk, 'sk) lib \<Rightarrow> 'sk \<Rightarrow> bytes \<Rightarrow> str" where
  "sign_auth_message L key message = b64_encode L (sk_sign L key message)"

section \<open>Facts\<close>

lemma write_public_Ok:
  assumes "write_agent_public_key_file L p key w = (w', Ok u)"
  shows "files w' = (files w)(public_key_path p \<mapsto> public_body L key) \<and> fault w' = fault w"
  using assms
  by (auto simp: write_agent_public_key_file_def Let_def res_iff
      split: prod.splits option.splits res.splits
      dest!: create_dir_all_files fs_write_Ok)

lemma graphic_literals [text_simps]:
  "list_all graphic FILE_HEADER" "list_all graphic KEY_TYPE_ED25519" "list_all graphic ''agent''"
  by (simp_all add: FILE_HEADER_def KEY_TYPE_ED25519_def graphic_def code_def)

lemma private_body_lines:
  assumes "b64_spec L"
  shows "lines (private_body L key) = [FILE_HEADER, b64_encode L (sk_to_bytes L key)]"
proof -
  have g: "list_all graphic (b64_encode L (sk_to_bytes L key))"
    using assms by (rule b64_text)
  have "private_body L key =
    concat (map (\<lambda>l. l @ [nl]) [FILE_HEADER, b64_encode L (sk_to_bytes L key)])"
    by (simp add: private_body_def)
  then show ?thesis
    using g by (simp only: lines_concat) (simp add: lines_concat graphic_not_nl strip_cr_graphic_all text_simps)
qed

lemma key_from_private_body:
  assumes "b64_spec L" and "sk_spec L"
  shows "key_from_lines L (lines (private_body L key)) = Ok (Some key)"
proof -
  let ?b = "b64_encode L (sk_to_bytes L key)"
  from assms(2) have sk: "length (sk_to_bytes L key) = 32" "sk_from_bytes L (sk_to_bytes L key) = key"
    by (auto simp: sk_spec_def)
  then have ne: "sk_to_bytes L key \<noteq> []" by auto
  have "?b \<noteq> FILE_HEADER"
  proof
    assume "?b = FILE_HEADER"
    then have "length ?b = 22" by (simp add: FILE_HEADER_def)
    with b64_text(4) [OF assms(1), of "sk_to_bytes L key"] sk(1) show False by simp
  qed
  moreover have "\<not> starts_with ?b ''#''"
    using b64_head [OF assms(1), of "sk_to_bytes L key"]
    by (cases ?b) (auto simp: starts_with_def)
  ultimately show ?thesis
    using b64_text [OF assms(1), of "sk_to_bytes L key"] ne sk
    by (simp add: private_body_lines assms(1) Let_def trim_graphic text_simps)
qed

lemma private_body_utf8: "b64_spec L \<Longrightarrow> utf8_valid (private_body L key)"
  using b64_text(2) [of L "sk_to_bytes L key"] graphic_literals(1)
  by (intro ascii_utf8_valid) (simp add: private_body_def is_ascii_def code_def graphic_utf8)

text \<open>The public file is a different file: its name is longer than the private one.\<close>

lemma public_key_path_name:
  assumes "file_name p = Some n" and "CHR ''/'' \<notin> set n"
  shows "public_key_path p = p\<lparr>comps := butlast (comps p) @ [n @ ''.pub'']\<rparr>"
proof -
  from assms(1) have ne: "comps p \<noteq> []" by (auto simp: file_name_def split: if_splits)
  have "n @ ''.pub'' \<noteq> ''.''" by (cases n) auto
  moreover have "path_from (n @ ''.pub'') = \<lparr>rooted = False, comps = [n @ ''.pub'']\<rparr>"
    using assms(2) by (intro path_from_name) auto
  ultimately show ?thesis
    using ne assms(1) by (simp add: public_key_path_def path_join_def path_pop_def path_parent_def Let_def)
qed

lemma public_key_path_differs:
  assumes "file_name p = Some n" and "CHR ''/'' \<notin> set n"
  shows "public_key_path p \<noteq> p"
proof
  assume "public_key_path p = p"
  then have "last (comps (public_key_path p)) = last (comps p)" by simp
  moreover have "last (comps (public_key_path p)) = n @ ''.pub''"
    by (simp add: public_key_path_name [OF assms])
  moreover have "last (comps p) = n"
    using assms(1) by (auto simp: file_name_def split: if_splits)
  ultimately show False by simp
qed

lemma load_or_create_Ok:
  assumes "load_or_create_signing_key L g p w = (w', Ok key)"
  shows "(if fs_exists w p
      then \<exists>s. read_to_string w p = Ok s \<and> key_from_lines L (lines s) = Ok (Some key) \<and>
        files w' = (files w)(public_key_path p \<mapsto> public_body L key)
      else key = g \<and> files w' = (files w)(p \<mapsto> private_body L g, public_key_path p \<mapsto> public_body L key))
    \<and> fault w' = fault w"
proof (cases "fs_exists w p")
  case True
  with assms show ?thesis
    by (auto simp: load_or_create_signing_key_def Let_def res_iff split: prod.splits res.splits
        dest!: write_public_Ok)
next
  case False
  with assms obtain wa wb u v where
    a: "(case path_parent p of None \<Rightarrow> (w, Ok ()) | Some dir \<Rightarrow> create_dir_all dir w) = (wa, Ok u)"
    and b: "fs_write p (private_body L g) wa = (wb, Ok v)" and k: "key = g"
    and c: "write_agent_public_key_file L p key wb = (w', Ok ())"
    by (auto simp: load_or_create_signing_key_def Let_def res_iff split: prod.splits res.splits)
  from a have "files wa = files w \<and> fault wa = fault w"
    by (auto dest: create_dir_all_files split: option.splits)
  with fs_write_Ok [OF b] write_public_Ok [OF c] k False show ?thesis by simp
qed

end
