(* ===== verification/Frame.thy ===== *)
theory Frame
  imports Errors
begin

text \<open>
  The wire format of \<open>sao-protocol\<close>: the message types (\<open>msg_type.rs\<close>), the magic and version
  (\<open>lib.rs\<close>) and the 9-byte header (\<open>frame.rs\<close>): three magic bytes, version, message type and the
  payload length as a big-endian 32-bit integer.
\<close>

section \<open>Constants\<close>

definition AUTH_CHALLENGE :: u8 where "AUTH_CHALLENGE = 0x01"
definition AUTH_RESPONSE :: u8 where "AUTH_RESPONSE = 0x02"
definition AUTH_RESULT :: u8 where "AUTH_RESULT = 0x03"
definition EXEC_SHELL :: u8 where "EXEC_SHELL = 0x10"
definition STREAM_STDOUT :: u8 where "STREAM_STDOUT = 0x11"
definition STREAM_STDERR :: u8 where "STREAM_STDERR = 0x12"
definition EXEC_EXIT :: u8 where "EXEC_EXIT = 0x13"
definition POLICY_DENIED :: u8 where "POLICY_DENIED = 0x20"
definition ERROR :: u8 where "ERROR = 0xFF"

lemmas msg_type_defs = AUTH_CHALLENGE_def AUTH_RESPONSE_def AUTH_RESULT_def EXEC_SHELL_def
  STREAM_STDOUT_def STREAM_STDERR_def EXEC_EXIT_def POLICY_DENIED_def ERROR_def

definition MAGIC :: bytes where
  "MAGIC = as_bytes ''SAO''"

definition VERSION :: u8 where
  "VERSION = 0x01"

definition HEADER_LEN :: nat where
  "HEADER_LEN = 9"

definition DEFAULT_MAX_PAYLOAD_LEN :: u32 where
  "DEFAULT_MAX_PAYLOAD_LEN = 1024 * 1024"

record frame =
  msg_type :: u8
  payload :: bytes

section \<open>Header\<close>

definition to_be_bytes :: "u32 \<Rightarrow> bytes" where
  "to_be_bytes w = [ucast (drop_bit 24 w), ucast (drop_bit 16 w), ucast (drop_bit 8 w), ucast w]"

definition from_be_bytes :: "u8 \<Rightarrow> u8 \<Rightarrow> u8 \<Rightarrow> u8 \<Rightarrow> u32" where
  "from_be_bytes b0 b1 b2 b3 =
     or (push_bit 24 (ucast b0)) (or (push_bit 16 (ucast b1)) (or (push_bit 8 (ucast b2)) (ucast b3)))"

text \<open>
  \<open>write_header\<close> fills the first nine bytes of \<open>out\<close>; a shorter buffer makes one of the slices panic,
  the rest of a longer one stays (the \<open>debug_assert_eq\<close> is compiled out of a release build).
\<close>

definition write_header :: "bytes \<Rightarrow> u8 \<Rightarrow> u8 \<Rightarrow> u32 \<Rightarrow> ('e, bytes) res" where
  "write_header out version mtype payload_len =
     (if length out < HEADER_LEN then Panic
      else Ok (MAGIC @ [version, mtype] @ to_be_bytes payload_len @ drop HEADER_LEN out))"

text \<open>\<open>parse_header\<close> on an array of \<open>HEADER_LEN\<close> bytes.\<close>

definition parse_header :: "bytes \<Rightarrow> (protocol_error, u8 \<times> u8 \<times> u32) res" where
  "parse_header hdr =
     (if take 3 hdr \<noteq> MAGIC then Err InvalidMagic
      else let version = hdr ! 3 in
        if version \<noteq> VERSION then Err (UnsupportedVersion version)
        else Ok (version, hdr ! 4, from_be_bytes (hdr ! 5) (hdr ! 6) (hdr ! 7) (hdr ! 8)))"

section \<open>Facts\<close>

lemma length_MAGIC [simp]: "length MAGIC = 3"
  by (simp add: MAGIC_def)

lemma MAGIC_bytes: "MAGIC = [0x53, 0x41, 0x4F]"
  by (simp add: MAGIC_def as_bytes_def byte_of_char_def)

lemma length_to_be_bytes [simp]: "length (to_be_bytes w) = 4"
  by (simp add: to_be_bytes_def)

lemma from_to_be_bytes:
  "from_be_bytes (ucast (drop_bit 24 w)) (ucast (drop_bit 16 w)) (ucast (drop_bit 8 w)) (ucast w) = w"
proof (rule bit_word_eqI)
  fix n
  assume "n < LENGTH(32)"
  then have "n < 32" by simp
  then consider "n < 8" | "8 \<le> n" "n < 16" | "16 \<le> n" "n < 24" | "24 \<le> n" "n < 32"
    by linarith
  then have n: "n < 8 \<or> (\<exists>k < 8. n = 8 + k) \<or> (\<exists>k < 8. n = 16 + k) \<or> (\<exists>k < 8. n = 24 + k)"
    by cases (auto simp: le_iff_add)
  show "bit (from_be_bytes (ucast (drop_bit 24 w)) (ucast (drop_bit 16 w)) (ucast (drop_bit 8 w)) (ucast w)) n
        = bit w n"
    using n by (elim disjE exE conjE) (simp_all add: from_be_bytes_def bit_simps)
qed

lemma bit_u8_high: "8 \<le> n \<Longrightarrow> \<not> bit (b :: u8) n"
  by (auto dest: bit_imp_le_length)

lemma to_from_be_bytes: "to_be_bytes (from_be_bytes b0 b1 b2 b3) = [b0, b1, b2, b3]"
  by (auto simp: to_be_bytes_def from_be_bytes_def bit_simps bit_u8_high intro!: bit_word_eqI)

text \<open>The nine bytes the codec writes before a payload of \<open>len\<close> bytes.\<close>

definition header_bytes :: "u8 \<Rightarrow> u32 \<Rightarrow> bytes" where
  "header_bytes mtype len = MAGIC @ [VERSION, mtype] @ to_be_bytes len"

lemma length_header_bytes [simp]: "length (header_bytes mtype len) = 9"
  by (simp add: header_bytes_def)

lemma write_header_fresh [wire_simps]:
  "write_header (replicate HEADER_LEN 0) VERSION mtype len = Ok (header_bytes mtype len)"
  by (simp add: write_header_def header_bytes_def HEADER_LEN_def)

lemma parse_header_bytes [wire_simps]:
  "parse_header (header_bytes mtype len) = Ok (VERSION, mtype, len)"
  by (simp add: parse_header_def header_bytes_def MAGIC_bytes to_be_bytes_def from_to_be_bytes)

lemma parse_header_not_Panic [simp]: "parse_header hdr \<noteq> Panic"
  by (simp add: parse_header_def Let_def)

text \<open>A header that parses is the header of its fields: nothing else on the wire is accepted.\<close>

lemma parse_header_Ok_iff:
  assumes "length hdr = HEADER_LEN"
  shows "parse_header hdr = Ok (v, mtype, len) \<longleftrightarrow> v = VERSION \<and> hdr = header_bytes mtype len"
proof
  assume ok: "parse_header hdr = Ok (v, mtype, len)"
  from assms obtain b0 b1 b2 b3 b4 b5 b6 b7 b8 where h: "hdr = [b0, b1, b2, b3, b4, b5, b6, b7, b8]"
    by (auto simp: HEADER_LEN_def length_Suc_conv numeral_eq_Suc)
  from ok h show "v = VERSION \<and> hdr = header_bytes mtype len"
    by (auto simp: parse_header_def Let_def header_bytes_def to_from_be_bytes
        split: if_splits)
next
  assume "v = VERSION \<and> hdr = header_bytes mtype len"
  then show "parse_header hdr = Ok (v, mtype, len)" by (simp add: parse_header_bytes)
qed

end
