(* ===== verification/Codec.thy ===== *)
theory Codec
  imports Frame
begin

text \<open>
  \<open>sao-protocol/src/codec.rs\<close>: the frame reader and writer over a byte stream.

  A byte stream is the connection as one end sees it. \<open>inp\<close> is everything the peer still delivers and
  \<open>inp_end\<close> is what a read finds after it: the orderly end of the stream (\<open>None\<close>) or a transport error.
  How the bytes are cut into packets is not visible through \<open>read_exact\<close>, which waits until its buffer
  is full. \<open>sent\<close> is everything written so far; when \<open>room\<close> is \<open>Some n\<close> the transport takes \<open>n\<close> more
  bytes and then fails with \<open>write_err\<close>; \<open>flush_err\<close> is the outcome of flushing.
\<close>

section \<open>Byte streams\<close>

record stream =
  inp :: bytes
  inp_end :: "io_error option"
  sent :: bytes
  room :: "nat option"
  write_err :: io_error
  flush_err :: "io_error option"

definition read_exact :: "nat \<Rightarrow> stream \<Rightarrow> stream \<times> (io_error + bytes)" where
  "read_exact n s =
     (if n \<le> length (inp s) then (s\<lparr>inp := drop n (inp s)\<rparr>, Inr (take n (inp s)))
      else (s\<lparr>inp := []\<rparr>,
            Inl (case inp_end s of None \<Rightarrow> IoError UnexpectedEof_kind ''early eof'' | Some e \<Rightarrow> e)))"

definition write_all :: "bytes \<Rightarrow> stream \<Rightarrow> stream \<times> (io_error + unit)" where
  "write_all bs s =
     (case room s of
        None \<Rightarrow> (s\<lparr>sent := sent s @ bs\<rparr>, Inr ())
      | Some n \<Rightarrow>
          (if length bs \<le> n then (s\<lparr>sent := sent s @ bs, room := Some (n - length bs)\<rparr>, Inr ())
           else (s\<lparr>sent := sent s @ take n bs, room := Some 0\<rparr>, Inl (write_err s))))"

definition flush :: "stream \<Rightarrow> io_error + unit" where
  "flush s = (case flush_err s of None \<Rightarrow> Inr () | Some e \<Rightarrow> Inl e)"

text \<open>A stream whose writes succeed.\<close>

definition writable :: "stream \<Rightarrow> bool" where
  "writable s \<longleftrightarrow> room s = None \<and> flush_err s = None"

section \<open>The codec\<close>

record codec =
  inner :: stream
  max_payload_len :: u32

definition codec_new :: "stream \<Rightarrow> codec" where
  "codec_new s = \<lparr>inner = s, max_payload_len = DEFAULT_MAX_PAYLOAD_LEN\<rparr>"

definition with_max_payload_len :: "stream \<Rightarrow> u32 \<Rightarrow> codec" where
  "with_max_payload_len s n = \<lparr>inner = s, max_payload_len = n\<rparr>"

definition get_max_payload_len :: "codec \<Rightarrow> u32" where
  "get_max_payload_len c = max_payload_len c"

definition get_ref :: "codec \<Rightarrow> stream" where
  "get_ref c = inner c"

text \<open>\<open>get_mut\<close> lends the stream to the caller, here a function that uses it and gives it back.\<close>

definition get_mut :: "(stream \<Rightarrow> stream \<times> 'a) \<Rightarrow> codec \<Rightarrow> codec \<times> 'a" where
  "get_mut f c = (case f (inner c) of (s, a) \<Rightarrow> (c\<lparr>inner := s\<rparr>, a))"

definition into_inner :: "codec \<Rightarrow> stream" where
  "into_inner c = inner c"

text \<open>\<open>usize::MAX\<close> on the 64-bit targets the program is built for.\<close>

definition usize_max :: nat where
  "usize_max = 2 ^ 64 - 1"

definition read_frame :: "codec \<Rightarrow> codec \<times> (protocol_error, frame) res" where
  "read_frame c =
     (case read_exact HEADER_LEN (inner c) of
        (s1, Inl e) \<Rightarrow> (c\<lparr>inner := s1\<rparr>, Err (read_error e))
      | (s1, Inr hdr) \<Rightarrow>
          (case parse_header hdr of
             Err e \<Rightarrow> (c\<lparr>inner := s1\<rparr>, Err e)
           | Panic \<Rightarrow> (c\<lparr>inner := s1\<rparr>, Panic)
           | Ok (version, mtype, payload_len) \<Rightarrow>
               if payload_len > max_payload_len c
               then (c\<lparr>inner := s1\<rparr>, Err (PayloadTooLarge payload_len (max_payload_len c)))
               else if unat payload_len > usize_max
               then (c\<lparr>inner := s1\<rparr>, Err (PayloadLengthOverflow payload_len))
               else if unat payload_len > 0
               then (case read_exact (unat payload_len) s1 of
                       (s2, Inl e) \<Rightarrow> (c\<lparr>inner := s2\<rparr>, Err (read_error e))
                     | (s2, Inr p) \<Rightarrow> (c\<lparr>inner := s2\<rparr>, Ok \<lparr>msg_type = mtype, payload = p\<rparr>))
               else (c\<lparr>inner := s1\<rparr>, Ok \<lparr>msg_type = mtype, payload = []\<rparr>)))"

definition write_frame :: "u8 \<Rightarrow> bytes \<Rightarrow> codec \<Rightarrow> codec \<times> (protocol_error, unit) res" where
  "write_frame mtype p c =
     (if length p \<ge> 2 ^ 32 then (c, Err (PayloadTooLarge 0xFFFFFFFF (max_payload_len c)))
      else let len = (of_nat (length p) :: u32) in
        if len > max_payload_len c then (c, Err (PayloadTooLarge len (max_payload_len c)))
        else case write_header (replicate HEADER_LEN 0) VERSION mtype len of
            Err e \<Rightarrow> (c, Err e)
          | Panic \<Rightarrow> (c, Panic)
          | Ok hdr \<Rightarrow>
              (case write_all hdr (inner c) of
                 (s1, Inl e) \<Rightarrow> (c\<lparr>inner := s1\<rparr>, Err (protocol_error_from_io e))
               | (s1, Inr _) \<Rightarrow>
                   (case write_all p s1 of
                      (s2, Inl e) \<Rightarrow> (c\<lparr>inner := s2\<rparr>, Err (protocol_error_from_io e))
                    | (s2, Inr _) \<Rightarrow>
                        (case flush s2 of
                           Inl e \<Rightarrow> (c\<lparr>inner := s2\<rparr>, Err (protocol_error_from_io e))
                         | Inr _ \<Rightarrow> (c\<lparr>inner := s2\<rparr>, Ok ())))))"

definition write_frame_read_frame ::
    "u8 \<Rightarrow> bytes \<Rightarrow> codec \<Rightarrow> codec \<times> (protocol_error, frame) res" where
  "write_frame_read_frame mtype p c =
     (case write_frame mtype p c of
        (c1, Ok _) \<Rightarrow> read_frame c1
      | (c1, Err e) \<Rightarrow> (c1, Err e)
      | (c1, Panic) \<Rightarrow> (c1, Panic))"

end
