(* ===== verification/Transport.thy ===== *)
theory Transport
  imports Frame
begin

text \<open>
  The interface between the frame codec and the two session protocols: what a session may rely on when
  it exchanges frames. The laws say that a frame written by one end is read back by the other end, that
  nothing but the encoding of a frame is ever accepted, and what each operation leaves alone. The client
  lemmas lift this to sequences of frames.
\<close>

fun send_frames ::
    "(u8 \<Rightarrow> bytes \<Rightarrow> 'c \<Rightarrow> 'c \<times> ('e, unit) res) \<Rightarrow> frame list \<Rightarrow> 'c \<Rightarrow> 'c \<times> ('e, unit) res" where
  "send_frames send [] c = (c, Ok ())"
| "send_frames send (f # fs) c =
     (case send (msg_type f) (payload f) c of
        (c', Ok _) \<Rightarrow> send_frames send fs c'
      | (c', Err e) \<Rightarrow> (c', Err e)
      | (c', Panic) \<Rightarrow> (c', Panic))"

fun recv_frames ::
    "('c \<Rightarrow> 'c \<times> ('e, frame) res) \<Rightarrow> nat \<Rightarrow> 'c \<Rightarrow> 'c \<times> ('e, frame list) res" where
  "recv_frames recv 0 c = (c, Ok [])"
| "recv_frames recv (Suc n) c =
     (case recv c of
        (c', Ok f) \<Rightarrow> (case recv_frames recv n c' of (c'', r) \<Rightarrow> (c'', map_ok ((#) f) r))
      | (c', Err e) \<Rightarrow> (c', Err e)
      | (c', Panic) \<Rightarrow> (c', Panic))"

locale frame_transport =
  fixes recv :: "'c \<Rightarrow> 'c \<times> ('e, frame) res"
    and send :: "u8 \<Rightarrow> bytes \<Rightarrow> 'c \<Rightarrow> 'c \<times> ('e, unit) res"
    and pending :: "'c \<Rightarrow> bytes"
    and written :: "'c \<Rightarrow> bytes"
    and limit :: "'c \<Rightarrow> nat"
    and enc :: "frame \<Rightarrow> bytes"
  assumes recv_enc:
      "pending c = enc f @ r \<Longrightarrow> length (payload f) \<le> limit c \<Longrightarrow>
       \<exists>c'. recv c = (c', Ok f) \<and> pending c' = r"
    and recv_sound:
      "recv c = (c', Ok f) \<Longrightarrow> pending c = enc f @ pending c' \<and> length (payload f) \<le> limit c"
    and recv_frame_rest: "recv c = (c', x) \<Longrightarrow> written c' = written c \<and> limit c' = limit c"
    and send_ok:
      "send t p c = (c', Ok u) \<Longrightarrow>
       written c' = written c @ enc \<lparr>msg_type = t, payload = p\<rparr> \<and> length p \<le> limit c"
    and send_rest: "send t p c = (c', y) \<Longrightarrow> pending c' = pending c \<and> limit c' = limit c"
    and enc_nonempty: "enc f \<noteq> []"
begin

lemma recv_shorter: "recv c = (c', Ok f) \<Longrightarrow> length (pending c') < length (pending c)"
  using recv_sound [of c c' f] enc_nonempty [of f] by simp

lemma recv_unique:
  assumes "recv c = (c', Ok f)" and "pending c = enc g @ r" and "length (payload g) \<le> limit c"
  shows "g = f \<and> r = pending c'"
  using recv_enc [OF assms(2,3)] assms(1) by auto

lemma recv_frames_enc:
  "pending c = concat (map enc fs) @ r \<Longrightarrow> \<forall>f \<in> set fs. length (payload f) \<le> limit c \<Longrightarrow>
   \<exists>c'. recv_frames recv (length fs) c = (c', Ok fs) \<and> pending c' = r"
proof (induction fs arbitrary: c)
  case Nil
  then show ?case by simp
next
  case (Cons f fs)
  then obtain c1 where c1: "recv c = (c1, Ok f)" "pending c1 = concat (map enc fs) @ r"
    using recv_enc [of c f "concat (map enc fs) @ r"] by auto
  have "limit c1 = limit c"
    using recv_frame_rest [OF c1(1)] by simp
  with Cons.prems(2) c1(2) obtain c2
    where "recv_frames recv (length fs) c1 = (c2, Ok fs)" "pending c2 = r"
    using Cons.IH [of c1] by auto
  with c1(1) show ?case by simp
qed

lemma send_frames_written:
  "send_frames send fs c = (c', Ok u) \<Longrightarrow>
   written c' = written c @ concat (map enc fs) \<and> (\<forall>f \<in> set fs. length (payload f) \<le> limit c) \<and>
   limit c' = limit c"
proof (induction fs arbitrary: c)
  case Nil
  then show ?case by simp
next
  case (Cons f fs)
  then obtain c1 v where c1: "send (msg_type f) (payload f) c = (c1, Ok v)"
    and r: "send_frames send fs c1 = (c', Ok u)"
    by (auto split: prod.splits res.splits)
  show ?case
    using Cons.IH [OF r] send_ok [OF c1] send_rest [OF c1] by (cases f) auto
qed

lemma frames_arrive:
  assumes "send_frames send fs a = (a', Ok u)"
    and "written a = []" and "pending b = written a' @ r" and "limit a \<le> limit b"
  shows "\<exists>b'. recv_frames recv (length fs) b = (b', Ok fs) \<and> pending b' = r"
proof (rule recv_frames_enc)
  show "pending b = concat (map enc fs) @ r"
    using send_frames_written [OF assms(1)] assms(2,3) by simp
  show "\<forall>f \<in> set fs. length (payload f) \<le> limit b"
    using send_frames_written [OF assms(1)] assms(4) by auto
qed

end

end
