(* ===== verification/Codec_Facts.thy ===== *)
theory Codec_Facts
  imports Codec Transport
begin

text \<open>
  The codec implements the frame transport. Besides the interpretation of the interface: what
  \<open>read_frame\<close> does on every input, including truncated and oversized ones, and what a failing
  \<open>write_frame\<close> may have written.
\<close>

section \<open>Streams\<close>

lemma read_exact_ok [io_simps]:
  "length p = n \<Longrightarrow> inp s = p @ r \<Longrightarrow> read_exact n s = (s\<lparr>inp := r\<rparr>, Inr p)"
  by (simp add: read_exact_def)

lemma read_exact_Inr:
  "read_exact n s = (s', Inr p) \<longleftrightarrow> n \<le> length (inp s) \<and> p = take n (inp s) \<and> s' = s\<lparr>inp := drop n (inp s)\<rparr>"
  by (auto simp: read_exact_def)

lemma write_all_writable [io_simps]:
  "room s = None \<Longrightarrow> write_all bs s = (s\<lparr>sent := sent s @ bs\<rparr>, Inr ())"
  by (simp add: write_all_def)

lemma write_all_frame: "write_all bs s = (s', x) \<Longrightarrow> inp s' = inp s \<and> inp_end s' = inp_end s \<and> flush_err s' = flush_err s"
  by (auto simp: write_all_def split: option.splits if_splits)

lemma write_all_sent: "write_all bs s = (s', Inr u) \<Longrightarrow> sent s' = sent s @ bs"
  by (auto simp: write_all_def split: option.splits if_splits)

lemma write_all_prefix: "write_all bs s = (s', x) \<Longrightarrow> \<exists>p. prefix p bs \<and> sent s' = sent s @ p"
  by (auto simp: write_all_def take_is_prefix split: option.splits if_splits)

section \<open>Frames\<close>

definition frame_enc :: "frame \<Rightarrow> bytes" where
  "frame_enc f = header_bytes (msg_type f) (of_nat (length (payload f))) @ payload f"

definition codec_limit :: "codec \<Rightarrow> nat" where
  "codec_limit c = unat (max_payload_len c)"

lemma frame_enc_nonempty [simp]: "frame_enc f \<noteq> []"
  by (simp add: frame_enc_def header_bytes_def)

lemma unat_u32_less: "unat (n :: u32) < 2 ^ 32"
  using unsigned_less [of n] by simp

lemma unat_u32_small: "unat (n :: u32) \<le> usize_max"
  using unat_u32_less [of n] by (simp add: usize_max_def)

lemma unat_u32_not_above [simp]: "\<not> usize_max < unat (n :: u32)"
  using unat_u32_small [of n] by simp

lemma unat_u32_len: "n \<le> unat (m :: u32) \<Longrightarrow> unat (of_nat n :: u32) = n"
  using unat_u32_less [of m] by (simp add: unat_of_nat)

text \<open>\<open>read_frame\<close> in terms of the bytes that are still to come.\<close>

lemma read_frame_enc [io_simps]:
  assumes "inp (inner c) = frame_enc f @ r" and "length (payload f) \<le> codec_limit c"
  shows "read_frame c = (c\<lparr>inner := (inner c)\<lparr>inp := r\<rparr>\<rparr>, Ok f)"
proof -
  let ?n = "of_nat (length (payload f)) :: u32"
  have len: "unat ?n = length (payload f)"
    using assms(2) by (auto simp: codec_limit_def intro: unat_u32_len)
  have "\<not> ?n > max_payload_len c"
    using assms(2) len by (simp add: word_less_nat_alt codec_limit_def)
  moreover have "read_exact HEADER_LEN (inner c)
      = ((inner c)\<lparr>inp := payload f @ r\<rparr>, Inr (header_bytes (msg_type f) ?n))"
    using assms(1) by (intro read_exact_ok) (simp_all add: frame_enc_def HEADER_LEN_def)
  moreover have "read_exact (length (payload f)) ((inner c)\<lparr>inp := payload f @ r\<rparr>)
      = ((inner c)\<lparr>inp := r\<rparr>, Inr (payload f))"
    by (simp add: io_simps)
  ultimately show ?thesis
    using len unat_u32_small [of ?n] by (simp add: read_frame_def wire_simps)
qed

lemma read_frame_Ok:
  assumes "read_frame c = (c', Ok f)"
  shows "inp (inner c) = frame_enc f @ inp (inner c') \<and> length (payload f) \<le> codec_limit c \<and>
    c' = c\<lparr>inner := (inner c)\<lparr>inp := inp (inner c')\<rparr>\<rparr>"
proof -
  from assms obtain s1 hdr v n where
    h: "read_exact HEADER_LEN (inner c) = (s1, Inr hdr)"
    and p: "parse_header hdr = Ok (v, msg_type f, n)" and n: "\<not> n > max_payload_len c"
    and b: "if unat n > 0
      then \<exists>s2. read_exact (unat n) s1 = (s2, Inr (payload f)) \<and> c' = c\<lparr>inner := s2\<rparr>
      else payload f = [] \<and> c' = c\<lparr>inner := s1\<rparr>"
    by (cases f) (auto simp: read_frame_def split: prod.splits sum.splits res.splits if_splits)
  from h have hdr: "hdr = take HEADER_LEN (inp (inner c))" "HEADER_LEN \<le> length (inp (inner c))"
    "s1 = (inner c)\<lparr>inp := drop HEADER_LEN (inp (inner c))\<rparr>"
    by (auto simp: read_exact_Inr)
  with p have enc: "hdr = header_bytes (msg_type f) n"
    by (simp add: parse_header_Ok_iff)
  have len: "length (payload f) = unat n \<and> drop HEADER_LEN (inp (inner c)) = payload f @ inp (inner c') \<and>
    c' = c\<lparr>inner := (inner c)\<lparr>inp := inp (inner c')\<rparr>\<rparr>"
    using b hdr(3)
    by (auto simp: read_exact_Inr drop_drop [symmetric] simp del: drop_drop split: if_splits)
  then have "n = of_nat (length (payload f))" by simp
  with enc hdr(1) len have "inp (inner c) = frame_enc f @ inp (inner c')"
    by (metis append.assoc append_take_drop_id frame_enc_def)
  with len n show ?thesis
    by (simp add: word_less_nat_alt codec_limit_def)
qed

lemma read_frame_rest:
  "read_frame c = (c', x) \<Longrightarrow>
   sent (inner c') = sent (inner c) \<and> room (inner c') = room (inner c) \<and>
   flush_err (inner c') = flush_err (inner c) \<and> max_payload_len c' = max_payload_len c"
  by (auto simp: read_frame_def read_exact_def Let_def
      split: prod.splits sum.splits res.splits if_splits option.splits)

lemma write_frame_Ok:
  assumes "write_frame t p c = (c', Ok u)"
  shows "sent (inner c') = sent (inner c) @ frame_enc \<lparr>msg_type = t, payload = p\<rparr> \<and>
    length p \<le> codec_limit c"
proof -
  let ?n = "of_nat (length p) :: u32"
  from assms have n: "length p < 2 ^ 32" "\<not> ?n > max_payload_len c"
    by (auto simp: write_frame_def Let_def split: if_splits)
  then have "length p \<le> codec_limit c"
    by (simp add: word_less_nat_alt codec_limit_def unat_of_nat)
  moreover from assms n obtain s1 s2 where
    "write_all (header_bytes t ?n) (inner c) = (s1, Inr ())" "write_all p s1 = (s2, Inr ())"
    "c' = c\<lparr>inner := s2\<rparr>"
    by (auto simp: write_frame_def Let_def wire_simps split: prod.splits sum.splits)
  ultimately show ?thesis
    by (auto simp: frame_enc_def dest!: write_all_sent)
qed

lemma write_frame_rest:
  "write_frame t p c = (c', x) \<Longrightarrow>
   inp (inner c') = inp (inner c) \<and> inp_end (inner c') = inp_end (inner c) \<and>
   max_payload_len c' = max_payload_len c"
  by (auto simp: write_frame_def Let_def wire_simps dest!: write_all_frame
      split: prod.splits sum.splits res.splits if_splits)

lemma write_frame_too_large: "codec_limit c < length p \<Longrightarrow> \<exists>e. write_frame t p c = (c, Err e)"
  using word_less_nat_alt [of "max_payload_len c" "of_nat (length p)"]
  by (auto simp: write_frame_def Let_def codec_limit_def unat_of_nat)

lemma write_frame_ok [io_simps]:
  assumes "writable (inner c)" and "length p \<le> codec_limit c"
  shows "write_frame t p c =
    (c\<lparr>inner := (inner c)\<lparr>sent := sent (inner c) @ frame_enc \<lparr>msg_type = t, payload = p\<rparr>\<rparr>\<rparr>, Ok ())"
proof -
  have "unat (of_nat (length p) :: u32) = length p"
    using assms(2) by (auto simp: codec_limit_def intro: unat_u32_len)
  moreover have "length p < 2 ^ 32"
    using assms(2) unat_u32_less [of "max_payload_len c"] by (simp add: codec_limit_def)
  ultimately show ?thesis
    using assms
    by (simp add: write_frame_def Let_def wire_simps word_less_nat_alt codec_limit_def writable_def
        write_all_writable flush_def frame_enc_def)
qed

interpretation wire: frame_transport read_frame write_frame "\<lambda>c. inp (inner c)" "\<lambda>c. sent (inner c)"
  codec_limit frame_enc
proof (unfold_locales, goal_cases)
  case (1 c f r)
  then show ?case by (simp add: read_frame_enc)
next
  case (2 c c' f)
  then show ?case by (auto dest: read_frame_Ok)
next
  case (3 c c' x)
  then show ?case by (auto simp: codec_limit_def dest: read_frame_rest)
next
  case (4 t p c c' u)
  then show ?case by (rule write_frame_Ok)
next
  case (5 t p c c' y)
  then show ?case by (auto simp: codec_limit_def dest: write_frame_rest)
next
  case (6 f)
  then show ?case by simp
qed

section \<open>Properties\<close>

text \<open>
  C16. Frame round trip. Whatever list of frames one end writes successfully with \<open>write_frame\<close>, the other
  end reads back with \<open>read_frame\<close>: the same frames, in order, with their types and payloads, and the
  bytes after them stay unread. The only requirement is that the reader's payload limit is not smaller
  than the writer's.
\<close>

theorem frames_roundtrip:
  assumes "send_frames write_frame fs a = (a', Ok u)"
    and "sent (inner a) = []" and "inp (inner b) = sent (inner a') @ r"
    and "codec_limit a \<le> codec_limit b"
  shows "\<exists>b'. recv_frames read_frame (length fs) b = (b', Ok fs) \<and> inp (inner b') = r"
  using assms by (rule wire.frames_arrive)

definition pipe_end :: "bytes \<Rightarrow> stream" where
  "pipe_end bs =
     \<lparr>inp = bs, inp_end = None, sent = [], room = None,
      write_err = IoError Other_kind ''broken pipe'', flush_err = None\<rparr>"

lemma pipe_end_simps [simp]:
  "inp (pipe_end bs) = bs" "inp_end (pipe_end bs) = None" "sent (pipe_end bs) = []"
  "room (pipe_end bs) = None" "flush_err (pipe_end bs) = None" "writable (pipe_end bs)"
  by (simp_all add: pipe_end_def writable_def)

definition demo_frames :: "frame list" where
  "demo_frames =
     [\<lparr>msg_type = AUTH_CHALLENGE, payload = as_bytes ''hello''\<rparr>, \<lparr>msg_type = EXEC_EXIT, payload = []\<rparr>]"

lemma codec_limit_default: "codec_limit (codec_new s) = 1048576"
  by (simp add: codec_limit_def codec_new_def DEFAULT_MAX_PAYLOAD_LEN_def)

theorem frames_roundtrip_witness:
  "\<exists>b'. recv_frames read_frame 2
      (codec_new (pipe_end (concat (map frame_enc demo_frames) @ [1, 2, 3]))) = (b', Ok demo_frames)
    \<and> inp (inner b') = [1, 2, 3]"
proof -
  let ?a = "codec_new (pipe_end [])"
  have limit: "codec_limit c = 1048576" if "max_payload_len c = DEFAULT_MAX_PAYLOAD_LEN" for c
    using that by (simp add: codec_limit_def DEFAULT_MAX_PAYLOAD_LEN_def)
  obtain a' where a': "send_frames write_frame demo_frames ?a = (a', Ok ())"
    "sent (inner a') = concat (map frame_enc demo_frames)"
    by (simp add: demo_frames_def write_frame_ok limit codec_new_def writable_def)
  have "length demo_frames = 2" by (simp add: demo_frames_def)
  with frames_roundtrip [OF a'(1), of "codec_new (pipe_end (sent (inner a') @ [1, 2, 3]))" "[1, 2, 3]"] a'(2)
  show ?thesis by (simp add: codec_limit_default) (simp add: codec_new_def)
qed

text \<open>
  C24. The reader accepts nothing but frames: if \<open>read_frame\<close> returns a frame, the bytes it consumed are
  exactly the magic, the supported version, the message type, the big-endian length of the payload
  and the payload, and the payload is within the configured maximum.
\<close>

theorem read_frame_accepts_only_frames:
  assumes "read_frame c = (c', Ok f)"
  shows "inp (inner c) =
      MAGIC @ [VERSION, msg_type f] @ to_be_bytes (of_nat (length (payload f))) @ payload f @ inp (inner c')
    \<and> length (payload f) \<le> unat (max_payload_len c) \<and> sent (inner c') = sent (inner c)"
  using wire.recv_sound [OF assms] wire.recv_frame_rest [OF assms]
  by (simp add: frame_enc_def header_bytes_def codec_limit_def)

lemma demo_read:
  "read_frame (codec_new (pipe_end [0x53, 0x41, 0x4F, 1, 0x10, 0, 0, 0, 2, 7, 8, 9]))
   = (codec_new (pipe_end [9]), Ok \<lparr>msg_type = EXEC_SHELL, payload = [7, 8]\<rparr>)"
proof -
  have eq: "[0x53, 0x41, 0x4F, 1, 0x10, 0, 0, 0, 2, 7, 8, 9] =
    frame_enc \<lparr>msg_type = EXEC_SHELL, payload = [7, 8]\<rparr> @ [9]"
    by (simp add: frame_enc_def header_bytes_def MAGIC_bytes VERSION_def EXEC_SHELL_def to_be_bytes_def)
  show ?thesis
    unfolding eq
    by (subst read_frame_enc [where f = "\<lparr>msg_type = EXEC_SHELL, payload = [7, 8]\<rparr>" and r = "[9]"])
       (simp_all add: codec_limit_default codec_new_def pipe_end_def DEFAULT_MAX_PAYLOAD_LEN_def
          codec_limit_def)
qed

theorem read_frame_accepts_only_frames_witness:
  "[0x53, 0x41, 0x4F, 1, 0x10, 0, 0, 0, 2, 7, 8, 9] =
   MAGIC @ [VERSION, EXEC_SHELL] @ to_be_bytes (of_nat (length [7, 8])) @ [7, 8 :: u8] @ [9]"
  using read_frame_accepts_only_frames [OF demo_read] by (simp add: codec_new_def)

text \<open>
  C33. Truncation. If the peer closes the connection anywhere inside of a frame (after any strict prefix
  of its encoding, the empty one included), \<open>read_frame\<close> reports \<open>UnexpectedEof\<close>: a cut-off frame is
  never delivered, not even in part.
\<close>

theorem read_frame_truncated:
  assumes "strict_prefix (inp (inner c)) (frame_enc f)" and "length (payload f) \<le> codec_limit c"
    and "inp_end (inner c) = None"
  shows "snd (read_frame c) = Err UnexpectedEof"
proof (cases "length (inp (inner c)) < HEADER_LEN")
  case True
  with assms(3) show ?thesis
    by (simp add: read_frame_def read_exact_def)
next
  case False
  let ?h = "header_bytes (msg_type f) (of_nat (length (payload f)))"
  have l: "length ?h = HEADER_LEN" by (simp add: HEADER_LEN_def)
  from assms(1) obtain ys where ys: "inp (inner c) @ ys = ?h @ payload f" "ys \<noteq> []"
    by (auto simp: strict_prefix_def prefix_def frame_enc_def)
  have "take HEADER_LEN (inp (inner c) @ ys) = ?h"
    by (simp add: ys(1) HEADER_LEN_def)
  with False have "take HEADER_LEN (inp (inner c)) = ?h" by simp
  then obtain p where p: "inp (inner c) = ?h @ p"
    by (metis append_take_drop_id)
  with ys(1) have py: "p @ ys = payload f" by simp
  have n: "unat (of_nat (length (payload f)) :: u32) = length (payload f)"
    using assms(2) by (auto simp: codec_limit_def intro: unat_u32_len)
  have "read_exact HEADER_LEN (inner c) = ((inner c)\<lparr>inp := p\<rparr>, Inr ?h)"
    by (intro read_exact_ok l p)
  moreover have "length p < length (payload f)"
    using py ys(2) by (metis length_append length_greater_0_conv less_add_same_cancel1)
  moreover from this have "payload f \<noteq> []" by auto
  moreover from \<open>length p < length (payload f)\<close> assms(3)
  have "read_exact (length (payload f)) ((inner c)\<lparr>inp := p\<rparr>) =
    ((inner c)\<lparr>inp := []\<rparr>, Inl (IoError UnexpectedEof_kind ''early eof''))"
    by (simp add: read_exact_def)
  ultimately show ?thesis
    using assms(2) n unat_u32_not_above [of "of_nat (length (payload f))"]
    by (simp add: read_frame_def wire_simps word_less_nat_alt codec_limit_def
        del: unat_u32_not_above)
qed

theorem read_frame_truncated_witness:
  "snd (read_frame (codec_new (pipe_end [0x53, 0x41, 0x4F, 1, 0x10, 0, 0, 0, 2, 7])))
   = Err UnexpectedEof"
proof (rule read_frame_truncated [where f = "\<lparr>msg_type = EXEC_SHELL, payload = [7, 8]\<rparr>"])
  show "strict_prefix (inp (inner (codec_new (pipe_end [0x53, 0x41, 0x4F, 1, 0x10, 0, 0, 0, 2, 7]))))
    (frame_enc \<lparr>msg_type = EXEC_SHELL, payload = [7, 8]\<rparr>)"
    by (simp add: frame_enc_def header_bytes_def MAGIC_bytes VERSION_def EXEC_SHELL_def to_be_bytes_def
        codec_new_def strict_prefix_def)
qed (simp_all add: codec_limit_default, simp add: codec_new_def)

text \<open>
  C34. Resource bound. A header that announces more than the configured maximum is rejected with both
  numbers in the error, and no byte after the header is read (so no payload buffer is ever larger than
  the maximum).
\<close>

theorem read_frame_oversized:
  assumes "inp (inner c) = header_bytes t n @ r" and "n > max_payload_len c"
  shows "read_frame c = (c\<lparr>inner := (inner c)\<lparr>inp := r\<rparr>\<rparr>, Err (PayloadTooLarge n (max_payload_len c)))"
proof -
  have "read_exact HEADER_LEN (inner c) = ((inner c)\<lparr>inp := r\<rparr>, Inr (header_bytes t n))"
    using assms(1) by (intro read_exact_ok) (simp_all add: HEADER_LEN_def)
  with assms(2) show ?thesis
    by (simp add: read_frame_def wire_simps)
qed

theorem read_frame_oversized_witness:
  "snd (read_frame (with_max_payload_len (pipe_end (header_bytes ERROR 11 @ replicate 11 0)) 10))
   = Err (PayloadTooLarge 11 10)"
  by (subst read_frame_oversized [where t = ERROR and n = 11 and r = "replicate 11 0"])
     (simp_all add: with_max_payload_len_def)

text \<open>
  The reader is total on hostile input: for every content of the connection \<open>read_frame\<close> returns a
  frame or one of four errors. It never panics, and the \<open>usize\<close> conversion of the length never fails
  on the supported targets.
\<close>

theorem read_frame_total:
  "case snd (read_frame c) of
     Ok f \<Rightarrow> True
   | Err e \<Rightarrow> (\<exists>i. e = Io i) \<or> e = UnexpectedEof \<or> e = InvalidMagic \<or>
       (\<exists>v. e = UnsupportedVersion v \<and> v \<noteq> VERSION) \<or>
       (\<exists>n. e = PayloadTooLarge n (max_payload_len c) \<and> n > max_payload_len c)
   | Panic \<Rightarrow> False"
  by (auto simp: read_frame_def parse_header_def Let_def read_error_def
      split: prod.splits sum.splits res.splits if_splits io_kind.splits)

text \<open>
  C35. A failed \<open>write_frame\<close> leaves a prefix of the frame on the wire, and when it fails because the
  payload is too large nothing at all is written.
\<close>

theorem write_frame_error:
  assumes "write_frame t p c = (c', Err e)"
  shows "(\<exists>q. prefix q (frame_enc \<lparr>msg_type = t, payload = p\<rparr>) \<and> sent (inner c') = sent (inner c) @ q) \<and>
    (\<forall>n m. e = PayloadTooLarge n m \<longrightarrow> c' = c \<and> codec_limit c < length p)"
proof (cases "length p \<ge> 2 ^ 32 \<or> (of_nat (length p) :: u32) > max_payload_len c")
  case True
  with assms have "c' = c \<and> (\<exists>n m. e = PayloadTooLarge n m)"
    by (auto simp: write_frame_def Let_def split: if_splits)
  moreover have "codec_limit c < length p"
    using True unat_u32_less [of "max_payload_len c"]
    by (auto simp: word_less_nat_alt codec_limit_def unat_of_nat not_le)
  ultimately show ?thesis by auto
next
  case False
  let ?h = "header_bytes t (of_nat (length p))"
  have h: "frame_enc \<lparr>msg_type = t, payload = p\<rparr> = ?h @ p"
    by (simp add: frame_enc_def)
  have no: "\<not> (\<exists>n m. e = PayloadTooLarge n m)"
    using assms False
    by (auto simp: write_frame_def Let_def wire_simps protocol_error_from_io_def
        split: prod.splits sum.splits)
  from assms False consider
      (header) s1 i where "write_all ?h (inner c) = (s1, Inl i)" "c' = c\<lparr>inner := s1\<rparr>"
    | (body) s1 s2 x where "write_all ?h (inner c) = (s1, Inr ())" "write_all p s1 = (s2, x)"
        "c' = c\<lparr>inner := s2\<rparr>"
    by (auto simp: write_frame_def Let_def wire_simps split: prod.splits sum.splits)
  then have "\<exists>q. prefix q (?h @ p) \<and> sent (inner c') = sent (inner c) @ q"
  proof cases
    case header
    then show ?thesis by (auto dest!: write_all_prefix)
  next
    case body
    then show ?thesis by (auto dest!: write_all_prefix write_all_sent)
  qed
  with no h show ?thesis by auto
qed

theorem write_frame_error_witness:
  "sent (inner (fst (write_frame EXEC_EXIT [1, 2, 3] (with_max_payload_len (pipe_end []) 2)))) = []"
proof -
  let ?c = "with_max_payload_len (pipe_end []) 2"
  have "write_frame EXEC_EXIT [1, 2, 3] ?c = (?c, Err (PayloadTooLarge 3 2))"
    by (simp add: write_frame_def with_max_payload_len_def)
  from write_frame_error [OF this] show ?thesis
    by (simp add: \<open>write_frame EXEC_EXIT [1, 2, 3] ?c = _\<close>) (simp add: with_max_payload_len_def)
qed

end
