(* ===== verification/Client_World.thy ===== *)
theory Client_World
  imports Spki Agent_Key Codec_Facts
begin

text \<open>
  What the client program acts on: its files, the network, the terminal, and the connection of the
  session. An action takes this world and returns the new world and a result; \<open>and_then\<close> is the
  sequencing of the \<open>?\<close> operator, which stops at the first error or panic.
\<close>

section \<open>The world\<close>

text \<open>
  One attempt to connect: the TCP connection, the TLS connector, the handshake with the stream it gives,
  and the peer's certificate with its DER bytes. Errors of the TLS library are their renderings.
\<close>

record tls_attempt =
  att_tcp :: "io_error + unit"
  att_build :: "str + unit"
  att_handshake :: "str + stream"
  att_peer :: "str + (str + bytes) option"

text \<open>
  \<open>net n h p\<close> is what the \<open>n\<close>-th attempt finds when it goes to \<open>h\<close> and \<open>p\<close>; \<open>answers\<close> are the lines that
  will be read from standard input, the end of which reads as an empty line. \<open>out_err\<close> and \<open>err_err\<close> say
  whether writing to standard output and standard error fails.
\<close>

record client_world =
  disk :: fs
  net :: "nat \<Rightarrow> str \<Rightarrow> u16 \<Rightarrow> tls_attempt"
  dials :: nat
  tty :: bool
  answers :: "(io_error + str) list"
  out_text :: str
  err_text :: str
  out_err :: "io_error option"
  err_err :: "io_error option"
  link :: codec

type_synonym ('e, 'a) act = "client_world \<Rightarrow> client_world \<times> ('e, 'a) res"

definition ret :: "'a \<Rightarrow> ('e, 'a) act" where
  "ret a w = (w, Ok a)"

definition fail :: "'e \<Rightarrow> ('e, 'a) act" where
  "fail e w = (w, Err e)"

definition attempt :: "('e, 'a) res \<Rightarrow> ('e, 'a) act" where
  "attempt r w = (w, r)"

definition and_then :: "('e, 'a) act \<Rightarrow> ('a \<Rightarrow> ('e, 'b) act) \<Rightarrow> ('e, 'b) act" where
  "and_then m f w =
     (case m w of
        (w1, Ok a) \<Rightarrow> f a w1
      | (w1, Err e) \<Rightarrow> (w1, Err e)
      | (w1, Panic) \<Rightarrow> (w1, Panic))"

definition act_err :: "('e \<Rightarrow> 'f) \<Rightarrow> ('e, 'a) act \<Rightarrow> ('f, 'a) act" where
  "act_err g m w = (case m w of (w1, r) \<Rightarrow> (w1, map_err g r))"

section \<open>Terminal\<close>

text \<open>The printing macros panic when the stream is broken; \<open>write_all\<close> reports the error.\<close>

definition eprint :: "str \<Rightarrow> ('e, unit) act" where
  "eprint s w = (if err_err w = None then (w\<lparr>err_text := err_text w @ s\<rparr>, Ok ()) else (w, Panic))"

definition eprintln :: "str \<Rightarrow> ('e, unit) act" where
  "eprintln s = eprint (s @ [nl])"

definition println :: "str \<Rightarrow> ('e, unit) act" where
  "println s w =
     (if out_err w = None then (w\<lparr>out_text := out_text w @ s @ [nl]\<rparr>, Ok ()) else (w, Panic))"

definition write_stdout :: "bytes \<Rightarrow> (boxed_error, unit) act" where
  "write_stdout raw w =
     (case out_err w of
        None \<Rightarrow> (w\<lparr>out_text := out_text w @ str_of_bytes raw\<rparr>, Ok ())
      | Some e \<Rightarrow> (w, Err (BoxIo e)))"

definition write_stderr :: "bytes \<Rightarrow> (boxed_error, unit) act" where
  "write_stderr raw w =
     (case err_err w of
        None \<Rightarrow> (w\<lparr>err_text := err_text w @ str_of_bytes raw\<rparr>, Ok ())
      | Some e \<Rightarrow> (w, Err (BoxIo e)))"

definition flush_stdout :: "(boxed_error, unit) act" where
  "flush_stdout w = (case out_err w of None \<Rightarrow> (w, Ok ()) | Some e \<Rightarrow> (w, Err (BoxIo e)))"

definition is_terminal :: "('e, bool) act" where
  "is_terminal w = (w, Ok (tty w))"

definition read_line :: "(boxed_error, str) act" where
  "read_line w =
     (case answers w of
        [] \<Rightarrow> (w, Ok [])
      | Inl e # r \<Rightarrow> (w\<lparr>answers := r\<rparr>, Err (BoxIo e))
      | Inr l # r \<Rightarrow> (w\<lparr>answers := r\<rparr>, Ok l))"

text \<open>The answers that count as consent.\<close>

definition yes :: "(str \<Rightarrow> str) \<Rightarrow> str \<Rightarrow> bool" where
  "yes uni l \<longleftrightarrow> to_lowercase uni (trim l) \<in> {''y'', ''yes''}"

section \<open>Files and the network\<close>

definition on_disk :: "(fs \<Rightarrow> fs \<times> ('e, 'a) res) \<Rightarrow> ('e, 'a) act" where
  "on_disk f w = (case f (disk w) of (d, r) \<Rightarrow> (w\<lparr>disk := d\<rparr>, r))"

definition from_disk :: "(fs \<Rightarrow> ('e, 'a) res) \<Rightarrow> ('e, 'a) act" where
  "from_disk f w = (w, f (disk w))"

definition dial :: "str \<Rightarrow> u16 \<Rightarrow> ('e, tls_attempt) act" where
  "dial host port w = (w\<lparr>dials := Suc (dials w)\<rparr>, Ok (net w (dials w) host port))"

definition recv :: "(boxed_error, frame) act" where
  "recv w = (case read_frame (link w) of (c, r) \<Rightarrow> (w\<lparr>link := c\<rparr>, map_err BoxProtocol r))"

definition send :: "u8 \<Rightarrow> bytes \<Rightarrow> (boxed_error, unit) act" where
  "send t p w = (case write_frame t p (link w) of (c, r) \<Rightarrow> (w\<lparr>link := c\<rparr>, map_err BoxProtocol r))"

section \<open>Facts\<close>

lemma and_then_Ok_iff [res_iff]:
  "and_then m f w = (w', Ok b) \<longleftrightarrow> (\<exists>w1 a. m w = (w1, Ok a) \<and> f a w1 = (w', Ok b))"
  by (auto simp: and_then_def split: prod.splits res.splits)

lemma act_err_Ok_iff [res_iff]: "act_err g m w = (w', Ok a) \<longleftrightarrow> m w = (w', Ok a)"
  by (auto simp: act_err_def res_iff split: prod.splits)

lemma attempt_iff [res_iff]: "attempt r w = (w', x) \<longleftrightarrow> w' = w \<and> r = x"
  by (auto simp: attempt_def)

lemma ret_iff [res_iff]: "ret a w = (w', x) \<longleftrightarrow> w' = w \<and> x = Ok a"
  by (auto simp: ret_def)

lemma fail_iff [res_iff]: "fail e w = (w', x) \<longleftrightarrow> w' = w \<and> x = Err e"
  by (auto simp: fail_def)

text \<open>What an action leaves alone: \<open>keeps f\<close> says that the part \<open>f\<close> of the world is not changed.\<close>

definition keeps :: "(client_world \<Rightarrow> 'x) \<Rightarrow> ('e, 'a) act \<Rightarrow> bool" where
  "keeps f m \<longleftrightarrow> (\<forall>w. f (fst (m w)) = f w)"

named_theorems keeps_intros \<open>actions that leave a part of the world alone\<close>

lemma keeps_and_then [keeps_intros]: "keeps f m \<Longrightarrow> (\<And>a. keeps f (g a)) \<Longrightarrow> keeps f (and_then m g)"
  by (auto simp: keeps_def and_then_def split: prod.split res.split) (metis fst_conv)+

lemma keeps_act_err [keeps_intros]: "keeps f m \<Longrightarrow> keeps f (act_err g m)"
  by (auto simp: keeps_def act_err_def split: prod.split) (metis fst_conv)

lemma keeps_pure [keeps_intros]:
  "keeps f (ret a)" "keeps f (fail e)" "keeps f (attempt r)" "keeps f is_terminal" "keeps f flush_stdout"
  "keeps f (from_disk g)"
  by (simp_all add: keeps_def ret_def fail_def attempt_def is_terminal_def flush_stdout_def from_disk_def
      split: option.split)

lemma keeps_disk [keeps_intros]:
  "keeps disk (eprint s)" "keeps disk (eprintln s)" "keeps disk (println s)" "keeps disk read_line"
  "keeps disk (dial h p)" "keeps disk recv" "keeps disk (send t b)" "keeps disk (write_stdout raw)"
  "keeps disk (write_stderr raw)"
  by (auto simp: keeps_def eprint_def eprintln_def println_def read_line_def dial_def recv_def send_def
      write_stdout_def write_stderr_def split: list.split sum.split prod.split option.split)

lemma keepsD: "keeps f m \<Longrightarrow> m w = (w', r) \<Longrightarrow> f w' = f w"
  by (metis keeps_def fst_conv)

text \<open>No action changes the terminal or the network, gets more answers or takes back an attempt.\<close>

definition benign :: "('e, 'a) act \<Rightarrow> bool" where
  "benign m \<longleftrightarrow> (\<forall>w. tty (fst (m w)) = tty w \<and> net (fst (m w)) = net w \<and>
     set (answers (fst (m w))) \<subseteq> set (answers w) \<and> dials w \<le> dials (fst (m w)))"

lemma benignD:
  "benign m \<Longrightarrow> m w = (w', r) \<Longrightarrow>
   tty w' = tty w \<and> net w' = net w \<and> set (answers w') \<subseteq> set (answers w) \<and> dials w \<le> dials w'"
  by (metis benign_def fst_conv)

named_theorems benign_intros \<open>actions that leave the environment alone\<close>

lemma benign_and_then [benign_intros]:
  assumes "benign m" and "\<And>a. benign (g a)"
  shows "benign (and_then m g)"
  unfolding benign_def
proof
  fix w
  obtain w1 r where m: "m w = (w1, r)" by fastforce
  show "tty (fst (and_then m g w)) = tty w \<and> net (fst (and_then m g w)) = net w \<and>
     set (answers (fst (and_then m g w))) \<subseteq> set (answers w) \<and> dials w \<le> dials (fst (and_then m g w))"
  proof (cases r)
    case (Ok a)
    with m benignD [OF assms(1) m] benignD [OF assms(2) prod.collapse [symmetric], of a w1]
    show ?thesis by (auto simp: and_then_def)
  qed (use m benignD [OF assms(1) m] in \<open>auto simp: and_then_def\<close>)
qed

lemma benign_act_err [benign_intros]: "benign m \<Longrightarrow> benign (act_err g m)"
  by (auto simp: benign_def act_err_def split: prod.split) (metis fst_conv subsetD)+

lemma benign_basic [benign_intros]:
  "benign (ret a)" "benign (fail e)" "benign (attempt r)" "benign is_terminal" "benign flush_stdout"
  "benign (from_disk g)" "benign (eprint s)" "benign (eprintln s)" "benign (println s)" "benign read_line"
  "benign (dial h p)" "benign (on_disk f)"
  by (auto simp: benign_def ret_def fail_def attempt_def is_terminal_def flush_stdout_def from_disk_def
      eprint_def eprintln_def println_def read_line_def dial_def on_disk_def
      split: option.splits list.splits sum.splits prod.splits)

end
