(* ===== verification/Connect.thy ===== *)
theory Connect
  imports Client_World
begin

text \<open>
  The client's connections: \<open>connect_pinned\<close> and \<open>connect_probe\<close> (\<open>sao-client/src/connect.rs\<close>), and from
  \<open>sao-client/src/main.rs\<close> the management of trust (\<open>resolve_tls_pin\<close>, \<open>connect_with_pin_management\<close>) and
  \<open>parse_addr\<close>.
\<close>

section \<open>TLS connections\<close>

definition io_other :: "str \<Rightarrow> io_error" where
  "io_other m = IoError Other_kind m"

definition connect_pinned ::
    "('vk, 'sk) lib \<Rightarrow> str \<Rightarrow> u16 \<Rightarrow> bytes \<Rightarrow> (io_error, stream) act" where
  "connect_pinned L host port pin =
     and_then (dial host port) (\<lambda>att.
     and_then (attempt (of_sum (att_tcp att))) (\<lambda>_.
     and_then (attempt (map_err io_other (of_sum (att_build att)))) (\<lambda>_.
     and_then (attempt (map_err io_other (of_sum (att_handshake att)))) (\<lambda>tls.
     and_then (attempt (map_err io_other (of_sum (att_peer att)))) (\<lambda>peer.
     and_then (attempt (ok_or (IoError PermissionDenied ''no peer certificate'') peer)) (\<lambda>cert.
     and_then (attempt (map_err io_other (of_sum cert))) (\<lambda>cert_der.
     and_then (attempt (map_err (\<lambda>e. IoError InvalidData (''cert parse: '' @ core_error_display e))
       (spki_sha256_bytes_from_cert_der L cert_der))) (\<lambda>got.
     if got \<noteq> pin
     then fail (IoError PermissionDenied ''TLS SPKI pin mismatch (possible MITM or wrong known_hosts)'')
     else ret tls))))))))"

definition connect_probe :: "str \<Rightarrow> u16 \<Rightarrow> (io_error, bytes) act" where
  "connect_probe host port =
     and_then (dial host port) (\<lambda>att.
     and_then (attempt (of_sum (att_tcp att))) (\<lambda>_.
     and_then (attempt (map_err io_other (of_sum (att_build att)))) (\<lambda>_.
     and_then (attempt (map_err io_other (of_sum (att_handshake att)))) (\<lambda>tls.
     and_then (attempt (map_err io_other (of_sum (att_peer att)))) (\<lambda>peer.
     and_then (attempt (ok_or (io_other ''no peer certificate'') peer)) (\<lambda>c.
     attempt (map_err io_other (of_sum c))))))))"

section \<open>Trust\<close>

definition host_port :: "str \<Rightarrow> u16 \<Rightarrow> str" where
  "host_port host port = host @ '':'' @ show_u16 port"

definition em_dash :: str where
  "em_dash = [CHR 0xE2, CHR 0x80, CHR 0x94]"

definition ask :: "('vk, 'sk) lib \<Rightarrow> str \<Rightarrow> (boxed_error, bool) act" where
  "ask L question =
     and_then (eprint question) (\<lambda>_.
     and_then flush_stdout (\<lambda>_.
     and_then read_line (\<lambda>line. ret (yes (uni_lower L) line))))"

text \<open>The question of \<open>resolve_tls_pin\<close>: may the new pin be saved?\<close>

definition confirm_new ::
    "('vk, 'sk) lib \<Rightarrow> str \<Rightarrow> u16 \<Rightarrow> str \<Rightarrow> bool \<Rightarrow> (boxed_error, bool) act" where
  "confirm_new L host port fp_hex accept_new =
     (if accept_new
      then and_then (eprintln (''Warning: saving new TLS pin for '' @ host_port host port @
             '' (SPKI SHA-256 '' @ fp_hex @ '') '' @ em_dash @
             '' verify on a trusted network when possible.'')) (\<lambda>_. ret True)
      else and_then is_terminal (\<lambda>t.
        if t
        then and_then (eprintln (''The authenticity of host '' @ [CHR 0x27] @ host @ [CHR 0x27] @
               '' (port '' @ show_u16 port @ '') can'' @ [CHR 0x27] @ ''t be established.'')) (\<lambda>_.
             and_then (eprintln (''TLS SPKI SHA-256 fingerprint is '' @ fp_hex @ ''.'')) (\<lambda>_.
             ask L ''Are you sure you want to continue connecting (yes/no)? ''))
        else fail (BoxMsg (''no TLS pin for '' @ host_port host port @ ''. Add with:'' @ [nl] @
               ''  sao trust add '' @ host @ '' '' @ show_u16 port @ '' '' @ fp_hex @ [nl] @
               ''Or non-interactively:'' @ [nl] @ ''  sao run -p '' @ show_u16 port @
               '' --accept-new '' @ host @ '' -- '' @ [CHR 0xE2, CHR 0x80, CHR 0xA6]))))"

text \<open>Both functions store an accepted pin in the same way; \<open>verb\<close> is what they print about it.\<close>

definition store_pin ::
    "('vk, 'sk) lib \<Rightarrow> str \<Rightarrow> str \<Rightarrow> u16 \<Rightarrow> path \<Rightarrow> str \<Rightarrow> known_hosts \<Rightarrow> (boxed_error, bytes) act" where
  "store_pin L verb host port known_path fp_hex kh =
     (let (kh', r) = insert_hex (uni_lower L) host port fp_hex kh in
      and_then (attempt (map_err BoxCore r)) (\<lambda>_.
      and_then (act_err BoxCore (on_disk (known_hosts_save L kh' known_path))) (\<lambda>_.
      and_then (eprintln (verb @ host_port host port @ '' in '' @ path_display known_path)) (\<lambda>_.
      attempt (map_err BoxCore (pin_hex (uni_lower L) kh' host port))))))"

definition resolve_tls_pin ::
    "('vk, 'sk) lib \<Rightarrow> str \<Rightarrow> u16 \<Rightarrow> path \<Rightarrow> bool \<Rightarrow> (boxed_error, bytes) act" where
  "resolve_tls_pin L host port known_path accept_new =
     and_then (from_disk (\<lambda>d. map_err BoxCore (known_hosts_load (uni_lower L) d known_path))) (\<lambda>kh.
     case pin_hex (uni_lower L) kh host port of
       Ok pin \<Rightarrow> ret pin
     | Err (KnownHostsMissing _) \<Rightarrow>
         and_then (act_err (\<lambda>e. BoxMsg (''TLS connect (trust setup): '' @ io_error_display e))
           (connect_probe host port)) (\<lambda>der.
         and_then (attempt (map_err (\<lambda>e. BoxMsg (''server certificate: '' @ core_error_display e))
           (spki_sha256_hex_from_cert_der L der))) (\<lambda>fp_hex.
         and_then (confirm_new L host port fp_hex accept_new) (\<lambda>save.
         if \<not> save then fail (BoxMsg ''Host key not accepted.'')
         else store_pin L ''Pinned '' host port known_path fp_hex kh)))
     | Err e \<Rightarrow> fail (BoxCore e)
     | Panic \<Rightarrow> attempt Panic)"

text \<open>The question of \<open>connect_with_pin_management\<close>: may the pin be replaced?\<close>

definition confirm_replace ::
    "('vk, 'sk) lib \<Rightarrow> str \<Rightarrow> u16 \<Rightarrow> str \<Rightarrow> bool \<Rightarrow> (boxed_error, bool) act" where
  "confirm_replace L host port fp_hex accept_new =
     (if accept_new
      then and_then (eprintln (''Warning: replacing TLS pin for '' @ host_port host port @
             '' with new SPKI SHA-256 '' @ fp_hex @ '' '' @ em_dash @ '' verify on a trusted network.''))
             (\<lambda>_. ret True)
      else and_then is_terminal (\<lambda>t.
        if t
        then and_then (eprintln (''Host key for '' @ host_port host port @ '' has changed.'')) (\<lambda>_.
             and_then (eprintln (''New TLS SPKI SHA-256 fingerprint is '' @ fp_hex @ ''.'')) (\<lambda>_.
             ask L ''Replace the pin in known_hosts? (yes/no): ''))
        else fail (BoxMsg (''TLS pin mismatch for '' @ host_port host port @
               ''. Run interactively to replace, or: sao trust add '' @ host @ '' '' @ show_u16 port @
               '' '' @ fp_hex))))"

text \<open>The branch of \<open>connect_with_pin_management\<close> for a mismatch.\<close>

definition replace_pin ::
    "('vk, 'sk) lib \<Rightarrow> str \<Rightarrow> u16 \<Rightarrow> path \<Rightarrow> bool \<Rightarrow> (boxed_error, stream) act" where
  "replace_pin L host port known_path accept_new =
     and_then (act_err (\<lambda>e. BoxMsg (''TLS connect (host key changed): '' @ io_error_display e))
       (connect_probe host port)) (\<lambda>der.
     and_then (attempt (map_err (\<lambda>e. BoxMsg (''server certificate: '' @ core_error_display e))
       (spki_sha256_hex_from_cert_der L der))) (\<lambda>fp_hex.
     and_then (confirm_replace L host port fp_hex accept_new) (\<lambda>replace.
     if \<not> replace then fail (BoxMsg ''Host key not accepted.'')
     else
       and_then (from_disk (\<lambda>d. map_err BoxCore (known_hosts_load (uni_lower L) d known_path))) (\<lambda>kh.
       and_then (store_pin L ''Replaced pin for '' host port known_path fp_hex kh) (\<lambda>new_pin.
       act_err (\<lambda>e. BoxMsg (io_error_display e)) (connect_pinned L host port new_pin))))))"

definition connect_with_pin_management ::
    "('vk, 'sk) lib \<Rightarrow> str \<Rightarrow> u16 \<Rightarrow> path \<Rightarrow> bool \<Rightarrow> (boxed_error, stream) act" where
  "connect_with_pin_management L host port known_path accept_new =
     and_then (resolve_tls_pin L host port known_path accept_new) (\<lambda>pin w.
       case connect_pinned L host port pin w of
         (w1, Ok tls) \<Rightarrow> (w1, Ok tls)
       | (w1, Panic) \<Rightarrow> (w1, Panic)
       | (w1, Err e) \<Rightarrow>
           if contains (io_error_display e) ''SPKI pin mismatch''
           then replace_pin L host port known_path accept_new w1
           else (w1, Err (BoxMsg (io_error_display e))))"

section \<open>Addresses\<close>

definition parse_addr :: "str \<Rightarrow> (str, str \<times> u16) res" where
  "parse_addr s0 =
     (let s = trim s0 in
      if starts_with s ''[''
      then bind_res (ok_or ''expected [ipv6]:port'' (find_sub '']:'' s)) (\<lambda>stop.
           bind_res (str_slice s 1 stop) (\<lambda>host.
           bind_res (str_slice s (stop + 2) (length s)) (\<lambda>p.
           bind_res (ok_or ''bad port'' (parse_u16 p)) (\<lambda>port. Ok (host, port)))))
      else bind_res (ok_or ''expected host:port'' (rsplit_once (CHR '':'') s)) (\<lambda>(h, p).
           if h = [] then Err ''empty host''
           else bind_res (ok_or ''bad port'' (parse_u16 p)) (\<lambda>port. Ok (h, port))))"

end
