(* ===== verification/Client.thy ===== *)
theory Client
  imports Connect
begin

text \<open>
  The client program (\<open>sao-client/src/main.rs\<close>): the session with the server and the subcommands. A call of
  \<open>process::exit\<close> ends the program, so the result of a session that does not fail is its exit status.
\<close>

section \<open>Messages\<close>

record auth_challenge =
  ch_nonce :: str
  ch_session_id :: str

definition de_auth_challenge :: "json \<Rightarrow> auth_challenge option" where
  "de_auth_challenge j =
     (case (case j of
          JObj kvs \<Rightarrow> (required de_string ''nonce'' kvs, required de_string ''session_id'' kvs)
        | JArr [a, b] \<Rightarrow> (de_string a, de_string b)
        | _ \<Rightarrow> (None, None)) of
        (Some n, Some sid) \<Rightarrow> Some \<lparr>ch_nonce = n, ch_session_id = sid\<rparr>
      | _ \<Rightarrow> None)"

record auth_result =
  res_ok :: bool
  res_reason :: "str option"
  res_message :: "str option"

definition de_auth_result :: "json \<Rightarrow> auth_result option" where
  "de_auth_result j =
     (case (case j of
          JObj kvs \<Rightarrow> (required de_bool ''ok'' kvs, with_default de_option_string None ''reason'' kvs,
                       with_default de_option_string None ''message'' kvs)
        | JArr [a] \<Rightarrow> (de_bool a, Some None, Some None)
        | JArr [a, b] \<Rightarrow> (de_bool a, de_option_string b, Some None)
        | JArr [a, b, c] \<Rightarrow> (de_bool a, de_option_string b, de_option_string c)
        | _ \<Rightarrow> (None, None, None)) of
        (Some ok, Some reason, Some message) \<Rightarrow>
          Some \<lparr>res_ok = ok, res_reason = reason, res_message = message\<rparr>
      | _ \<Rightarrow> None)"

definition response_json :: "str \<Rightarrow> str \<Rightarrow> json" where
  "response_json fp sig =
     JObj [(''fingerprint'', JStr fp), (''key_type'', JStr KEY_TYPE_ED25519), (''signature'', JStr sig)]"

definition exec_json :: "str \<Rightarrow> json" where
  "exec_json shell_line = JObj [(''shell'', JStr shell_line)]"

text \<open>\<open>serde_json::from_slice\<close> with the \<open>?\<close> operator.\<close>

definition parse_json :: "('vk, 'sk) lib \<Rightarrow> (json \<Rightarrow> 'a option) \<Rightarrow> bytes \<Rightarrow> (boxed_error, 'a) act" where
  "parse_json L de bs = attempt (ok_or BoxJson (Option.bind (json_read L bs) de))"

text \<open>The \<open>{:?}\<close> rendering of an optional string.\<close>

fun debug_option :: "(str \<Rightarrow> str) \<Rightarrow> str option \<Rightarrow> str" where
  "debug_option dbg None = ''None''"
| "debug_option dbg (Some s) = ''Some('' @ debug_str dbg s @ '')''"

definition or_empty :: "str option \<Rightarrow> str" where
  "or_empty s = (case s of None \<Rightarrow> [] | Some t \<Rightarrow> t)"

text \<open>The error for a result that is not \<open>ok\<close>.\<close>

definition auth_failure :: "('vk, 'sk) lib \<Rightarrow> auth_result \<Rightarrow> boxed_error" where
  "auth_failure L ar =
     (let reason = or_empty (res_reason ar); detail = or_empty (res_message ar) in
      if reason = ''UNKNOWN_KEY'' \<or> contains detail ''authorized_keys'' \<or>
         contains detail ''fingerprint not in authorized_keys''
      then BoxMsg (''Authentication rejected: this agent'' @ [CHR 0x27] @ ''s public key is not in the server'' @
             [CHR 0x27] @ ''s authorized_keys.'' @ [nl] @
             ''Run `sao key-fingerprint` to create or refresh your key pair; append the non-comment line '' @
             ''from ~/.sao/keys/agent.ed25519.pub to the server'' @ [CHR 0x27] @ ''s authorized_keys.'' @ [nl] @
             ''Server detail: '' @ reason @ '' '' @ debug_str (uni_debug L) detail)
      else BoxMsg (''auth failed: '' @ reason @ '' '' @ debug_option (uni_debug L) (res_message ar)))"

section \<open>The session\<close>

text \<open>\<open>code as i32\<close>\<close>

definition as_i32 :: "int \<Rightarrow> int" where
  "as_i32 n = sint (word_of_int n :: 32 word)"

text \<open>One frame of output or the end of the command; \<open>Ok None\<close> goes on.\<close>

definition handle_frame :: "('vk, 'sk) lib \<Rightarrow> frame \<Rightarrow> (boxed_error, int option) act" where
  "handle_frame L f =
     (if msg_type f = STREAM_STDOUT \<or> msg_type f = STREAM_STDERR
      then and_then (parse_json L Some (payload f)) (\<lambda>v.
           and_then (attempt (ok_or (BoxMsg ''bad stream frame'')
             (Option.bind (value_get ''data'' v) as_str))) (\<lambda>data.
           and_then (attempt (map_err BoxBase64 (of_sum (b64_decode L data)))) (\<lambda>raw.
           and_then (if msg_type f = STREAM_STDERR then write_stderr raw else write_stdout raw) (\<lambda>_.
           ret None))))
      else if msg_type f = EXEC_EXIT
      then and_then (parse_json L Some (payload f)) (\<lambda>v.
           let ecode = (case Option.bind (value_get ''exit_code'' v) as_i64 of None \<Rightarrow> -1 | Some n \<Rightarrow> n) in
           ret (Some (as_i32 ecode)))
      else if msg_type f = POLICY_DENIED
      then and_then (eprintln (utf8_lossy (str_of_bytes (payload f)))) (\<lambda>_. ret (Some 126))
      else if msg_type f = ERROR
      then and_then (eprintln (utf8_lossy (str_of_bytes (payload f)))) (\<lambda>_. ret (Some 1))
      else and_then (eprintln (''unexpected msg_type 0x'' @ hex_byte (msg_type f))) (\<lambda>_. ret (Some 1)))"

lemma handle_frame_link: "handle_frame L f w = (w', r) \<Longrightarrow> link w' = link w"
  by (auto simp: handle_frame_def and_then_def parse_json_def attempt_def ret_def write_stderr_def
      write_stdout_def eprintln_def eprint_def Let_def split: if_splits res.splits option.splits prod.splits)

lemma recv_consumes: "recv w = (w', Ok f) \<Longrightarrow> length (inp (inner (link w'))) < length (inp (inner (link w)))"
  by (auto simp: recv_def res_iff dest!: wire.recv_shorter split: prod.splits)

lemma client_loop_decreases:
  assumes "recv w = (w1, Ok f)" and "handle_frame L f w1 = (w2, r)"
  shows "length (inp (inner (link w2))) < length (inp (inner (link w)))"
  using recv_consumes [OF assms(1)] handle_frame_link [OF assms(2)] by simp

text \<open>The loop ends because every frame shortens the input that is left.\<close>

function client_loop :: "('vk, 'sk) lib \<Rightarrow> (boxed_error, int) act" where
  "client_loop L w =
     (case recv w of
        (w1, Err e) \<Rightarrow> (w1, Err e)
      | (w1, Panic) \<Rightarrow> (w1, Panic)
      | (w1, Ok f) \<Rightarrow>
          (case handle_frame L f w1 of
             (w2, Err e) \<Rightarrow> (w2, Err e)
           | (w2, Panic) \<Rightarrow> (w2, Panic)
           | (w2, Ok (Some status)) \<Rightarrow> (w2, Ok status)
           | (w2, Ok None) \<Rightarrow> client_loop L w2))"
  by pat_completeness auto
termination
  by (relation "measure (\<lambda>(L, w). length (inp (inner (link w))))")
     (auto dest!: sym [of "(_, _)"] intro: client_loop_decreases)

declare client_loop.simps [simp del]

definition use_link :: "stream \<Rightarrow> ('e, unit) act" where
  "use_link s w = (w\<lparr>link := codec_new s\<rparr>, Ok ())"

text \<open>The part of \<open>run_session\<close> that waits for the result of the authentication.\<close>

definition client_result :: "('vk, 'sk) lib \<Rightarrow> (boxed_error, unit) act" where
  "client_result L =
     and_then recv (\<lambda>f.
     if msg_type f \<noteq> AUTH_RESULT then fail (BoxMsg ''expected AuthResult'')
     else
     and_then (parse_json L de_auth_result (payload f)) (\<lambda>ar.
     if \<not> res_ok ar then fail (auth_failure L ar) else ret ()))"

text \<open>The part up to the positive result of the server.\<close>

definition client_auth :: "('vk, 'sk) lib \<Rightarrow> 'sk \<Rightarrow> (boxed_error, unit) act" where
  "client_auth L sk =
     (let fp = ed25519_fingerprint_hex L (verifying_key L sk) in
      and_then recv (\<lambda>f.
      if msg_type f \<noteq> AUTH_CHALLENGE then fail (BoxMsg ''expected AuthChallenge'')
      else
      and_then (parse_json L de_auth_challenge (payload f)) (\<lambda>ch.
      and_then (attempt (map_err BoxBase64 (of_sum (b64_decode L (ch_nonce ch))))) (\<lambda>nonce.
      let msg = signing_bytes nonce (ch_session_id ch);
          sig = sign_auth_message L sk msg in
      and_then (send AUTH_RESPONSE (json_write L (response_json fp sig))) (\<lambda>_.
      client_result L)))))"

definition client_session ::
    "('vk, 'sk) lib \<Rightarrow> 'sk \<Rightarrow> stream \<Rightarrow> path \<Rightarrow> str \<Rightarrow> (boxed_error, int) act" where
  "client_session L generated stream key_file shell_line =
     and_then (act_err BoxCore (on_disk (load_or_create_signing_key L generated key_file))) (\<lambda>sk.
     and_then (use_link stream) (\<lambda>_.
     and_then (client_auth L sk) (\<lambda>_.
     and_then (send EXEC_SHELL (json_write L (exec_json shell_line))) (\<lambda>_.
     client_loop L))))"

section \<open>Subcommands\<close>

datatype cmd =
    Run (run_port: u16) (run_host: str) (run_cmd: "str list") (run_accept_new: bool)
  | TrustProbe str
  | TrustAdd str u16 str
  | KeyFingerprint

text \<open>The result is the exit status when the program ends without an error.\<close>

definition client_main ::
    "('vk, 'sk) lib \<Rightarrow> 'sk \<Rightarrow> path option \<Rightarrow> cmd \<Rightarrow> (boxed_error, int) act" where
  "client_main L generated home_dir c =
     and_then (attempt (ok_or (BoxMsg ''no home'') home_dir)) (\<lambda>home.
     let sao_dir = path_join home ''.sao'';
         known_path = path_join sao_dir ''known_hosts'';
         key_file = path_join (path_join sao_dir ''keys'') ''agent.ed25519'' in
     case c of
       TrustAdd host port hex_fp \<Rightarrow>
         and_then (from_disk (\<lambda>d. map_err BoxCore (known_hosts_load (uni_lower L) d known_path))) (\<lambda>kh.
         let (kh', r) = insert_hex (uni_lower L) host port hex_fp kh in
         and_then (attempt (map_err BoxCore r)) (\<lambda>_.
         and_then (act_err BoxCore (on_disk (known_hosts_save L kh' known_path))) (\<lambda>_.
         and_then (eprintln (''pinned '' @ host_port host port)) (\<lambda>_. ret 0))))
     | TrustProbe addr \<Rightarrow>
         and_then (attempt (map_err BoxMsg (parse_addr addr))) (\<lambda>(host, port).
         and_then (act_err BoxIo (connect_probe host port)) (\<lambda>der.
         and_then (attempt (map_err BoxCore (spki_sha256_hex_from_cert_der L der))) (\<lambda>fp.
         and_then (println fp) (\<lambda>_.
         and_then (eprintln (''If correct: sao trust add '' @ host @ '' '' @ show_u16 port @ '' '' @ fp)) (\<lambda>_.
         ret 0)))))
     | KeyFingerprint \<Rightarrow>
         and_then (act_err BoxCore (on_disk (load_or_create_signing_key L generated key_file))) (\<lambda>sk.
         and_then (println (ed25519_fingerprint_hex L (verifying_key L sk))) (\<lambda>_.
         and_then (eprintln (''Keys: '' @ path_display key_file @ '' and '' @
                path_display (public_key_path key_file))) (\<lambda>_.
         and_then (eprintln (''Append the non-comment line from the .pub file to the server'' @ [CHR 0x27] @
                ''s authorized_keys.'')) (\<lambda>_. ret 0))))
     | Run port host cmd accept_new \<Rightarrow>
         let shell_line = join '' '' cmd in
         and_then (connect_with_pin_management L host port known_path accept_new) (\<lambda>tls.
         client_session L generated tls key_file shell_line))"

end
