(* ===== verification/Session.thy ===== *)
theory Session
  imports Codec_Facts Authorized_Keys Config
begin

text \<open>
  One client session of the server (\<open>sao-server/src/session.rs\<close>): authentication, then a loop that runs
  shell commands.

  What the outside world does is an argument. The nonce and the session identifier come from the random
  source. For each command an \<open>exec_run\<close> says what the operating system and the clock did: the result of
  spawning, the chunks that the channel delivered in order, and how the command ended, which includes
  the point at which the deadline cut the \<open>exec\<close> future off. That these chunks are what the two reader
  tasks and the channel produce is the subject of theory \<open>Exec_Steps\<close>.
\<close>

section \<open>Messages\<close>

record auth_response =
  ar_key_type :: str
  ar_fingerprint :: str
  ar_signature :: str

record auth_challenge_payload =
  acp_nonce :: str
  acp_session_id :: str

definition payload_json :: "auth_challenge_payload \<Rightarrow> json" where
  [simp]: "payload_json p = JObj [(''nonce'', JStr (acp_nonce p)), (''session_id'', JStr (acp_session_id p))]"

definition challenge_json :: "('vk, 'sk) lib \<Rightarrow> bytes \<Rightarrow> str \<Rightarrow> json" where
  "challenge_json L nonce sid = payload_json \<lparr>acp_nonce = b64_encode L nonce, acp_session_id = sid\<rparr>"

text \<open>A derived \<open>Deserialize\<close> takes an object, or an array with the fields in order.\<close>

definition de_auth_response :: "json \<Rightarrow> auth_response option" where
  "de_auth_response j =
     (case (case j of
          JObj kvs \<Rightarrow> (required de_string ''key_type'' kvs, required de_string ''fingerprint'' kvs,
                       required de_string ''signature'' kvs)
        | JArr [a, b, c] \<Rightarrow> (de_string a, de_string b, de_string c)
        | _ \<Rightarrow> (None, None, None)) of
        (Some kt, Some fp, Some sg) \<Rightarrow>
          Some \<lparr>ar_key_type = kt, ar_fingerprint = fp, ar_signature = sg\<rparr>
      | _ \<Rightarrow> None)"

definition de_exec_shell :: "json \<Rightarrow> str option" where
  "de_exec_shell j =
     (case j of
        JObj kvs \<Rightarrow> required de_string ''shell'' kvs
      | JArr [a] \<Rightarrow> de_string a
      | _ \<Rightarrow> None)"

definition from_slice :: "('vk, 'sk) lib \<Rightarrow> (json \<Rightarrow> 'a option) \<Rightarrow> bytes \<Rightarrow> 'a option" where
  "from_slice L de bs = Option.bind (json_read L bs) de"

text \<open>\<open>json!\<close> objects keep their members sorted by name.\<close>

definition error_json :: "str \<Rightarrow> str \<Rightarrow> json" where
  "error_json ecode message = JObj [(''code'', JStr ecode), (''message'', JStr message)]"

definition auth_fail_json :: "str \<Rightarrow> str \<Rightarrow> json" where
  "auth_fail_json reason message =
     JObj [(''message'', JStr message), (''ok'', JBool False), (''reason'', JStr reason)]"

definition auth_ok_json :: "str option \<Rightarrow> str \<Rightarrow> json" where
  "auth_ok_json agent_name policy_group =
     JObj [(''agent_name'', case agent_name of None \<Rightarrow> JNull | Some n \<Rightarrow> JStr n), (''ok'', JBool True),
           (''policy_group'', JStr policy_group)]"

definition policy_denied_json :: "str \<Rightarrow> json" where
  "policy_denied_json msg =
     JObj [(''code'', JStr ''POLICY_DENIED''), (''message'', JStr msg), (''rule_id'', JNull)]"

definition data_json :: "('vk, 'sk) lib \<Rightarrow> bytes \<Rightarrow> json" where
  "data_json L b = JObj [(''data'', JStr (b64_encode L b))]"

definition exit_json :: "int \<Rightarrow> json" where
  "exit_json ecode = JObj [(''exit_code'', JInt ecode), (''signal'', JNull)]"

definition send_json :: "('vk, 'sk) lib \<Rightarrow> u8 \<Rightarrow> json \<Rightarrow> codec \<Rightarrow> codec \<times> (boxed_error, unit) res" where
  "send_json L t j c = (case write_frame t (json_write L j) c of (c', r) \<Rightarrow> (c', map_err BoxProtocol r))"

definition send_error ::
    "('vk, 'sk) lib \<Rightarrow> str \<Rightarrow> str \<Rightarrow> codec \<Rightarrow> codec \<times> (boxed_error, unit) res" where
  "send_error L ecode message c = send_json L ERROR (error_json ecode message) c"

definition send_auth_fail ::
    "('vk, 'sk) lib \<Rightarrow> str \<Rightarrow> str \<Rightarrow> codec \<Rightarrow> codec \<times> (boxed_error, unit) res" where
  "send_auth_fail L reason message c = send_json L AUTH_RESULT (auth_fail_json reason message) c"

section \<open>Running one command\<close>

datatype stream_chunk = ChunkOut bytes | ChunkErr bytes

text \<open>
  How the \<open>exec\<close> future ended: \<open>Exited\<close> is the result of \<open>child.wait()\<close> with the exit code, which a
  killed process does not have. The other cases are the deadline: while the future waits, after some
  bytes of the frame of a chunk, and after some bytes of the final frame, with the child already waited
  for.
\<close>

datatype exec_ending =
    Exited "io_error + int option"
  | DeadlineWaiting
  | DeadlineWriting stream_chunk nat
  | DeadlineExit "int option" nat

record exec_run =
  spawned :: "io_error + u32 option"
  chunks :: "stream_chunk list"
  ending :: exec_ending

text \<open>What the server does to processes; \<open>DropKill\<close> is \<open>kill_on_drop\<close> of a child nobody waited for.\<close>

datatype action = Spawn str "str list" | Reap | Kill u32 | DropKill

fun chunk_frame :: "('vk, 'sk) lib \<Rightarrow> stream_chunk \<Rightarrow> frame" where
  "chunk_frame L (ChunkOut b) = \<lparr>msg_type = STREAM_STDOUT, payload = json_write L (data_json L b)\<rparr>"
| "chunk_frame L (ChunkErr b) = \<lparr>msg_type = STREAM_STDERR, payload = json_write L (data_json L b)\<rparr>"

definition exit_frame :: "('vk, 'sk) lib \<Rightarrow> int \<Rightarrow> frame" where
  "exit_frame L ecode = \<lparr>msg_type = EXEC_EXIT, payload = json_write L (exit_json ecode)\<rparr>"

definition exit_code_of :: "int option \<Rightarrow> int" where
  "exit_code_of status = (case status of None \<Rightarrow> -1 | Some ecode \<Rightarrow> ecode)"

text \<open>A call of \<open>write_frame\<close> that is dropped after \<open>n\<close> of its bytes went out.\<close>

definition write_cut :: "frame \<Rightarrow> nat \<Rightarrow> codec \<Rightarrow> codec" where
  "write_cut f n c =
     (if length (payload f) > codec_limit c then c
      else c\<lparr>inner := fst (write_all (take n (frame_enc f)) (inner c))\<rparr>)"

fun send_chunks ::
    "('vk, 'sk) lib \<Rightarrow> stream_chunk list \<Rightarrow> codec \<Rightarrow> codec \<times> (boxed_error, unit) res" where
  "send_chunks L [] c = (c, Ok ())"
| "send_chunks L (ch # chs) c =
     (case write_frame (msg_type (chunk_frame L ch)) (payload (chunk_frame L ch)) c of
        (c', Ok _) \<Rightarrow> send_chunks L chs c'
      | (c', Err e) \<Rightarrow> (c', Err (BoxProtocol e))
      | (c', Panic) \<Rightarrow> (c', Panic))"

text \<open>The \<open>exec\<close> future; no result means that the deadline came first.\<close>

definition exec_future ::
    "('vk, 'sk) lib \<Rightarrow> exec_run \<Rightarrow> codec \<Rightarrow> codec \<times> action list \<times> (boxed_error, unit) res option" where
  "exec_future L run c =
     (case send_chunks L (chunks run) c of
        (c1, Err e) \<Rightarrow> (c1, [], Some (Err e))
      | (c1, Panic) \<Rightarrow> (c1, [], Some Panic)
      | (c1, Ok _) \<Rightarrow>
          (case ending run of
             Exited (Inl e) \<Rightarrow> (c1, [], Some (Err (BoxIo e)))
           | Exited (Inr status) \<Rightarrow>
               (case send_json L EXEC_EXIT (exit_json (exit_code_of status)) c1 of
                  (c2, r) \<Rightarrow> (c2, [Reap], Some r))
           | DeadlineWaiting \<Rightarrow> (c1, [], None)
           | DeadlineWriting ch n \<Rightarrow> (write_cut (chunk_frame L ch) n c1, [], None)
           | DeadlineExit status n \<Rightarrow> (write_cut (exit_frame L (exit_code_of status)) n c1, [Reap], None)))"

definition exec_timeout :: "server_config \<Rightarrow> u64" where
  "exec_timeout cfg = max (exec_timeout_secs cfg) 1"

text \<open>The child is dropped when the function returns.\<close>

definition drop_child :: "action list \<Rightarrow> action list" where
  "drop_child acts = (if Reap \<in> set acts then [] else [DropKill])"

definition run_one_exec ::
    "('vk, 'sk) lib \<Rightarrow> server_config \<Rightarrow> exec_run \<Rightarrow> str \<Rightarrow> codec \<Rightarrow>
     codec \<times> action list \<times> (boxed_error, unit) res" where
  "run_one_exec L cfg run shell c =
     (case check_shell (uni_debug L) (policy cfg) shell of
        Err (PolicyDenied msg) \<Rightarrow>
          (case send_json L POLICY_DENIED (policy_denied_json msg) c of (c1, r) \<Rightarrow> (c1, [], r))
      | Panic \<Rightarrow> (c, [], Panic)
      | _ \<Rightarrow>
          (if length (shell_argv cfg) < 2
           then (c, [], Err (BoxMsg ''shell_argv must have at least [program, -lc]''))
           else
             let prog = shell_argv cfg ! 0;
                 args = tl (shell_argv cfg) @ [shell] in
             case spawned run of
               Inl e \<Rightarrow> (c, [], Err (BoxIo e))
             | Inr pid \<Rightarrow>
                 (case exec_future L run c of
                    (c1, acts, Some r) \<Rightarrow> (c1, Spawn prog args # acts @ drop_child acts, r)
                  | (c1, acts, None) \<Rightarrow>
                      let kill = (case pid of None \<Rightarrow> [] | Some p \<Rightarrow> [Kill p]) in
                      (case send_json L EXEC_EXIT (exit_json 124) c1 of
                         (c2, r) \<Rightarrow> (c2, Spawn prog args # acts @ kill @ drop_child acts, r)))))"

section \<open>The session\<close>

record session_env =
  nonce :: bytes
  session_id :: str
  runs :: "nat \<Rightarrow> exec_run"

text \<open>The first part of \<open>run_session\<close>; \<open>Ok None\<close> is one of its early returns.\<close>

definition session_auth ::
    "('vk, 'sk) lib \<Rightarrow> fs \<Rightarrow> server_config \<Rightarrow> session_env \<Rightarrow> codec \<Rightarrow>
     codec \<times> (boxed_error, 'vk authorized_key option) res" where
  "session_auth L w cfg env c =
     (case map_err (\<lambda>e. BoxMsg (''authorized_keys: '' @ core_error_display e))
             (load_authorized_keys L w (authorized_keys_path cfg)) of
        Err e \<Rightarrow> (c, Err e)
      | Panic \<Rightarrow> (c, Panic)
      | Ok keys \<Rightarrow>
     (case send_json L AUTH_CHALLENGE (challenge_json L (nonce env) (session_id env)) c of
        (c1, Err e) \<Rightarrow> (c1, Err e)
      | (c1, Panic) \<Rightarrow> (c1, Panic)
      | (c1, Ok _) \<Rightarrow>
     (case read_frame c1 of
        (c2, Err e) \<Rightarrow> (c2, Err (BoxProtocol e))
      | (c2, Panic) \<Rightarrow> (c2, Panic)
      | (c2, Ok resp) \<Rightarrow>
          if msg_type resp \<noteq> AUTH_RESPONSE
          then (case send_error L ''EXPECTED_AUTH_RESPONSE'' ''expected AuthResponse'' c2 of
                  (c3, r) \<Rightarrow> (c3, map_ok (\<lambda>_. None) r))
          else
     (case from_slice L de_auth_response (payload resp) of
        None \<Rightarrow> (c2, Err BoxJson)
      | Some ar \<Rightarrow>
          if ar_key_type ar \<noteq> KEY_TYPE_ED25519
          then (case send_auth_fail L ''UNSUPPORTED_KEY_TYPE'' ''only sao-ed25519'' c2 of
                  (c3, r) \<Rightarrow> (c3, map_ok (\<lambda>_. None) r))
          else
            let msg = signing_bytes (nonce env) (session_id env) in
     (case find_key L keys (ar_fingerprint ar) of
        None \<Rightarrow>
          (case send_auth_fail L ''UNKNOWN_KEY'' ''fingerprint not in authorized_keys'' c2 of
             (c3, r) \<Rightarrow> (c3, map_ok (\<lambda>_. None) r))
      | Some entry \<Rightarrow>
     (case verify_ed25519_signature L (vk_of entry) msg (ar_signature ar) of
        Err e \<Rightarrow>
          (case send_auth_fail L ''BAD_SIGNATURE'' (core_error_display e) c2 of
             (c3, r) \<Rightarrow> (c3, map_ok (\<lambda>_. None) r))
      | Panic \<Rightarrow> (c2, Panic)
      | Ok _ \<Rightarrow>
          let policy_group =
                (case policy_group_by_fingerprint cfg (to_lowercase (uni_lower L) (fingerprint_hex entry)) of
                   None \<Rightarrow> policy_group_default cfg | Some g \<Rightarrow> g);
              agent_name = (if comment entry = [] then None else Some (comment entry)) in
          (case send_json L AUTH_RESULT (auth_ok_json agent_name policy_group) c2 of
             (c3, r) \<Rightarrow> (c3, map_ok (\<lambda>_. Some entry) r))))))))"

lemma send_json_rest:
  "send_json L t j c = (c', r) \<Longrightarrow>
   inp (inner c') = inp (inner c) \<and> inp_end (inner c') = inp_end (inner c) \<and> codec_limit c' = codec_limit c"
  by (auto simp: send_json_def codec_limit_def dest!: write_frame_rest split: prod.splits)

lemma write_cut_rest [simp]:
  "inp (inner (write_cut f n c)) = inp (inner c)" "inp_end (inner (write_cut f n c)) = inp_end (inner c)"
  "codec_limit (write_cut f n c) = codec_limit c"
  using write_all_frame [OF prod.collapse [symmetric], of "take n (frame_enc f)" "inner c"]
  by (simp_all add: write_cut_def codec_limit_def)

lemma send_chunks_rest:
  "send_chunks L chs c = (c', r) \<Longrightarrow>
   inp (inner c') = inp (inner c) \<and> inp_end (inner c') = inp_end (inner c) \<and> codec_limit c' = codec_limit c"
  by (induction chs arbitrary: c)
     (fastforce simp: codec_limit_def dest: write_frame_rest split: prod.splits res.splits)+

lemma exec_future_rest:
  "exec_future L run c = (c', as, r) \<Longrightarrow>
   inp (inner c') = inp (inner c) \<and> inp_end (inner c') = inp_end (inner c) \<and> codec_limit c' = codec_limit c"
  by (auto simp: exec_future_def dest!: send_chunks_rest send_json_rest
      split: prod.splits res.splits exec_ending.splits sum.splits)

lemma run_one_exec_rest:
  "run_one_exec L cfg run shell c = (c', as, r) \<Longrightarrow>
   inp (inner c') = inp (inner c) \<and> inp_end (inner c') = inp_end (inner c) \<and> codec_limit c' = codec_limit c"
  by (auto simp: run_one_exec_def Let_def dest!: exec_future_rest send_json_rest
      split: prod.splits res.splits core_error.splits if_splits sum.splits option.splits)

text \<open>
  The loop of \<open>run_session\<close> ends because every frame that is read shortens the input that is left,
  and running a command does not read.
\<close>

lemma exec_loop_decreases:
  assumes "(c1, Ok f) = read_frame c" and "(c2, acts, r) = run_one_exec L cfg run shell c1"
  shows "length (inp (inner c2)) < length (inp (inner c))"
  using wire.recv_shorter [OF assms(1) [symmetric]] run_one_exec_rest [OF assms(2) [symmetric]] by simp

function exec_loop ::
    "('vk, 'sk) lib \<Rightarrow> server_config \<Rightarrow> (nat \<Rightarrow> exec_run) \<Rightarrow> nat \<Rightarrow> codec \<Rightarrow>
     codec \<times> action list \<times> (boxed_error, unit) res" where
  "exec_loop L cfg rs i c =
     (case read_frame c of
        (c1, Err e) \<Rightarrow> if e = UnexpectedEof then (c1, [], Ok ()) else (c1, [], Err (BoxProtocol e))
      | (c1, Panic) \<Rightarrow> (c1, [], Panic)
      | (c1, Ok f) \<Rightarrow>
          if msg_type f = EXEC_SHELL
          then (case from_slice L de_exec_shell (payload f) of
              None \<Rightarrow> (c1, [], Err BoxJson)
            | Some shell \<Rightarrow>
                (case run_one_exec L cfg (rs i) shell c1 of
                   (c2, acts, Err e) \<Rightarrow> (c2, acts, Err e)
                 | (c2, acts, Panic) \<Rightarrow> (c2, acts, Panic)
                 | (c2, acts, Ok _) \<Rightarrow>
                     (case exec_loop L cfg rs (Suc i) c2 of
                        (c3, acts', r) \<Rightarrow> (c3, acts @ acts', r))))
          else (case send_error L ''UNKNOWN_MSG_TYPE'' ''only ExecShell allowed after auth'' c1 of
                  (c2, r) \<Rightarrow> (c2, [], r)))"
  by pat_completeness auto
termination
  by (relation "measure (\<lambda>(L, cfg, rs, i, c). length (inp (inner c)))")
     (auto intro: exec_loop_decreases)

declare exec_loop.simps [simp del]

definition run_session ::
    "('vk, 'sk) lib \<Rightarrow> fs \<Rightarrow> server_config \<Rightarrow> session_env \<Rightarrow> codec \<Rightarrow>
     codec \<times> action list \<times> (boxed_error, unit) res" where
  "run_session L w cfg env c =
     (case session_auth L w cfg env c of
        (c1, Err e) \<Rightarrow> (c1, [], Err e)
      | (c1, Panic) \<Rightarrow> (c1, [], Panic)
      | (c1, Ok None) \<Rightarrow> (c1, [], Ok ())
      | (c1, Ok (Some entry)) \<Rightarrow> exec_loop L cfg (runs env) 0 c1)"

end
