(* ===== verification/Keys_Props.thy ===== *)
theory Keys_Props
  imports Agent_Key Demo_Library
begin

text \<open>
  Agent identity: what the client writes about its key, what the server reads from it, and that a
  signature made with the key is accepted by the entry. Also the signed message and the life of the key
  file.
\<close>

section \<open>The public line of an agent\<close>

text \<open>The entry the server should have for an agent with signing key \<open>sk\<close>.\<close>

definition agent_entry :: "('vk, 'sk) lib \<Rightarrow> 'sk \<Rightarrow> 'vk authorized_key" where
  "agent_entry L sk =
     \<lparr>key_type = KEY_TYPE_ED25519, vk_of = verifying_key L sk,
      fingerprint_hex = ed25519_fingerprint_hex L (verifying_key L sk), comment = ''agent''\<rparr>"

definition pub_comment :: str where
  "pub_comment = ''# Append this line to the server'' @ [CHR 0x27] @ ''s authorized_keys file.''"

lemma pub_comment_skipped: "key_line L n pub_comment = Ok None"
proof -
  have "graphic CHR ''#''" "graphic CHR ''.''" by (simp_all add: graphic_def code_def)
  then have "trim pub_comment = pub_comment"
    by (intro trim_graphic_end) (simp_all add: pub_comment_def ws_len_graphic)
  then show ?thesis
    by (simp add: key_line_def Let_def starts_with_def pub_comment_def)
qed

lemma KEY_TYPE_nonempty [simp]: "KEY_TYPE_ED25519 \<noteq> []"
  by (simp add: KEY_TYPE_ED25519_def)

lemma public_line_read:
  assumes "b64_spec L" and "vk_spec L"
  shows "key_line L n (public_line L sk) = Ok (Some (agent_entry L sk))"
proof -
  let ?vk = "verifying_key L sk"
  let ?b = "b64_encode L (vk_to_bytes L ?vk)"
  from assms(2) have vk: "length (vk_to_bytes L ?vk) = 32" "vk_from_bytes L (vk_to_bytes L ?vk) = Inr ?vk"
    by (auto simp: vk_spec_def)
  then have "vk_to_bytes L ?vk \<noteq> []" by auto
  with assms(1) have b: "list_all graphic ?b" "?b \<noteq> []" "b64_decode L ?b = Inr (vk_to_bytes L ?vk)"
    by (auto simp: b64_text)
  have eq: "public_line L sk = KEY_TYPE_ED25519 @ CHR 0x20 # ?b @ CHR 0x20 # ''agent''"
    by (simp add: public_line_def)
  have ends: "graphic CHR ''s''" "graphic CHR ''t''" by (simp_all add: graphic_def code_def)
  then have "trim (public_line L sk) = public_line L sk"
    by (intro trim_graphic_end) (simp_all add: eq KEY_TYPE_ED25519_def ws_len_graphic)
  moreover have "\<not> starts_with (public_line L sk) ''#''" "public_line L sk \<noteq> []"
    by (simp_all add: eq KEY_TYPE_ED25519_def starts_with_def)
  moreover have "split_whitespace (public_line L sk) = [KEY_TYPE_ED25519, ?b, ''agent'']"
    using b graphic_literals(2) split_whitespace_one [OF no_ws_graphic [OF graphic_literals(3)]]
    by (simp add: eq split_whitespace_space no_ws_graphic)
  ultimately show ?thesis
    using vk b by (simp add: key_line_def Let_def agent_entry_def)
qed

lemma lines_public_bodies:
  assumes "b64_spec L"
  shows "lines (concat (map (public_body L) sks)) = concat (map (\<lambda>sk. [pub_comment, public_line L sk]) sks)"
proof (induction sks)
  case Nil
  then show ?case by simp
next
  case (Cons sk sks)
  let ?b = "b64_encode L (vk_to_bytes L (verifying_key L sk))"
  have b: "nl \<notin> set ?b"
    using b64_text(2) [OF assms] by (rule graphic_not_nl)
  have "nl \<notin> set pub_comment" "nl \<notin> set (public_line L sk)"
    using b by (simp_all add: pub_comment_def public_line_def KEY_TYPE_ED25519_def)
  moreover have "strip_cr pub_comment = pub_comment" "strip_cr (public_line L sk) = public_line L sk"
    by (simp_all add: strip_cr_def pub_comment_def public_line_def)
  moreover have "public_body L sk @ r = pub_comment @ nl # public_line L sk @ nl # r" for r
    by (simp add: public_body_def pub_comment_def)
  ultimately show ?case using Cons by (simp add: lines_Cons_nl)
qed

lemma load_public_lines:
  assumes "b64_spec L" and "vk_spec L"
  shows "load_key_lines L n (concat (map (\<lambda>sk. [pub_comment, public_line L sk]) sks)) out
    = Ok (out @ map (agent_entry L) sks)"
  by (induction sks arbitrary: n out) (simp_all add: pub_comment_skipped public_line_read assms)

lemma agents_load:
  assumes "b64_spec L" and "vk_spec L" and "sks \<noteq> []"
    and "read_to_string w p = Ok (concat (map (public_body L) sks))"
  shows "load_authorized_keys L w p = Ok (map (agent_entry L) sks)"
  using assms
  by (simp add: load_authorized_keys_def lines_public_bodies load_public_lines)

section \<open>Properties\<close>

text \<open>
  C31. Loading \<open>authorized_keys\<close> is safe for every file content: it never panics (the \<open>unwrap\<close> of the
  first token cannot fail on a trimmed line that is not empty), and when it succeeds the list is not
  empty and every entry has the supported key type, a verifying key that the signature library
  accepted from exactly 32 bytes, and the fingerprint of that key.
\<close>

theorem load_authorized_keys_safe:
  "case load_authorized_keys L w p of
     Ok keys \<Rightarrow> keys \<noteq> [] \<and> list_all (\<lambda>k. key_type k = KEY_TYPE_ED25519 \<and>
       fingerprint_hex k = hex_encode L (sha256 L (vk_to_bytes L (vk_of k))) \<and>
       (\<exists>raw. length raw = 32 \<and> vk_from_bytes L raw = Inr (vk_of k))) keys
   | Err e \<Rightarrow> True
   | Panic \<Rightarrow> False"
proof (cases "load_authorized_keys L w p")
  case (Ok keys)
  then show ?thesis
    by (auto simp: list_all_iff key_ok_def ed25519_fingerprint_hex_def dest: load_authorized_keys_Ok)
next
  case (Err e)
  then show ?thesis by simp
next
  case Panic
  then show ?thesis
    by (auto simp: load_authorized_keys_def res_iff load_key_lines_not_Panic split: if_splits)
qed

text \<open>
  C32. Registration round trip. If \<open>authorized_keys\<close> consists of the public files that any number of
  agents wrote with \<open>write_agent_public_key_file\<close>, appended one after the other, then the server loads
  exactly one entry for each agent, in order, with the agent's verifying key and fingerprint.
\<close>

theorem registered_agents_load:
  assumes "b64_spec L" and "vk_spec L" and "sks \<noteq> []"
    and "read_to_string w p = Ok (concat (map (public_body L) sks))"
  shows "load_authorized_keys L w p = Ok (map (agent_entry L) sks)"
  using assms by (rule agents_load)

lemma public_body_ascii: "b64_spec L \<Longrightarrow> list_all is_ascii (public_body L sk)"
  using graphic_utf8 [OF b64_text(2) [of L "vk_to_bytes L (verifying_key L sk)"]]
  by (simp add: public_body_def public_line_def KEY_TYPE_ED25519_def is_ascii_def code_def)

definition demo_keys_path :: path where
  "demo_keys_path = \<lparr>rooted = True, comps = [''authorized_keys'']\<rparr>"

theorem registered_agents_load_witness:
  "load_authorized_keys (demo_lib [])
     (demo_fs demo_keys_path (public_body (demo_lib []) 7 @ public_body (demo_lib []) 9)) demo_keys_path
   = Ok [agent_entry (demo_lib []) 7, agent_entry (demo_lib []) 9]"
proof -
  let ?L = "demo_lib []"
  have "utf8_valid (public_body ?L 7 @ public_body ?L 9)"
    by (intro ascii_utf8_valid) (simp add: public_body_ascii)
  then have "read_to_string (demo_fs demo_keys_path (public_body ?L 7 @ public_body ?L 9)) demo_keys_path =
    Ok (concat (map (public_body ?L) [7, 9]))"
    by (simp add: read_to_string_def demo_fs_def)
  from registered_agents_load [OF demo_b64 demo_specs(3) _ this] show ?thesis by simp
qed

text \<open>
  Completeness of authentication. For a registered agent, the lookup with the fingerprint that the
  agent sends finds an entry, and if no other registered key has the same digest, the signature the
  agent makes over any message verifies under the key of that entry.
\<close>

theorem registered_agent_verifies:
  assumes "hex_spec L" and "b64_spec L" and "sign_spec L"
    and "sk \<in> set sks"
    and "\<forall>sk' \<in> set sks. sha256 L (vk_to_bytes L (verifying_key L sk'))
        = sha256 L (vk_to_bytes L (verifying_key L sk)) \<longrightarrow> verifying_key L sk' = verifying_key L sk"
  shows "\<exists>k. find_key L (map (agent_entry L) sks) (ed25519_fingerprint_hex L (verifying_key L sk)) = Some k \<and>
    vk_of k = verifying_key L sk \<and>
    verify_ed25519_signature L (vk_of k) msg (sign_auth_message L sk msg) = Ok ()"
proof -
  let ?fp = "ed25519_fingerprint_hex L (verifying_key L sk)"
  have "list_all graphic ?fp" "to_lowercase (uni_lower L) ?fp = ?fp"
    using assms(1) by (simp_all add: ed25519_fingerprint_hex_def hex_text(2) hex_to_lowercase)
  then have f: "to_lowercase (uni_lower L) (trim ?fp) = ?fp"
    by (simp add: trim_graphic)
  have "agent_entry L sk \<in> set (map (agent_entry L) sks)" "fingerprint_hex (agent_entry L sk) = ?fp"
    using assms(4) by (auto simp: agent_entry_def)
  then have "find_key L (map (agent_entry L) sks) ?fp \<noteq> None"
    unfolding find_key_def Let_def f find_None_iff by blast
  then obtain k where k: "find_key L (map (agent_entry L) sks) ?fp = Some k" by blast
  from find_key_Some [OF k] f obtain sk' where sk': "sk' \<in> set sks" "k = agent_entry L sk'"
    "fingerprint_hex k = ?fp" by auto
  have "sha256 L (vk_to_bytes L (verifying_key L sk')) = sha256 L (vk_to_bytes L (verifying_key L sk))"
    using sk'(2,3) assms(1) by (simp add: agent_entry_def ed25519_fingerprint_hex_def hex_encode_inject)
  with assms(5) sk'(1,2) have "vk_of k = verifying_key L sk" by (simp add: agent_entry_def)
  with k assms(2,3) show ?thesis
    by (auto simp: verify_Ok_iff sign_auth_message_def b64_text sign_spec_def)
qed

lemma pad_eq_replicate: "pad 32 (replicate 32 b) = replicate 32 b"
  by (simp add: pad_def)

theorem registered_agent_verifies_witness:
  "\<exists>k. find_key (demo_lib []) (map (agent_entry (demo_lib [])) [7, 9])
      (ed25519_fingerprint_hex (demo_lib []) 9) = Some k \<and> vk_of k = 9 \<and>
    verify_ed25519_signature (demo_lib []) (vk_of k) [1, 2]
      (sign_auth_message (demo_lib []) 9 [1, 2]) = Ok ()"
  using registered_agent_verifies [of "demo_lib []" 9 "[7, 9]" "[1, 2]"]
  by (simp add: pad_eq_replicate)

text \<open>
  The signed message binds nonce and session: for nonces of the same length (the server's are
  always 32 bytes) two different challenges never have the same message to be signed.
\<close>

theorem signing_bytes_injective:
  assumes "signing_bytes n s = signing_bytes n' s'" and "length n = length n'"
  shows "n = n' \<and> s = s'"
  using assms by (simp add: signing_bytes_def)

theorem signing_bytes_injective_witness:
  "signing_bytes (replicate 32 1) ''a'' \<noteq> signing_bytes (replicate 32 1) ''b''"
  using signing_bytes_injective [of "replicate 32 1" "''a''" "replicate 32 1" "''b''"] by auto

text \<open>Without the length the boundary between nonce and session identifier is not determined.\<close>

lemma signing_bytes_ambiguous:
  "signing_bytes (as_bytes ''ab'') ''c'' = signing_bytes (as_bytes ''a'') ''bc''"
  by (simp add: signing_bytes_def as_bytes_def)

lemma same_key_again:
  assumes "b64_spec L" and "sk_spec L"
    and "file_name p = Some n" and "CHR ''/'' \<notin> set n"
    and "fault w (OpRead p) = None"
    and "load_or_create_signing_key L g p w = (w1, Ok key)"
    and "load_or_create_signing_key L g' p w1 = (w2, r)" and "is_ok r"
  shows "r = Ok key \<and> files w2 = files w1"
proof -
  have diff: "p \<noteq> public_key_path p"
    using public_key_path_differs [OF assms(3,4)] by simp
  from assms(8) obtain key' where r: "r = Ok key'" by (cases r) auto
  note first = load_or_create_Ok [OF assms(6)]
  have "fs_exists w1 p \<and> (\<exists>s. read_to_string w1 p = Ok s \<and> key_from_lines L (lines s) = Ok (Some key)) \<and>
    files w1 (public_key_path p) = Some (public_body L key)"
  proof (cases "fs_exists w p")
    case True
    with first obtain s where "read_to_string w p = Ok s" "key_from_lines L (lines s) = Ok (Some key)"
      "files w1 = (files w)(public_key_path p \<mapsto> public_body L key)" "fault w1 = fault w" by auto
    with diff show ?thesis by (auto simp: read_to_string_Ok fs_exists_def)
  next
    case False
    with first have f: "key = g" "fault w1 = fault w"
      "files w1 = (files w)(p \<mapsto> private_body L g, public_key_path p \<mapsto> public_body L key)" by auto
    then have "read_to_string w1 p = Ok (private_body L g)"
      using diff assms(1,5) by (simp add: read_to_string_Ok private_body_utf8)
    with f diff key_from_private_body [OF assms(1,2), of g] show ?thesis
      using assms(5) by (auto simp: fs_exists_def)
  qed
  moreover have "load_or_create_signing_key L g' p w1 = (w2, Ok key')"
    using assms(7) r by simp
  ultimately have "key' = key" "files w2 = (files w1)(public_key_path p \<mapsto> public_body L key)"
    "files w1 (public_key_path p) = Some (public_body L key)"
    using load_or_create_Ok [of L g' p w1 w2 key'] by auto
  with r show ?thesis by (simp add: fun_upd_idem)
qed

text \<open>
  C29. The agent's identity is stable. After a call of \<open>load_or_create_signing_key\<close> that created or
  loaded the key, a later call on the resulting file system (whatever key the random source would
  generate then) returns the same key and leaves the contents of all files as they are.
\<close>

theorem signing_key_stable:
  assumes "b64_spec L" and "sk_spec L"
    and "file_name p = Some n" and "CHR ''/'' \<notin> set n"
    and "fault w (OpRead p) = None"
    and "load_or_create_signing_key L g p w = (w1, Ok key)"
    and "load_or_create_signing_key L g' p w1 = (w2, r)" and "is_ok r"
  shows "r = Ok key \<and> files w2 = files w1"
  using assms by (rule same_key_again)

definition demo_key_path :: path where
  "demo_key_path = \<lparr>rooted = True, comps = [''keys'', ''agent'']\<rparr>"

lemma demo_public_path: "public_key_path demo_key_path = \<lparr>rooted = True, comps = [''keys'', ''agent.pub'']\<rparr>"
  by (subst public_key_path_name [of _ "''agent''"]) (simp_all add: demo_key_path_def file_name_def)

lemma demo_load_first:
  "\<exists>w1. load_or_create_signing_key (demo_lib docs) k demo_key_path demo_empty_fs = (w1, Ok k) \<and>
     load_or_create_signing_key (demo_lib docs) k' demo_key_path w1 = (w1, Ok k)"
proof -
  let ?dirs = "\<lambda>q. is_ancestor q \<lparr>rooted = True, comps = [''keys'']\<rparr>"
  let ?w1 = "\<lparr>files = (\<lambda>_. None)(demo_key_path \<mapsto> private_body (demo_lib docs) k,
    public_key_path demo_key_path \<mapsto> public_body (demo_lib docs) k), dirs = ?dirs, fault = (\<lambda>_. None)\<rparr>"
  have mk: "create_dir_all \<lparr>rooted = True, comps = [''keys'']\<rparr> w =
      (w\<lparr>dirs := (\<lambda>q. dirs w q \<or> ?dirs q)\<rparr>, Ok ())"
    if "files w \<lparr>rooted = True, comps = []\<rparr> = None" "files w \<lparr>rooted = True, comps = [''keys'']\<rparr> = None"
      "fault w = (\<lambda>_. None)" for w
    using that by (simp add: create_dir_all_def path_empty_def upt_rec)
  have par: "path_parent demo_key_path = Some \<lparr>rooted = True, comps = [''keys'']\<rparr>"
    "path_parent \<lparr>rooted = True, comps = [''keys'', ''agent.pub'']\<rparr> = Some \<lparr>rooted = True, comps = [''keys'']\<rparr>"
    by (simp_all add: path_parent_def demo_key_path_def)
  have nd: "\<not> ?dirs demo_key_path" "\<not> ?dirs \<lparr>rooted = True, comps = [''keys'', ''agent.pub'']\<rparr>"
    "?dirs \<lparr>rooted = True, comps = [''keys'']\<rparr>"
    by (simp_all add: is_ancestor_def demo_key_path_def)
  have take_keys: "\<lparr>rooted = True, comps = []\<rparr> \<noteq> demo_key_path"
    "\<lparr>rooted = True, comps = [''keys'']\<rparr> \<noteq> demo_key_path"
    by (simp_all add: demo_key_path_def)
  have 1: "load_or_create_signing_key (demo_lib docs) k demo_key_path demo_empty_fs = (?w1, Ok k)"
    using nd
    by (simp add: load_or_create_signing_key_def write_agent_public_key_file_def demo_empty_fs_def
        fs_exists_def par mk demo_public_path fs_write_def parent_ready_def take_keys Let_def)
  have "key_from_lines (demo_lib docs) (lines (private_body (demo_lib docs) k)) = Ok (Some k)"
    by (rule key_from_private_body) simp_all
  moreover have "demo_key_path \<noteq> \<lparr>rooted = True, comps = [''keys'', ''agent.pub'']\<rparr>"
    by (simp add: demo_key_path_def)
  ultimately have "load_or_create_signing_key (demo_lib docs) k' demo_key_path ?w1 = (?w1, Ok k)"
    using nd
    by (simp add: load_or_create_signing_key_def write_agent_public_key_file_def
        fs_exists_def par mk demo_public_path fs_write_def parent_ready_def take_keys Let_def
        read_to_string_def private_body_utf8 fun_upd_idem)
  with 1 show ?thesis by blast
qed

theorem signing_key_stable_witness:
  "\<exists>w1 w2. load_or_create_signing_key (demo_lib []) 7 demo_key_path demo_empty_fs = (w1, Ok 7) \<and>
    load_or_create_signing_key (demo_lib []) 9 demo_key_path w1 = (w2, Ok 7) \<and> files w2 = files w1"
proof -
  obtain w1 where w1: "load_or_create_signing_key (demo_lib []) 7 demo_key_path demo_empty_fs = (w1, Ok 7)"
    "load_or_create_signing_key (demo_lib []) 9 demo_key_path w1 = (w1, Ok 7)"
    using demo_load_first by blast
  have "file_name demo_key_path = Some ''agent''" "fault demo_empty_fs (OpRead demo_key_path) = None"
    by (simp_all add: demo_key_path_def file_name_def demo_empty_fs_def)
  then have "Ok 7 = Ok (7 :: u8) \<and> files w1 = files w1"
    using signing_key_stable [OF demo_b64 demo_specs(4) _ _ _ w1] by simp
  with w1 show ?thesis by (intro exI [of _ w1] conjI) simp_all
qed

end
