(* ===== verification/Session_Props.thy ===== *)
theory Session_Props
  imports Session Keys_Props
begin

text \<open>
  What a server session guarantees: who can run commands and which ones, what the client is told in
  every case, and that no child process is left behind.
\<close>

section \<open>Authentication\<close>

text \<open>What the response of a client must be for the server to grant access as \<open>entry\<close>.\<close>

definition valid_response ::
    "('vk, 'sk) lib \<Rightarrow> 'vk authorized_key list \<Rightarrow> session_env \<Rightarrow> frame \<Rightarrow> 'vk authorized_key \<Rightarrow> bool" where
  "valid_response L keys env resp entry \<longleftrightarrow>
     msg_type resp = AUTH_RESPONSE \<and>
     (\<exists>ar raw. from_slice L de_auth_response (payload resp) = Some ar \<and>
       ar_key_type ar = KEY_TYPE_ED25519 \<and> find_key L keys (ar_fingerprint ar) = Some entry \<and>
       b64_decode L (ar_signature ar) = Inr raw \<and> length raw = 64 \<and>
       verify_strict L (vk_of entry) (signing_bytes (nonce env) (session_id env)) raw)"

lemma session_auth_granted:
  assumes "session_auth L w cfg env c = (c', Ok (Some entry))"
  shows "\<exists>keys resp. load_authorized_keys L w (authorized_keys_path cfg) = Ok keys \<and>
    inp (inner c) = frame_enc resp @ inp (inner c') \<and> length (payload resp) \<le> codec_limit c \<and>
    valid_response L keys env resp entry"
proof -
  from assms obtain keys c1 u resp c2 ar v where
    k: "load_authorized_keys L w (authorized_keys_path cfg) = Ok keys"
    and s: "send_json L AUTH_CHALLENGE (challenge_json L (nonce env) (session_id env)) c = (c1, Ok u)"
    and r: "read_frame c1 = (c2, Ok resp)" and t: "msg_type resp = AUTH_RESPONSE"
    and p: "from_slice L de_auth_response (payload resp) = Some ar"
    and kt: "ar_key_type ar = KEY_TYPE_ED25519" and f: "find_key L keys (ar_fingerprint ar) = Some entry"
    and vf: "verify_ed25519_signature L (vk_of entry) (signing_bytes (nonce env) (session_id env))
        (ar_signature ar) = Ok v"
    and c': "inp (inner c') = inp (inner c2)"
    by (auto simp: session_auth_def Let_def res_iff send_auth_fail_def send_error_def
        dest!: send_json_rest split: prod.splits res.splits option.splits if_splits)
  have "inp (inner c) = frame_enc resp @ inp (inner c')" "length (payload resp) \<le> codec_limit c"
    using wire.recv_sound [OF r] send_json_rest [OF s] c' by (simp_all add: codec_limit_def)
  with k t p kt f vf show ?thesis
    by (auto simp: valid_response_def verify_Ok_iff)
qed

text \<open>Nothing happens to processes before the loop.\<close>

lemma run_session_acts:
  assumes "run_session L w cfg env c = (c', acts, r)" and "acts \<noteq> []"
  shows "\<exists>c1 entry. session_auth L w cfg env c = (c1, Ok (Some entry)) \<and>
    exec_loop L cfg (runs env) 0 c1 = (c', acts, r)"
  using assms by (auto simp: run_session_def split: prod.splits res.splits option.splits)

section \<open>Commands\<close>

lemma exec_future_acts: "exec_future L run c = (c', as, x) \<Longrightarrow> as = [] \<or> as = [Reap]"
  by (auto simp: exec_future_def split: prod.splits res.splits exec_ending.splits sum.splits)

text \<open>What happens to a child after it was spawned: it is waited for or killed when it is dropped.\<close>

definition child_end :: "action list \<Rightarrow> bool" where
  "child_end acts \<longleftrightarrow> (\<exists>ps. acts = Reap # map Kill ps \<or> acts = map Kill ps @ [DropKill])"

lemma child_end_intros:
  assumes "as = [] \<or> as = [Reap]"
  shows "child_end (as @ drop_child as)" "child_end (as @ map Kill ps @ drop_child as)"
  using assms unfolding child_end_def drop_child_def
  by (auto intro: exI [of _ ps])

lemma run_one_exec_acts:
  assumes "run_one_exec L cfg run shell c = (c', acts, r)" and "acts \<noteq> []"
  shows "\<exists>rest. acts = Spawn (hd (shell_argv cfg)) (tl (shell_argv cfg) @ [shell]) # rest \<and> child_end rest"
    "\<forall>p \<in> set (deny_substrings (policy cfg)). \<not> sublist p shell" "2 \<le> length (shell_argv cfg)"
proof -
  have allowed: "check_shell (uni_debug L) (policy cfg) shell = Ok ()"
    using assms by (cases rule: check_shell_cases [of "uni_debug L" "policy cfg" shell])
      (auto simp: run_one_exec_def split: prod.splits)
  then show "\<forall>p \<in> set (deny_substrings (policy cfg)). \<not> sublist p shell"
    by (simp only: check_shell_Ok)
  from assms allowed show len: "2 \<le> length (shell_argv cfg)"
    by (auto simp: run_one_exec_def split: if_splits)
  from assms allowed obtain pid where pid: "spawned run = Inr pid"
    by (cases "spawned run") (auto simp: run_one_exec_def Let_def split: if_splits)
  obtain c1 as x where e: "exec_future L run c = (c1, as, x)" using prod_cases3 by blast
  have hd: "shell_argv cfg ! 0 = hd (shell_argv cfg)"
    using len by (intro hd_conv_nth [symmetric]) auto
  obtain ps where ps: "(case pid of None \<Rightarrow> [] | Some p \<Rightarrow> [Kill p]) = map Kill ps"
    by (cases pid) (auto intro: that [of "[]"] that [of "[_]"])
  show "\<exists>rest. acts = Spawn (hd (shell_argv cfg)) (tl (shell_argv cfg) @ [shell]) # rest \<and> child_end rest"
  proof (cases x)
    case None
    with assms allowed len pid e hd ps
    have "acts = Spawn (hd (shell_argv cfg)) (tl (shell_argv cfg) @ [shell]) # as @ map Kill ps @ drop_child as"
      by (auto simp: run_one_exec_def Let_def split: prod.splits)
    with child_end_intros [OF exec_future_acts [OF e]] show ?thesis by blast
  next
    case (Some y)
    with assms allowed len pid e hd
    have "acts = Spawn (hd (shell_argv cfg)) (tl (shell_argv cfg) @ [shell]) # as @ drop_child as"
      by (auto simp: run_one_exec_def Let_def)
    with child_end_intros [OF exec_future_acts [OF e]] show ?thesis by blast
  qed
qed

text \<open>The ways an iteration of the loop can go.\<close>

lemma exec_loop_cases:
  assumes "exec_loop L cfg rs i c = (c', acts, r)"
  obtains (unread) y where "read_frame c = (c', y)" "acts = []" "\<And>f. y = Ok f \<Longrightarrow> r = Err BoxJson"
      "\<And>f. y = Ok f \<Longrightarrow> from_slice L de_exec_shell (payload f) = None"
  | (refused) c1 f where "read_frame c = (c1, Ok f)" "acts = []"
      "send_error L ''UNKNOWN_MSG_TYPE'' ''only ExecShell allowed after auth'' c1 = (c', r)"
      "msg_type f \<noteq> EXEC_SHELL"
  | (last) c1 f shell where "read_frame c = (c1, Ok f)" "msg_type f = EXEC_SHELL"
      "from_slice L de_exec_shell (payload f) = Some shell"
      "run_one_exec L cfg (rs i) shell c1 = (c', acts, r)" "r \<noteq> Ok ()"
  | (more) c1 f shell c2 as acts' where "read_frame c = (c1, Ok f)" "msg_type f = EXEC_SHELL"
      "from_slice L de_exec_shell (payload f) = Some shell"
      "run_one_exec L cfg (rs i) shell c1 = (c2, as, Ok ())" "acts = as @ acts'"
      "exec_loop L cfg rs (Suc i) c2 = (c', acts', r)"
proof -
  obtain c1 y where rd: "read_frame c = (c1, y)" by fastforce
  show thesis
  proof (cases y)
    case (Ok f)
    show thesis
    proof (cases "msg_type f = EXEC_SHELL")
      case True
      show thesis
      proof (cases "from_slice L de_exec_shell (payload f)")
        case None
        with assms rd Ok True show thesis
          by (intro unread [of y]) (subst (asm) exec_loop.simps, simp)+
      next
        case (Some shell)
        obtain c2 as z where ex: "run_one_exec L cfg (rs i) shell c1 = (c2, as, z)" using prod_cases3 by blast
        obtain c3 acts' x' where lp: "exec_loop L cfg rs (Suc i) c2 = (c3, acts', x')" using prod_cases3 by blast
        note step = assms [unfolded exec_loop.simps [of L cfg rs i c]]
        show thesis
        proof (cases z)
          case z: (Ok v)
          with step rd Ok True Some ex lp have "acts = as @ acts'" "c3 = c'" "x' = r" by simp_all
          with more [OF _ True Some] rd Ok ex z lp show thesis by simp
        next
          case (Err e)
          with step rd Ok True Some ex have "c2 = c' \<and> as = acts \<and> z = r \<and> r \<noteq> Ok ()" by auto
          with last [OF _ True Some] rd Ok ex show thesis by simp
        next
          case Panic
          with step rd Ok True Some ex have "c2 = c' \<and> as = acts \<and> z = r \<and> r \<noteq> Ok ()" by auto
          with last [OF _ True Some] rd Ok ex show thesis by simp
        qed
      qed
    next
      case False
      with assms rd Ok show thesis
        by (intro refused [of c1 f]) (subst (asm) exec_loop.simps, simp split: prod.splits)+
    qed
  next
    case (Err e)
    with assms rd show thesis
      by (intro unread [of y]) (subst (asm) exec_loop.simps, simp split: if_splits)+
  next
    case Panic
    with assms rd show thesis
      by (intro unread [of y]) (subst (asm) exec_loop.simps, simp)+
  qed
qed

lemma exec_loop_acts:
  assumes "exec_loop L cfg rs i c = (c', acts, r)" and "acts \<noteq> []"
  obtains c1 f shell c2 as y acts' where
    "read_frame c = (c1, Ok f)" "msg_type f = EXEC_SHELL" "from_slice L de_exec_shell (payload f) = Some shell"
    "run_one_exec L cfg (rs i) shell c1 = (c2, as, y)" "acts = as @ acts'"
    "acts' = [] \<or> y = Ok () \<and> exec_loop L cfg rs (Suc i) c2 = (c', acts', r)"
  using assms(1)
proof (cases rule: exec_loop_cases)
  case (last c1 f shell)
  then show ?thesis using that [of c1 f shell c' acts r "[]"] by simp
next
  case (more c1 f shell c2 as acts')
  then show ?thesis using that [of c1 f shell c2 as "Ok ()" acts'] by simp
qed (use assms(2) in simp_all)

text \<open>A command the server ran: it was sent in an \<open>EXEC_SHELL\<close> frame and passed the policy.\<close>

definition permitted :: "('vk, 'sk) lib \<Rightarrow> server_config \<Rightarrow> frame \<Rightarrow> action \<Rightarrow> bool" where
  "permitted L cfg f a \<longleftrightarrow> msg_type f = EXEC_SHELL \<and>
     (\<exists>shell. from_slice L de_exec_shell (payload f) = Some shell \<and>
       a = Spawn (hd (shell_argv cfg)) (tl (shell_argv cfg) @ [shell]) \<and> 2 \<le> length (shell_argv cfg) \<and>
       (\<forall>p \<in> set (deny_substrings (policy cfg)). \<not> sublist p shell))"

lemma child_end_no_Spawn: "child_end acts \<Longrightarrow> Spawn p as \<notin> set acts"
  by (auto simp: child_end_def)

lemma run_one_exec_permitted:
  assumes "run_one_exec L cfg run shell c = (c', acts, r)" and "Spawn prog args \<in> set acts"
    and "msg_type f = EXEC_SHELL" and "from_slice L de_exec_shell (payload f) = Some shell"
  shows "permitted L cfg f (Spawn prog args)"
proof -
  have "acts \<noteq> []" using assms(2) by auto
  note a = run_one_exec_acts [OF assms(1) this]
  from a(1) assms(2) have "Spawn prog args = Spawn (hd (shell_argv cfg)) (tl (shell_argv cfg) @ [shell])"
    by (auto dest: child_end_no_Spawn)
  with a(2,3) assms(3,4) show ?thesis by (auto simp: permitted_def)
qed

lemma exec_loop_permitted:
  assumes "exec_loop L cfg rs i c = (c', acts, r)" and "Spawn prog args \<in> set acts"
  shows "\<exists>fs f rest. inp (inner c) = concat (map frame_enc (fs @ [f])) @ rest \<and>
    permitted L cfg f (Spawn prog args)"
  using assms
proof (induction "length (inp (inner c))" arbitrary: c i acts rule: less_induct)
  case less
  have "acts \<noteq> []" using less.prems(2) by auto
  from less.prems(1) this show ?case
  proof (cases rule: exec_loop_acts)
    case (1 c1 f shell c2 as y acts')
    have i: "inp (inner c) = frame_enc f @ inp (inner c1)"
      using wire.recv_sound [OF 1(1)] by simp
    show ?thesis
    proof (cases "Spawn prog args \<in> set as")
      case True
      then have "permitted L cfg f (Spawn prog args)"
        using run_one_exec_permitted [OF 1(4) _ 1(2,3)] by simp
      then show ?thesis using i by (intro exI [of _ "[]"] exI [of _ f] exI [of _ "inp (inner c1)"]) simp
    next
      case False
      with 1(5,6) less.prems(2) have s: "Spawn prog args \<in> set acts'"
        and l: "exec_loop L cfg rs (Suc i) c2 = (c', acts', r)" by auto
      have "inp (inner c2) = inp (inner c1)" using run_one_exec_rest [OF 1(4)] by simp
      moreover from this have "length (inp (inner c2)) < length (inp (inner c))" by (simp add: i)
      from less.hyps [OF this l s] obtain fs g rest where
        "inp (inner c2) = concat (map frame_enc (fs @ [g])) @ rest" "permitted L cfg g (Spawn prog args)"
        by blast
      ultimately show ?thesis
        using i by (intro exI [of _ "f # fs"] exI [of _ g] exI [of _ rest]) simp
    qed
  qed
qed

lemma session_spawn:
  assumes "run_session L w cfg env c = (c', acts, r)" and "Spawn prog args \<in> set acts"
  shows "\<exists>keys entry resp fs f rest. load_authorized_keys L w (authorized_keys_path cfg) = Ok keys \<and>
    entry \<in> set keys \<and> valid_response L keys env resp entry \<and>
    inp (inner c) = concat (map frame_enc (resp # fs @ [f])) @ rest \<and> permitted L cfg f (Spawn prog args)"
proof -
  have "acts \<noteq> []" using assms(2) by auto
  then obtain c1 entry where a: "session_auth L w cfg env c = (c1, Ok (Some entry))"
    and l: "exec_loop L cfg (runs env) 0 c1 = (c', acts, r)"
    using run_session_acts [OF assms(1)] by blast
  from session_auth_granted [OF a] obtain keys resp where k:
    "load_authorized_keys L w (authorized_keys_path cfg) = Ok keys" "valid_response L keys env resp entry"
    "inp (inner c) = frame_enc resp @ inp (inner c1)"
    by blast
  moreover from k(2) have "entry \<in> set keys" by (auto simp: valid_response_def dest: find_key_Some)
  moreover obtain fs f rest where "inp (inner c1) = concat (map frame_enc (fs @ [f])) @ rest"
    "permitted L cfg f (Spawn prog args)"
    using exec_loop_permitted [OF l assms(2)] by blast
  ultimately show ?thesis
    by (intro exI [of _ keys] exI [of _ entry] exI [of _ resp] exI [of _ fs] exI [of _ f] exI [of _ rest]) simp
qed

text \<open>The history of one child: spawned first, and at its end waited for or killed.\<close>

definition child_history :: "action list \<Rightarrow> bool" where
  "child_history acts \<longleftrightarrow> (\<exists>p as rest. acts = Spawn p as # rest \<and> child_end rest)"

lemma exec_loop_children:
  assumes "exec_loop L cfg rs i c = (c', acts, r)"
  shows "\<exists>hs. acts = concat hs \<and> list_all child_history hs"
  using assms
proof (induction "length (inp (inner c))" arbitrary: c i acts rule: less_induct)
  case less
  show ?case
  proof (cases "acts = []")
    case True
    then show ?thesis by (intro exI [of _ "[]"]) simp
  next
    case False
    with less.prems show ?thesis
    proof (cases rule: exec_loop_acts)
      case (1 c1 f shell c2 as y acts')
      have "\<exists>hs. acts' = concat hs \<and> list_all child_history hs"
      proof (cases "acts' = []")
        case True
        then show ?thesis by (intro exI [of _ "[]"]) simp
      next
        case False
        with 1(6) have "exec_loop L cfg rs (Suc i) c2 = (c', acts', r)" by blast
        moreover have "length (inp (inner c2)) < length (inp (inner c))"
          using wire.recv_shorter [OF 1(1)] run_one_exec_rest [OF 1(4)] by simp
        ultimately show ?thesis using less.hyps by blast
      qed
      then obtain hs where hs: "acts' = concat hs" "list_all child_history hs" by blast
      show ?thesis
      proof (cases "as = []")
        case True
        with hs 1(5) show ?thesis by auto
      next
        case False
        with run_one_exec_acts(1) [OF 1(4)] have "child_history as" by (auto simp: child_history_def)
        with hs 1(5) show ?thesis by (intro exI [of _ "as # hs"]) simp
      qed
    qed
  qed
qed

text \<open>
  C7. No child process is left behind. The processes of a session run one after the other: its actions
  are a sequence of complete histories, each of which spawns one child and ends with that child waited
  for or killed, also when the deadline came or the connection broke while the child was running.
\<close>

theorem children_do_not_outlive:
  assumes "run_session L w cfg env c = (c', acts, r)"
  shows "\<exists>hs. acts = concat hs \<and> list_all child_history hs"
proof (cases "acts = []")
  case True
  then show ?thesis by (intro exI [of _ "[]"]) simp
next
  case False
  with run_session_acts [OF assms] show ?thesis by (blast intro: exec_loop_children)
qed

section \<open>Replies\<close>

text \<open>Documents that fit into a frame of the default size.\<close>

definition fits :: "('vk, 'sk) lib \<Rightarrow> json \<Rightarrow> bool" where
  "fits L j \<longleftrightarrow> length (json_write L j) \<le> 1048576"

text \<open>A connection with the default limit on which writes succeed.\<close>

definition good_link :: "codec \<Rightarrow> bool" where
  "good_link c \<longleftrightarrow> writable (inner c) \<and> codec_limit c = 1048576"

definition emit :: "frame list \<Rightarrow> codec \<Rightarrow> codec" where
  "emit fs c = c\<lparr>inner := (inner c)\<lparr>sent := sent (inner c) @ concat (map frame_enc fs)\<rparr>\<rparr>"

lemma emit_simps [simp]:
  "inp (inner (emit fs c)) = inp (inner c)" "inp_end (inner (emit fs c)) = inp_end (inner c)"
  "sent (inner (emit fs c)) = sent (inner c) @ concat (map frame_enc fs)"
  "good_link (emit fs c) = good_link c" "emit gs (emit fs c) = emit (fs @ gs) c" "emit [] c = c"
  by (simp_all add: emit_def good_link_def codec_limit_def writable_def)

lemma write_frame_emit:
  assumes "good_link c" and "length p \<le> 1048576"
  shows "write_frame t p c = (emit [\<lparr>msg_type = t, payload = p\<rparr>] c, Ok ())"
  using assms by (simp add: good_link_def write_frame_ok emit_def)

lemma send_json_emit:
  "good_link c \<Longrightarrow> fits L j \<Longrightarrow>
   send_json L t j c = (emit [\<lparr>msg_type = t, payload = json_write L j\<rparr>] c, Ok ())"
  by (simp add: send_json_def fits_def write_frame_emit)

lemma frame_eta [simp]: "\<lparr>msg_type = msg_type f, payload = payload f\<rparr> = f"
  by (cases f) simp

lemma send_chunks_emit:
  assumes "good_link c" and "\<forall>ch \<in> set chs. length (payload (chunk_frame L ch)) \<le> 1048576"
  shows "send_chunks L chs c = (emit (map (chunk_frame L) chs) c, Ok ())"
  using assms by (induction chs arbitrary: c) (simp_all add: write_frame_emit)

text \<open>The commands that the policy lets through.\<close>

definition allowed :: "('vk, 'sk) lib \<Rightarrow> server_config \<Rightarrow> str \<Rightarrow> bool" where
  "allowed L cfg shell \<longleftrightarrow> is_ok (check_shell (uni_debug L) (policy cfg) shell)"

text \<open>
  What a command is answered with, when the connection works: the refusal, or the chunks in the order
  the channel delivered them and one final frame with the exit code, 124 for a deadline.
\<close>

definition exec_reply :: "('vk, 'sk) lib \<Rightarrow> server_config \<Rightarrow> exec_run \<Rightarrow> str \<Rightarrow> frame list" where
  "exec_reply L cfg run shell =
     (case check_shell (uni_debug L) (policy cfg) shell of
        Err (PolicyDenied msg) \<Rightarrow> [\<lparr>msg_type = POLICY_DENIED, payload = json_write L (policy_denied_json msg)\<rparr>]
      | _ \<Rightarrow> map (chunk_frame L) (chunks run) @
            [exit_frame L (case ending run of Exited (Inr status) \<Rightarrow> exit_code_of status | _ \<Rightarrow> 124)])"

definition reply_fits :: "('vk, 'sk) lib \<Rightarrow> server_config \<Rightarrow> exec_run \<Rightarrow> str \<Rightarrow> bool" where
  "reply_fits L cfg run shell \<longleftrightarrow> list_all (\<lambda>f. length (payload f) \<le> 1048576) (exec_reply L cfg run shell)"

text \<open>A run in which the child was spawned and the deadline, if it came, found no frame half written.\<close>

definition clean_run :: "exec_run \<Rightarrow> bool" where
  "clean_run run \<longleftrightarrow> (\<exists>pid. spawned run = Inr pid) \<and>
     (case ending run of Exited (Inr status) \<Rightarrow> True | DeadlineWaiting \<Rightarrow> True | _ \<Rightarrow> False)"

text \<open>
  On a working connection a command is answered completely, and it starts a process if and only if the
  policy allows it. After a deadline the child is sent SIGKILL.
\<close>

lemma run_one_exec_reply:
  assumes "good_link c" and "reply_fits L cfg run shell" and "2 \<le> length (shell_argv cfg)"
    and "allowed L cfg shell \<longrightarrow> clean_run run"
  shows "\<exists>acts. run_one_exec L cfg run shell c = (emit (exec_reply L cfg run shell) c, acts, Ok ()) \<and>
    (acts = [] \<longleftrightarrow> \<not> allowed L cfg shell) \<and>
    (\<forall>p. acts \<noteq> [] \<and> ending run = DeadlineWaiting \<and> spawned run = Inr (Some p) \<longrightarrow> Kill p \<in> set acts)"
proof (cases rule: check_shell_cases [of "uni_debug L" "policy cfg" shell])
  case (denied msg)
  with assms(1,2) show ?thesis
    by (simp add: run_one_exec_def exec_reply_def reply_fits_def send_json_emit fits_def allowed_def)
next
  case allowed
  with assms(4) have clean: "clean_run run" "allowed L cfg shell" by (simp_all add: allowed_def)
  let ?code = "case ending run of Exited (Inr status) \<Rightarrow> exit_code_of status | _ \<Rightarrow> 124"
  have reply: "exec_reply L cfg run shell = map (chunk_frame L) (chunks run) @ [exit_frame L ?code]"
    using allowed by (simp add: exec_reply_def)
  with assms(2) have f: "\<forall>ch \<in> set (chunks run). length (payload (chunk_frame L ch)) \<le> 1048576"
    "fits L (exit_json ?code)"
    by (auto simp: reply_fits_def list_all_iff exit_frame_def fits_def)
  note s = send_chunks_emit [OF assms(1) f(1)]
  from clean(1) obtain pid where pid: "spawned run = Inr pid" by (auto simp: clean_run_def)
  from clean(1) consider (exit) status where "ending run = Exited (Inr status)" | (wait) "ending run = DeadlineWaiting"
    by (auto simp: clean_run_def split: exec_ending.splits sum.splits)
  then show ?thesis
  proof cases
    case exit
    with assms(1,3) allowed clean(2) pid s f(2) show ?thesis
      by (simp add: run_one_exec_def exec_future_def reply Let_def send_json_emit exit_frame_def)
  next
    case wait
    with assms(1,3) allowed clean(2) pid s f(2) show ?thesis
      by (cases pid)
         (simp_all add: run_one_exec_def exec_future_def reply Let_def send_json_emit exit_frame_def)
  qed
qed

section \<open>Decisions on the authentication response\<close>

definition challenge_frame :: "('vk, 'sk) lib \<Rightarrow> session_env \<Rightarrow> frame" where
  "challenge_frame L env =
     \<lparr>msg_type = AUTH_CHALLENGE, payload = json_write L (challenge_json L (nonce env) (session_id env))\<rparr>"

definition granted_frame :: "('vk, 'sk) lib \<Rightarrow> server_config \<Rightarrow> 'vk authorized_key \<Rightarrow> frame" where
  "granted_frame L cfg entry =
     \<lparr>msg_type = AUTH_RESULT,
      payload = json_write L (auth_ok_json
        (if comment entry = [] then None else Some (comment entry))
        (case policy_group_by_fingerprint cfg (to_lowercase (uni_lower L) (fingerprint_hex entry)) of
           None \<Rightarrow> policy_group_default cfg | Some g \<Rightarrow> g))\<rparr>"

definition refusal :: "('vk, 'sk) lib \<Rightarrow> frame \<Rightarrow> bool" where
  "refusal L f \<longleftrightarrow> msg_type f = ERROR \<or>
     (msg_type f = AUTH_RESULT \<and> (\<exists>reason message. payload f = json_write L (auth_fail_json reason message)))"

definition refusals_fit :: "('vk, 'sk) lib \<Rightarrow> session_env \<Rightarrow> bool" where
  "refusals_fit L env \<longleftrightarrow>
     fits L (error_json ''EXPECTED_AUTH_RESPONSE'' ''expected AuthResponse'') \<and>
     fits L (auth_fail_json ''UNSUPPORTED_KEY_TYPE'' ''only sao-ed25519'') \<and>
     fits L (auth_fail_json ''UNKNOWN_KEY'' ''fingerprint not in authorized_keys'') \<and>
     (\<forall>vk sg e. verify_ed25519_signature L vk (signing_bytes (nonce env) (session_id env)) sg = Err e \<longrightarrow>
        fits L (auth_fail_json ''BAD_SIGNATURE'' (core_error_display e)))"

definition after_read :: "bytes \<Rightarrow> codec \<Rightarrow> codec" where
  "after_read r c = c\<lparr>inner := (inner c)\<lparr>inp := r\<rparr>\<rparr>"

lemma after_read_simps [simp]:
  "inp (inner (after_read r c)) = r" "inp_end (inner (after_read r c)) = inp_end (inner c)"
  "sent (inner (after_read r c)) = sent (inner c)" "good_link (after_read r c) = good_link c"
  "after_read q (after_read r c) = after_read q c" "emit fs (after_read r c) = after_read r (emit fs c)"
  by (simp_all add: after_read_def good_link_def codec_limit_def writable_def emit_def)

lemma read_frame_good:
  "good_link c \<Longrightarrow> inp (inner c) = frame_enc f @ r \<Longrightarrow> length (payload f) \<le> 1048576 \<Longrightarrow>
   read_frame c = (after_read r c, Ok f)"
  by (simp add: read_frame_enc good_link_def after_read_def)

lemma session_auth_grants:
  assumes "good_link c" and "load_authorized_keys L w (authorized_keys_path cfg) = Ok keys"
    and "inp (inner c) = frame_enc resp @ r" and "length (payload resp) \<le> 1048576"
    and "length (payload (challenge_frame L env)) \<le> 1048576"
    and "valid_response L keys env resp entry" and "length (payload (granted_frame L cfg entry)) \<le> 1048576"
  shows "session_auth L w cfg env c =
    (after_read r (emit [challenge_frame L env, granted_frame L cfg entry] c), Ok (Some entry))"
proof -
  let ?c1 = "emit [challenge_frame L env] c"
  have 1: "send_json L AUTH_CHALLENGE (challenge_json L (nonce env) (session_id env)) c = (?c1, Ok ())"
    using assms(1,5) by (simp add: send_json_emit challenge_frame_def fits_def)
  have 2: "read_frame ?c1 = (after_read r ?c1, Ok resp)"
    using assms(1,3,4) by (simp add: read_frame_good)
  from assms(6) obtain ar raw where v: "msg_type resp = AUTH_RESPONSE"
    "from_slice L de_auth_response (payload resp) = Some ar"
    "ar_key_type ar = KEY_TYPE_ED25519" "find_key L keys (ar_fingerprint ar) = Some entry"
    "b64_decode L (ar_signature ar) = Inr raw" "length raw = 64"
    "verify_strict L (vk_of entry) (signing_bytes (nonce env) (session_id env)) raw"
    by (auto simp: valid_response_def)
  then have "verify_ed25519_signature L (vk_of entry) (signing_bytes (nonce env) (session_id env)) (ar_signature ar) = Ok ()"
    by (simp add: verify_Ok_iff)
  with v assms(1,2,7) 1 2 show ?thesis
    by (simp add: session_auth_def Let_def send_json_emit granted_frame_def fits_def)
qed

text \<open>What can be wrong with a response.\<close>

lemma invalid_response_cases:
  assumes "\<not> (\<exists>entry. valid_response L keys env resp entry)"
  obtains (wrong_type) "msg_type resp \<noteq> AUTH_RESPONSE"
  | (no_document) "msg_type resp = AUTH_RESPONSE" "from_slice L de_auth_response (payload resp) = None"
  | (wrong_key_type) ar where "msg_type resp = AUTH_RESPONSE"
      "from_slice L de_auth_response (payload resp) = Some ar" "ar_key_type ar \<noteq> KEY_TYPE_ED25519"
  | (unknown) ar where "msg_type resp = AUTH_RESPONSE" "from_slice L de_auth_response (payload resp) = Some ar"
      "ar_key_type ar = KEY_TYPE_ED25519" "find_key L keys (ar_fingerprint ar) = None"
  | (bad_signature) ar entry e where "msg_type resp = AUTH_RESPONSE"
      "from_slice L de_auth_response (payload resp) = Some ar" "ar_key_type ar = KEY_TYPE_ED25519"
      "find_key L keys (ar_fingerprint ar) = Some entry" "verify_ed25519_signature L (vk_of entry)
         (signing_bytes (nonce env) (session_id env)) (ar_signature ar) = Err e"
proof (cases "from_slice L de_auth_response (payload resp)")
  case (Some ar)
  show thesis
  proof (cases "find_key L keys (ar_fingerprint ar)")
    case entry: (Some entry)
    let ?v = "verify_ed25519_signature L (vk_of entry) (signing_bytes (nonce env) (session_id env)) (ar_signature ar)"
    have "msg_type resp = AUTH_RESPONSE \<Longrightarrow> ar_key_type ar = KEY_TYPE_ED25519 \<Longrightarrow> \<not> (\<exists>u. ?v = Ok u)"
      using assms Some entry by (auto simp: valid_response_def verify_Ok_iff)
    then show thesis
      using Some entry wrong_type wrong_key_type bad_signature by (cases ?v) auto
  qed (use Some wrong_type wrong_key_type unknown in blast)
qed (use wrong_type no_document in blast)

lemma session_auth_refuses:
  assumes "good_link c" and "load_authorized_keys L w (authorized_keys_path cfg) = Ok keys"
    and "inp (inner c) = frame_enc resp @ r" and "length (payload resp) \<le> 1048576"
    and "length (payload (challenge_frame L env)) \<le> 1048576"
    and "refusals_fit L env" and "\<not> (\<exists>entry. valid_response L keys env resp entry)"
  shows "\<exists>fs x. session_auth L w cfg env c = (after_read r (emit (challenge_frame L env # fs) c), x) \<and>
    ((\<exists>f. fs = [f] \<and> refusal L f) \<and> x = Ok None \<or>
     fs = [] \<and> x = Err BoxJson \<and> from_slice L de_auth_response (payload resp) = None)"
proof -
  let ?c1 = "emit [challenge_frame L env] c"
  have 1: "send_json L AUTH_CHALLENGE (challenge_json L (nonce env) (session_id env)) c = (?c1, Ok ())"
    using assms(1,5) by (simp add: send_json_emit challenge_frame_def fits_def)
  have 2: "read_frame ?c1 = (after_read r ?c1, Ok resp)"
    using assms(1,3,4) by (simp add: read_frame_good)
  note b = 1 2 assms(1,2)
  note F = assms(6) [unfolded refusals_fit_def]
  have wrap: ?thesis if "session_auth L w cfg env c = (after_read r (emit [challenge_frame L env, f] c), Ok None)"
    and "refusal L f" for f
    using that by (intro exI [of _ "[f]"] exI [of _ "Ok None"]) simp
  have fail: "refusal L \<lparr>msg_type = AUTH_RESULT, payload = json_write L (auth_fail_json reason message)\<rparr>"
    for reason message
    by (auto simp: refusal_def)
  from assms(7) show ?thesis
  proof (cases rule: invalid_response_cases)
    case wrong_type
    with b F show ?thesis
      by (intro wrap [where f = "\<lparr>msg_type = ERROR,
            payload = json_write L (error_json ''EXPECTED_AUTH_RESPONSE'' ''expected AuthResponse'')\<rparr>"])
         (simp_all add: session_auth_def send_error_def send_json_emit refusal_def)
  next
    case no_document
    with b show ?thesis by (simp add: session_auth_def)
  next
    case (wrong_key_type ar)
    with b F show ?thesis
      by (intro wrap [OF _ fail]) (simp add: session_auth_def send_auth_fail_def send_json_emit)
  next
    case (unknown ar)
    with b F show ?thesis
      by (intro wrap [OF _ fail]) (simp add: session_auth_def Let_def send_auth_fail_def send_json_emit)
  next
    case (bad_signature ar entry e)
    with F have "fits L (auth_fail_json ''BAD_SIGNATURE'' (core_error_display e))" by blast
    with b bad_signature show ?thesis
      by (intro wrap [OF _ fail]) (simp add: session_auth_def Let_def send_auth_fail_def send_json_emit)
  qed
qed

text \<open>
  C10. The server decides on the authentication response and on nothing else. On a working connection
  with a readable \<open>authorized_keys\<close>, the session is granted if and only if the response is valid for one of
  the keys; then the client gets the challenge and the result. Otherwise the client gets at most one
  more frame, a refusal, and the session is over without a loop; there is no answer only for a payload
  that is not a response document.
\<close>

theorem authentication_decides:
  assumes "good_link c" and "load_authorized_keys L w (authorized_keys_path cfg) = Ok keys"
    and "inp (inner c) = frame_enc resp @ r" and "length (payload resp) \<le> 1048576"
    and "length (payload (challenge_frame L env)) \<le> 1048576"
    and "\<forall>entry \<in> set keys. length (payload (granted_frame L cfg entry)) \<le> 1048576"
    and "refusals_fit L env"
  shows "(\<forall>entry. valid_response L keys env resp entry \<longrightarrow>
      session_auth L w cfg env c =
        (after_read r (emit [challenge_frame L env, granted_frame L cfg entry] c), Ok (Some entry))) \<and>
    (\<not> (\<exists>entry. valid_response L keys env resp entry) \<longrightarrow>
      (\<exists>fs x. run_session L w cfg env c = (after_read r (emit (challenge_frame L env # fs) c), [], x) \<and>
        ((\<exists>f. fs = [f] \<and> refusal L f) \<and> x = Ok () \<or>
         fs = [] \<and> x = Err BoxJson \<and> from_slice L de_auth_response (payload resp) = None)))"
proof (intro conjI allI impI)
  fix entry
  assume v: "valid_response L keys env resp entry"
  then have "entry \<in> set keys" by (auto simp: valid_response_def dest: find_key_Some)
  with assms(6) have "length (payload (granted_frame L cfg entry)) \<le> 1048576" by blast
  then show "session_auth L w cfg env c =
        (after_read r (emit [challenge_frame L env, granted_frame L cfg entry] c), Ok (Some entry))"
    by (rule session_auth_grants [OF assms(1-5) v])
next
  assume "\<not> (\<exists>entry. valid_response L keys env resp entry)"
  from session_auth_refuses [OF assms(1-5) assms(7) this] obtain fs x where
    "session_auth L w cfg env c = (after_read r (emit (challenge_frame L env # fs) c), x)"
    and x: "(\<exists>f. fs = [f] \<and> refusal L f) \<and> x = Ok None \<or>
      fs = [] \<and> x = Err BoxJson \<and> from_slice L de_auth_response (payload resp) = None"
    by blast
  then have "run_session L w cfg env c = (after_read r (emit (challenge_frame L env # fs) c), [],
      (case x of Ok u \<Rightarrow> Ok () | Err e \<Rightarrow> Err e | Panic \<Rightarrow> Panic))"
    by (auto simp: run_session_def)
  with x show "\<exists>fs x. run_session L w cfg env c = (after_read r (emit (challenge_frame L env # fs) c), [], x) \<and>
        ((\<exists>f. fs = [f] \<and> refusal L f) \<and> x = Ok () \<or>
         fs = [] \<and> x = Err BoxJson \<and> from_slice L de_auth_response (payload resp) = None)"
    by (intro exI [of _ fs] exI [of _ "case x of Ok u \<Rightarrow> Ok () | Err e \<Rightarrow> Err e | Panic \<Rightarrow> Panic"]) auto
qed

section \<open>A whole session\<close>

text \<open>The programs that were started, with their arguments.\<close>

fun starts :: "action list \<Rightarrow> (str \<times> str list) list" where
  "starts [] = []"
| "starts (Spawn prog args # acts) = (prog, args) # starts acts"
| "starts (_ # acts) = starts acts"

lemma starts_append [simp]: "starts (as @ bs) = starts as @ starts bs"
  by (induction as rule: starts.induct) simp_all

lemma starts_Kill [simp]: "starts (map Kill ps) = []"
  by (induction ps) simp_all

lemma starts_child_end: "child_end acts \<Longrightarrow> starts acts = []"
  by (auto simp: child_end_def)

text \<open>What a session should start for a command.\<close>

definition shell_start :: "server_config \<Rightarrow> str \<Rightarrow> str \<times> str list" where
  "shell_start cfg shell = (hd (shell_argv cfg), tl (shell_argv cfg) @ [shell])"

lemma run_one_exec_starts:
  assumes "run_one_exec L cfg run shell c = (c', acts, r)" and "acts = [] \<longleftrightarrow> \<not> allowed L cfg shell"
  shows "starts acts = map (shell_start cfg) (filter (allowed L cfg) [shell])"
proof (cases "acts = []")
  case True
  with assms(2) show ?thesis by simp
next
  case False
  with run_one_exec_acts(1) [OF assms(1)] assms(2) show ?thesis
    by (auto simp: shell_start_def dest: starts_child_end)
qed

definition shell_json :: "str \<Rightarrow> json" where
  "shell_json shell = JObj [(''shell'', JStr shell)]"

definition exec_request :: "('vk, 'sk) lib \<Rightarrow> str \<Rightarrow> frame" where
  "exec_request L shell = \<lparr>msg_type = EXEC_SHELL, payload = json_write L (shell_json shell)\<rparr>"

lemma de_shell_json [simp]: "de_exec_shell (shell_json shell) = Some shell"
  by (simp add: de_exec_shell_def shell_json_def required_def members_def)

fun replies ::
    "('vk, 'sk) lib \<Rightarrow> server_config \<Rightarrow> (nat \<Rightarrow> exec_run) \<Rightarrow> nat \<Rightarrow> str list \<Rightarrow> frame list" where
  "replies L cfg rs i [] = []"
| "replies L cfg rs i (shell # shells) =
     exec_reply L cfg (rs i) shell @ replies L cfg rs (Suc i) shells"

text \<open>The command can be sent and the answer to it fits into frames.\<close>

definition serves :: "('vk, 'sk) lib \<Rightarrow> server_config \<Rightarrow> exec_run \<Rightarrow> str \<Rightarrow> bool" where
  "serves L cfg run shell \<longleftrightarrow> json_reads L (shell_json shell) \<and> fits L (shell_json shell) \<and>
     (allowed L cfg shell \<longrightarrow> clean_run run) \<and> reply_fits L cfg run shell"

lemma read_frame_end:
  "inp (inner c) = [] \<Longrightarrow> inp_end (inner c) = None \<Longrightarrow> \<exists>c'. read_frame c = (c', Err UnexpectedEof) \<and>
   sent (inner c') = sent (inner c)"
  by (simp add: read_frame_def read_exact_def HEADER_LEN_def)

lemma exec_loop_serves:
  assumes "good_link c" and "2 \<le> length (shell_argv cfg)" and "inp_end (inner c) = None"
    and "inp (inner c) = concat (map frame_enc (map (exec_request L) shells))"
    and "\<forall>j < length shells. serves L cfg (rs (i + j)) (shells ! j)"
  shows "\<exists>c' acts. exec_loop L cfg rs i c = (c', acts, Ok ()) \<and>
    sent (inner c') = sent (inner c) @ concat (map frame_enc (replies L cfg rs i shells)) \<and>
    starts acts = map (shell_start cfg) (filter (allowed L cfg) shells)"
  using assms
proof (induction shells arbitrary: c i)
  case Nil
  then obtain c' where "read_frame c = (c', Err UnexpectedEof)" "sent (inner c') = sent (inner c)"
    using read_frame_end [of c] by auto
  then show ?case by (subst exec_loop.simps) simp
next
  case (Cons shell shells)
  have s: "serves L cfg (rs i) shell" using Cons.prems(5) [rule_format, of 0] by simp
  let ?r = "concat (map frame_enc (map (exec_request L) shells))"
  have 1: "read_frame c = (after_read ?r c, Ok (exec_request L shell))"
    using Cons.prems(1,4) s
    by (intro read_frame_good) (simp_all add: serves_def fits_def exec_request_def [of L shell])
  have 2: "from_slice L de_exec_shell (payload (exec_request L shell)) = Some shell"
    using s by (simp add: serves_def from_slice_def json_reads_def exec_request_def)
  let ?c2 = "emit (exec_reply L cfg (rs i) shell) (after_read ?r c)"
  obtain acts where 3: "run_one_exec L cfg (rs i) shell (after_read ?r c) = (?c2, acts, Ok ())"
    and "acts = [] \<longleftrightarrow> \<not> allowed L cfg shell"
    using run_one_exec_reply [of "after_read ?r c" L cfg "rs i" shell] Cons.prems(1,2) s
    by (auto simp: serves_def allowed_def)
  note 4 = run_one_exec_starts [OF this]
  have "\<exists>c' acts. exec_loop L cfg rs (Suc i) ?c2 = (c', acts, Ok ()) \<and>
    sent (inner c') = sent (inner ?c2) @ concat (map frame_enc (replies L cfg rs (Suc i) shells)) \<and>
    starts acts = map (shell_start cfg) (filter (allowed L cfg) shells)"
  proof (rule Cons.IH)
    show "\<forall>j < length shells. serves L cfg (rs (Suc i + j)) (shells ! j)"
    proof (intro allI impI)
      fix j
      assume "j < length shells"
      then show "serves L cfg (rs (Suc i + j)) (shells ! j)"
        using Cons.prems(5) [rule_format, of "Suc j"] by simp
    qed
  qed (use Cons.prems in simp_all)
  then obtain c' acts' where "exec_loop L cfg rs (Suc i) ?c2 = (c', acts', Ok ())"
    "sent (inner c') = sent (inner ?c2) @ concat (map frame_enc (replies L cfg rs (Suc i) shells))"
    "starts acts' = map (shell_start cfg) (filter (allowed L cfg) shells)"
    by blast
  with 1 2 3 4 show ?case
    by (subst exec_loop.simps) (simp add: exec_request_def [of L shell])
qed

lemma session_serves_client:
  assumes "good_link c" and "load_authorized_keys L w (authorized_keys_path cfg) = Ok keys"
    and "inp (inner c) = frame_enc resp @ concat (map frame_enc (map (exec_request L) shells))"
    and "inp_end (inner c) = None" and "2 \<le> length (shell_argv cfg)"
    and "valid_response L keys env resp entry" and "length (payload resp) \<le> 1048576"
    and "length (payload (challenge_frame L env)) \<le> 1048576"
    and "length (payload (granted_frame L cfg entry)) \<le> 1048576"
    and "\<forall>j < length shells. serves L cfg (runs env j) (shells ! j)"
  shows "\<exists>c' acts. run_session L w cfg env c = (c', acts, Ok ()) \<and>
    sent (inner c') = sent (inner c) @ concat (map frame_enc
      ([challenge_frame L env, granted_frame L cfg entry] @ replies L cfg (runs env) 0 shells)) \<and>
    starts acts = map (shell_start cfg) (filter (allowed L cfg) shells)"
proof -
  let ?r = "concat (map frame_enc (map (exec_request L) shells))"
  let ?c1 = "after_read ?r (emit [challenge_frame L env, granted_frame L cfg entry] c)"
  have a: "session_auth L w cfg env c = (?c1, Ok (Some entry))"
    by (rule session_auth_grants [OF assms(1-3,7,8,6,9)])
  obtain c' acts where "exec_loop L cfg (runs env) 0 ?c1 = (c', acts, Ok ())"
    "sent (inner c') = sent (inner ?c1) @ concat (map frame_enc (replies L cfg (runs env) 0 shells))"
    "starts acts = map (shell_start cfg) (filter (allowed L cfg) shells)"
    using exec_loop_serves [of ?c1 cfg L shells "runs env" 0] assms(1,4,5,10) by auto
  with a show ?thesis by (simp add: run_session_def)
qed

text \<open>
  C12. A valid client is served completely. If the client answers the challenge with a valid response,
  sends any number of commands and then closes the connection, the session ends without an error; what
  the server has sent is exactly the challenge, the positive result, and for each command in its turn
  the complete answer; and the commands that pass the policy have been started, each once and in order,
  the others not.
\<close>

theorem session_serves_all:
  assumes "good_link c" and "load_authorized_keys L w (authorized_keys_path cfg) = Ok keys"
    and "inp (inner c) = frame_enc resp @ concat (map frame_enc (map (exec_request L) shells))"
    and "inp_end (inner c) = None" and "2 \<le> length (shell_argv cfg)"
    and "valid_response L keys env resp entry" and "length (payload resp) \<le> 1048576"
    and "length (payload (challenge_frame L env)) \<le> 1048576"
    and "length (payload (granted_frame L cfg entry)) \<le> 1048576"
    and "\<forall>j < length shells. serves L cfg (runs env j) (shells ! j)"
  shows "\<exists>c' acts. run_session L w cfg env c = (c', acts, Ok ()) \<and>
    sent (inner c') = sent (inner c) @ concat (map frame_enc
      ([challenge_frame L env, granted_frame L cfg entry] @ replies L cfg (runs env) 0 shells)) \<and>
    starts acts = map (shell_start cfg) (filter (allowed L cfg) shells)"
  using assms by (rule session_serves_client)

end
