(* ===== verification/Exec_Steps.thy ===== *)
theory Exec_Steps
  imports Session_Props
begin

text \<open>
  The concurrency inside of \<open>run_one_exec\<close>: two reader tasks, an unbounded channel, the \<open>exec\<close> future that
  consumes it, and the deadline. The tasks are interleaved in any order. The theory shows that whatever
  the interleaving is, the outcome is one of the runs that the functional model takes as an argument,
  and that the chunks of such a run are the output of the process.
\<close>

section \<open>State and steps\<close>

text \<open>Where the \<open>exec\<close> future is.\<close>

datatype phase =
    Receiving
  | Sending stream_chunk
  | Waiting
  | SendingExit "int option"
  | Finished "(boxed_error, unit) res"
  | Cancelled exec_ending

record exec_state =
  out_left :: bytes
  err_left :: bytes
  out_open :: bool
  err_open :: bool
  out_failed :: bool
  err_failed :: bool
  queue :: "stream_chunk list"
  delivered :: "stream_chunk list"
  at_phase :: phase
  ended :: "(io_error + int option) option"
  elapsed :: nat
  wire_out :: codec

definition read_buffer :: nat where
  "read_buffer = 16384"

text \<open>\<open>out\<close> and \<open>err\<close> are everything the child writes to its two pipes until it closes them.\<close>

definition exec_start :: "bytes \<Rightarrow> bytes \<Rightarrow> codec \<Rightarrow> exec_state" where
  "exec_start out err c =
     \<lparr>out_left = out, err_left = err, out_open = True, err_open = True, out_failed = False,
      err_failed = False, queue = [], delivered = [], at_phase = Receiving, ended = None, elapsed = 0,
      wire_out = c\<rparr>"

fun running :: "phase \<Rightarrow> bool" where
  "running (Finished r) = False"
| "running (Cancelled e) = False"
| "running _ = True"

text \<open>What the deadline leaves: the future stops waiting, or in the middle of a frame.\<close>

fun cut_frame :: "('vk, 'sk) lib \<Rightarrow> phase \<Rightarrow> nat \<Rightarrow> codec \<Rightarrow> exec_ending \<times> codec" where
  "cut_frame L (Sending ch) n c = (DeadlineWriting ch n, write_cut (chunk_frame L ch) n c)"
| "cut_frame L (SendingExit status) n c =
     (DeadlineExit status n, write_cut (exit_frame L (exit_code_of status)) n c)"
| "cut_frame L _ n c = (DeadlineWaiting, c)"

inductive exec_step ::
    "('vk, 'sk) lib \<Rightarrow> server_config \<Rightarrow> exec_state \<Rightarrow> exec_state \<Rightarrow> bool" for L cfg where
  read_out: "out_open s \<Longrightarrow> out_left s = b @ rest \<Longrightarrow> b \<noteq> [] \<Longrightarrow> length b \<le> read_buffer \<Longrightarrow>
    exec_step L cfg s (s\<lparr>out_left := rest, queue := queue s @ [ChunkOut b]\<rparr>)"
| eof_out: "out_open s \<Longrightarrow> out_left s = [] \<Longrightarrow> exec_step L cfg s (s\<lparr>out_open := False\<rparr>)"
| fail_out: "out_open s \<Longrightarrow> exec_step L cfg s (s\<lparr>out_open := False, out_failed := True\<rparr>)"
| read_err: "err_open s \<Longrightarrow> err_left s = b @ rest \<Longrightarrow> b \<noteq> [] \<Longrightarrow> length b \<le> read_buffer \<Longrightarrow>
    exec_step L cfg s (s\<lparr>err_left := rest, queue := queue s @ [ChunkErr b]\<rparr>)"
| eof_err: "err_open s \<Longrightarrow> err_left s = [] \<Longrightarrow> exec_step L cfg s (s\<lparr>err_open := False\<rparr>)"
| fail_err: "err_open s \<Longrightarrow> exec_step L cfg s (s\<lparr>err_open := False, err_failed := True\<rparr>)"
| receive: "at_phase s = Receiving \<Longrightarrow> queue s = ch # q \<Longrightarrow>
    exec_step L cfg s (s\<lparr>queue := q, at_phase := Sending ch\<rparr>)"
| send: "at_phase s = Sending ch \<Longrightarrow>
    write_frame (msg_type (chunk_frame L ch)) (payload (chunk_frame L ch)) (wire_out s) = (c', Ok u) \<Longrightarrow>
    exec_step L cfg s (s\<lparr>at_phase := Receiving, delivered := delivered s @ [ch], wire_out := c'\<rparr>)"
| send_fails: "at_phase s = Sending ch \<Longrightarrow>
    write_frame (msg_type (chunk_frame L ch)) (payload (chunk_frame L ch)) (wire_out s) = (c', Err e) \<Longrightarrow>
    exec_step L cfg s (s\<lparr>at_phase := Finished (Err (BoxProtocol e)), delivered := delivered s @ [ch],
      wire_out := c'\<rparr>)"
| closed: "at_phase s = Receiving \<Longrightarrow> queue s = [] \<Longrightarrow> \<not> out_open s \<Longrightarrow> \<not> err_open s \<Longrightarrow>
    exec_step L cfg s (s\<lparr>at_phase := Waiting\<rparr>)"
| wait_ok: "at_phase s = Waiting \<Longrightarrow>
    exec_step L cfg s (s\<lparr>at_phase := SendingExit status, ended := Some (Inr status)\<rparr>)"
| wait_fails: "at_phase s = Waiting \<Longrightarrow>
    exec_step L cfg s (s\<lparr>at_phase := Finished (Err (BoxIo e)), ended := Some (Inl e)\<rparr>)"
| finish: "at_phase s = SendingExit status \<Longrightarrow>
    send_json L EXEC_EXIT (exit_json (exit_code_of status)) (wire_out s) = (c', r) \<Longrightarrow>
    exec_step L cfg s (s\<lparr>at_phase := Finished r, wire_out := c'\<rparr>)"
| tick: "exec_step L cfg s (s\<lparr>elapsed := Suc (elapsed s)\<rparr>)"
| deadline: "running (at_phase s) \<Longrightarrow> unat (exec_timeout cfg) \<le> elapsed s \<Longrightarrow>
    cut_frame L (at_phase s) n (wire_out s) = (e, c') \<Longrightarrow>
    exec_step L cfg s (s\<lparr>at_phase := Cancelled e, wire_out := c'\<rparr>)"

inductive exec_reachable ::
    "('vk, 'sk) lib \<Rightarrow> server_config \<Rightarrow> bytes \<Rightarrow> bytes \<Rightarrow> codec \<Rightarrow> exec_state \<Rightarrow> bool" for L cfg out err c where
  start: "exec_reachable L cfg out err c (exec_start out err c)"
| step: "exec_reachable L cfg out err c s \<Longrightarrow> exec_step L cfg s s' \<Longrightarrow> exec_reachable L cfg out err c s'"

inductive_cases exec_stepE: "exec_step L cfg s s'"

text \<open>Nothing is sent any more when the future has ended; the reader tasks may still go on.\<close>

lemma ended_is_final:
  "exec_step L cfg s s' \<Longrightarrow> \<not> running (at_phase s) \<Longrightarrow>
   at_phase s' = at_phase s \<and> wire_out s' = wire_out s \<and> delivered s' = delivered s"
  by (erule exec_stepE) auto

section \<open>Invariant\<close>

definition outs :: "stream_chunk list \<Rightarrow> bytes" where
  "outs chs = concat (map (\<lambda>ch. case ch of ChunkOut b \<Rightarrow> b | ChunkErr b \<Rightarrow> []) chs)"

definition errs :: "stream_chunk list \<Rightarrow> bytes" where
  "errs chs = concat (map (\<lambda>ch. case ch of ChunkErr b \<Rightarrow> b | ChunkOut b \<Rightarrow> []) chs)"

lemma outs_errs_simps [simp]:
  "outs [] = []" "errs [] = []" "outs (xs @ ys) = outs xs @ outs ys" "errs (xs @ ys) = errs xs @ errs ys"
  "outs (ChunkOut b # xs) = b @ outs xs" "outs (ChunkErr b # xs) = outs xs"
  "errs (ChunkErr b # xs) = b @ errs xs" "errs (ChunkOut b # xs) = errs xs"
  by (simp_all add: outs_def errs_def)

fun in_hand :: "phase \<Rightarrow> stream_chunk list" where
  "in_hand (Sending ch) = [ch]"
| "in_hand (Cancelled (DeadlineWriting ch n)) = [ch]"
| "in_hand _ = []"

text \<open>All chunks that were read so far, in the order of the channel.\<close>

definition all_chunks :: "exec_state \<Rightarrow> stream_chunk list" where
  "all_chunks s = delivered s @ in_hand (at_phase s) @ queue s"

fun chunk_size :: "stream_chunk \<Rightarrow> nat" where
  "chunk_size (ChunkOut b) = length b"
| "chunk_size (ChunkErr b) = length b"

definition stream_inv :: "bytes \<Rightarrow> bytes \<Rightarrow> exec_state \<Rightarrow> bool" where
  "stream_inv out err s \<longleftrightarrow>
     outs (all_chunks s) @ out_left s = out \<and> errs (all_chunks s) @ err_left s = err \<and>
     (\<forall>ch \<in> set (all_chunks s). 0 < chunk_size ch \<and> chunk_size ch \<le> read_buffer) \<and>
     (\<not> out_open s \<and> \<not> out_failed s \<longrightarrow> out_left s = []) \<and>
     (\<not> err_open s \<and> \<not> err_failed s \<longrightarrow> err_left s = [])"

lemma stream_inv_start: "stream_inv out err (exec_start out err c)"
  by (simp add: stream_inv_def exec_start_def all_chunks_def)

lemma cut_frame_in_hand: "cut_frame L ph n c = (e, c') \<Longrightarrow> running ph \<Longrightarrow> in_hand (Cancelled e) = in_hand ph"
  by (cases ph) auto

lemma stream_inv_step:
  assumes "exec_step L cfg s s'" and "stream_inv out err s"
  shows "stream_inv out err s'"
  using assms
proof (cases rule: exec_step.cases)
  case (deadline n e c')
  with assms(2) show ?thesis
    by (simp add: stream_inv_def all_chunks_def cut_frame_in_hand)
qed (auto simp: stream_inv_def all_chunks_def)

lemma stream_inv_reachable: "exec_reachable L cfg out err c s \<Longrightarrow> stream_inv out err s"
  by (induction rule: exec_reachable.induct) (auto intro: stream_inv_start stream_inv_step)

section \<open>Refinement\<close>

text \<open>The run that the functional model is given for a state in which the future has ended.\<close>

fun ending_of :: "phase \<Rightarrow> (io_error + int option) option \<Rightarrow> exec_ending" where
  "ending_of (Cancelled e) w = e"
| "ending_of ph (Some r) = Exited r"
| "ending_of ph None = DeadlineWaiting"

definition run_of :: "io_error + u32 option \<Rightarrow> exec_state \<Rightarrow> exec_run" where
  "run_of pid s = \<lparr>spawned = pid, chunks = delivered s, ending = ending_of (at_phase s) (ended s)\<rparr>"

text \<open>What the future has returned, if anything.\<close>

fun result_of :: "phase \<Rightarrow> (boxed_error, unit) res option" where
  "result_of (Finished r) = Some r"
| "result_of _ = None"

lemma send_chunks_snoc:
  "send_chunks L chs c = (c1, Ok u) \<Longrightarrow> send_chunks L (chs @ [ch]) c =
    (case write_frame (msg_type (chunk_frame L ch)) (payload (chunk_frame L ch)) c1 of
        (c', Ok _) \<Rightarrow> (c', Ok ())
      | (c', Err e) \<Rightarrow> (c', Err (BoxProtocol e))
      | (c', Panic) \<Rightarrow> (c', Panic))"
  by (induction chs arbitrary: c) (auto split: prod.splits res.splits)

definition wire_inv ::
    "('vk, 'sk) lib \<Rightarrow> io_error + u32 option \<Rightarrow> codec \<Rightarrow> exec_state \<Rightarrow> bool" where
  "wire_inv L pid c s \<longleftrightarrow>
     (if running (at_phase s)
      then send_chunks L (delivered s) c = (wire_out s, Ok ()) \<and>
        (case at_phase s of SendingExit st \<Rightarrow> ended s = Some (Inr st) | _ \<Rightarrow> ended s = None)
      else \<exists>acts. exec_future L (run_of pid s) c = (wire_out s, acts, result_of (at_phase s)))"

lemma wire_inv_start: "wire_inv L pid c (exec_start out err c)"
  by (simp add: wire_inv_def exec_start_def)

lemma wire_inv_step:
  assumes "exec_step L cfg s s'" and "wire_inv L pid c s"
  shows "wire_inv L pid c s'"
  using assms
proof (cases rule: exec_step.cases)
  case (send ch c' u)
  with assms(2) send_chunks_snoc [of L "delivered s" c "wire_out s" "()" ch] show ?thesis
    by (simp add: wire_inv_def)
next
  case (send_fails ch c' e)
  with assms(2) send_chunks_snoc [of L "delivered s" c "wire_out s" "()" ch] show ?thesis
    by (simp add: wire_inv_def exec_future_def run_of_def)
next
  case (finish status c' r)
  with assms(2) show ?thesis
    by (simp add: wire_inv_def exec_future_def run_of_def)
next
  case (wait_fails e)
  with assms(2) show ?thesis
    by (simp add: wire_inv_def exec_future_def run_of_def)
next
  case (deadline n e c')
  with assms(2) show ?thesis
    by (cases "at_phase s") (auto simp: wire_inv_def exec_future_def run_of_def)
qed (auto simp: wire_inv_def run_of_def split: phase.splits)

lemma wire_inv_reachable: "exec_reachable L cfg out err c s \<Longrightarrow> wire_inv L pid c s"
  by (induction rule: exec_reachable.induct) (auto intro: wire_inv_start wire_inv_step)

text \<open>The child was waited for only after both pipes were closed and the channel was empty.\<close>

definition drained_inv :: "exec_state \<Rightarrow> bool" where
  "drained_inv s \<longleftrightarrow>
     (at_phase s = Waiting \<or> ended s \<noteq> None \<longrightarrow>
        queue s = [] \<and> in_hand (at_phase s) = [] \<and> \<not> out_open s \<and> \<not> err_open s) \<and>
     (running (at_phase s) \<and> ended s \<noteq> None \<longrightarrow> (\<exists>st. at_phase s = SendingExit st)) \<and>
     (\<forall>st. at_phase s = SendingExit st \<longrightarrow> ended s \<noteq> None) \<and>
     (at_phase s = Finished (Ok ()) \<longrightarrow> ended s \<noteq> None)"

lemma drained_inv_step:
  assumes "exec_step L cfg s s'" and "drained_inv s"
  shows "drained_inv s'"
  using assms
proof (cases rule: exec_step.cases)
  case (deadline n e c')
  with assms(2) show ?thesis
    by (cases "at_phase s") (auto simp: drained_inv_def)
qed (simp_all add: drained_inv_def, (fastforce | simp)+)

lemma drained_inv_reachable: "exec_reachable L cfg out err c s \<Longrightarrow> drained_inv s"
proof (induction rule: exec_reachable.induct)
  case start
  then show ?case by (simp add: drained_inv_def exec_start_def)
next
  case (step s s')
  then show ?case by (blast intro: drained_inv_step)
qed

definition deadline_inv :: "server_config \<Rightarrow> exec_state \<Rightarrow> bool" where
  "deadline_inv cfg s \<longleftrightarrow> (\<forall>e. at_phase s = Cancelled e \<longrightarrow> unat (exec_timeout cfg) \<le> elapsed s)"

lemma deadline_inv_reachable: "exec_reachable L cfg out err c s \<Longrightarrow> deadline_inv cfg s"
proof (induction rule: exec_reachable.induct)
  case start
  then show ?case by (simp add: deadline_inv_def exec_start_def)
next
  case (step s s')
  from step.hyps(2) step.IH show ?case
    by (cases rule: exec_step.cases) (auto simp: deadline_inv_def)
qed

section \<open>Properties\<close>

text \<open>
  C5. The functional model of a command covers every interleaving. Whenever the \<open>exec\<close> future has ended in
  the concurrent model, by returning or by the deadline, the functional model on the corresponding run
  leaves the same bytes on the connection and has the same result.
\<close>

theorem exec_future_refines:
  assumes "exec_reachable L cfg out err c s" and "\<not> running (at_phase s)"
  shows "\<exists>acts. exec_future L (run_of pid s) c = (wire_out s, acts, result_of (at_phase s))"
  using wire_inv_reachable [OF assms(1), of pid] assms(2) by (simp add: wire_inv_def)

text \<open>
  C6. No output is lost, reordered or made up. In every reachable state the chunks sent so far hold a
  prefix of what the child wrote to standard output and a prefix of what it wrote to standard error,
  in chunks of at least one and at most 16384 bytes. When the command has ended without an error and no
  read of a pipe failed, they hold all of both.
\<close>

theorem exec_output_complete:
  assumes "exec_reachable L cfg out err c s"
  shows "prefix (outs (delivered s)) out \<and> prefix (errs (delivered s)) err \<and>
    list_all (\<lambda>ch. 1 \<le> chunk_size ch \<and> chunk_size ch \<le> 16384) (delivered s) \<and>
    (at_phase s = Finished (Ok ()) \<and> \<not> out_failed s \<and> \<not> err_failed s \<longrightarrow>
      outs (delivered s) = out \<and> errs (delivered s) = err)"
proof -
  have i: "stream_inv out err s" using stream_inv_reachable [OF assms] .
  then have "prefix (outs (delivered s)) out" "prefix (errs (delivered s)) err"
    by (auto simp: stream_inv_def all_chunks_def)
  moreover have "list_all (\<lambda>ch. 1 \<le> chunk_size ch \<and> chunk_size ch \<le> 16384) (delivered s)"
    using i by (auto simp: stream_inv_def all_chunks_def read_buffer_def list_all_iff Suc_le_eq)
  moreover have "outs (delivered s) = out \<and> errs (delivered s) = err"
    if "at_phase s = Finished (Ok ())" "\<not> out_failed s" "\<not> err_failed s"
    using i drained_inv_reachable [OF assms] that
    by (auto simp: stream_inv_def drained_inv_def all_chunks_def)
  ultimately show ?thesis by blast
qed

text \<open>How many steps the tasks can still make.\<close>

fun phase_rank :: "phase \<Rightarrow> nat" where
  "phase_rank Receiving = 3"
| "phase_rank (Sending ch) = 4"
| "phase_rank Waiting = 2"
| "phase_rank (SendingExit st) = 1"
| "phase_rank (Finished r) = 0"
| "phase_rank (Cancelled e) = 0"

definition exec_measure :: "exec_state \<Rightarrow> nat" where
  "exec_measure s = 3 * (length (out_left s) + length (err_left s)) + 2 * length (queue s) +
     (if out_open s then 1 else 0) + (if err_open s then 1 else 0) + phase_rank (at_phase s)"

lemma exec_step_decreases:
  assumes "exec_step L cfg s s'" and "elapsed s' = elapsed s"
  shows "exec_measure s' < exec_measure s"
  using assms
proof (cases rule: exec_step.cases)
  case (read_out b rest)
  then show ?thesis by (cases b) (simp_all add: exec_measure_def)
next
  case (read_err b rest)
  then show ?thesis by (cases b) (simp_all add: exec_measure_def)
next
  case (deadline n e c')
  then show ?thesis by (cases "at_phase s") (simp_all add: exec_measure_def)
qed (auto simp: exec_measure_def)

lemma write_frame_not_Panic: "write_frame t p c \<noteq> (c', Panic)"
  by (auto simp: write_frame_def Let_def wire_simps split: prod.splits sum.splits)

lemma read_step:
  assumes "out_open s \<or> err_open s"
  shows "\<exists>s'. exec_step L cfg s s' \<and> elapsed s' = elapsed s"
proof (cases "out_open s")
  case True
  show ?thesis
  proof (cases "out_left s")
    case Nil
    from exec_step.eof_out [OF True Nil] show ?thesis by fastforce
  next
    case (Cons b r)
    then have "exec_step L cfg s (s\<lparr>out_left := r, queue := queue s @ [ChunkOut [b]]\<rparr>)"
      using True by (intro exec_step.read_out) (simp_all add: read_buffer_def)
    then show ?thesis by fastforce
  qed
next
  case False
  with assms have True: "err_open s" by simp
  show ?thesis
  proof (cases "err_left s")
    case Nil
    from exec_step.eof_err [OF True Nil] show ?thesis by fastforce
  next
    case (Cons b r)
    then have "exec_step L cfg s (s\<lparr>err_left := r, queue := queue s @ [ChunkErr [b]]\<rparr>)"
      using True by (intro exec_step.read_err) (simp_all add: read_buffer_def)
    then show ?thesis by fastforce
  qed
qed

lemma exec_step_possible:
  assumes "running (at_phase s)"
  shows "\<exists>s'. exec_step L cfg s s' \<and> elapsed s' = elapsed s"
proof (cases "at_phase s")
  case Receiving
  show ?thesis
  proof (cases "queue s")
    case Nil
    show ?thesis
    proof (cases "out_open s \<or> err_open s")
      case True
      then show ?thesis by (rule read_step)
    next
      case False
      with exec_step.closed [OF Receiving Nil] show ?thesis by fastforce
    qed
  next
    case (Cons ch q)
    from exec_step.receive [OF Receiving Cons] show ?thesis by fastforce
  qed
next
  case (Sending ch)
  obtain c' r where w: "write_frame (msg_type (chunk_frame L ch)) (payload (chunk_frame L ch)) (wire_out s) = (c', r)"
    by fastforce
  then show ?thesis
  proof (cases r)
    case (Ok u)
    with exec_step.send [OF Sending] w show ?thesis by fastforce
  next
    case (Err e)
    with exec_step.send_fails [OF Sending] w show ?thesis by fastforce
  qed (use w write_frame_not_Panic in blast)
next
  case Waiting
  from exec_step.wait_ok [OF this] show ?thesis by fastforce
next
  case (SendingExit st)
  obtain c' r where "send_json L EXEC_EXIT (exit_json (exit_code_of st)) (wire_out s) = (c', r)" by fastforce
  from exec_step.finish [OF SendingExit this] show ?thesis by fastforce
qed (use assms in simp_all)

text \<open>
  The tasks neither deadlock nor run for ever, given that the child closes its pipes and ends: as long
  as the future is running some task can make a step without time passing, and every such step, the
  readers' included, decreases a measure, so there are at most as many of them as that number. The
  future is cancelled only when the configured time, at least one second, is over.
\<close>

theorem exec_makes_progress:
  assumes "exec_reachable L cfg out err c s"
  shows "(running (at_phase s) \<longrightarrow> (\<exists>s'. exec_step L cfg s s' \<and> elapsed s' = elapsed s)) \<and>
    (\<forall>s'. exec_step L cfg s s' \<and> elapsed s' = elapsed s \<longrightarrow> exec_measure s' < exec_measure s) \<and>
    (\<forall>e. at_phase s = Cancelled e \<longrightarrow> 1 \<le> elapsed s \<and> unat (exec_timeout_secs cfg) \<le> elapsed s)"
proof (intro conjI allI impI)
  assume "running (at_phase s)"
  then show "\<exists>s'. exec_step L cfg s s' \<and> elapsed s' = elapsed s" by (rule exec_step_possible)
next
  fix s'
  assume "exec_step L cfg s s' \<and> elapsed s' = elapsed s"
  then show "exec_measure s' < exec_measure s" using exec_step_decreases by blast
next
  fix e
  assume "at_phase s = Cancelled e"
  then have t: "unat (exec_timeout cfg) \<le> elapsed s"
    using deadline_inv_reachable [OF assms] by (simp add: deadline_inv_def)
  have "exec_timeout_secs cfg \<le> exec_timeout cfg" "1 \<le> exec_timeout cfg"
    by (simp_all add: exec_timeout_def)
  then have "unat (exec_timeout_secs cfg) \<le> unat (exec_timeout cfg)" "1 \<le> unat (exec_timeout cfg)"
    by (simp_all add: word_le_nat_alt)
  with t show "1 \<le> elapsed s" "unat (exec_timeout_secs cfg) \<le> elapsed s" by simp_all
qed

section \<open>A concrete run\<close>

definition demo_link :: codec where
  "demo_link = codec_new (pipe_end [])"

lemma demo_link_good [simp]: "good_link demo_link"
  by (simp add: good_link_def demo_link_def codec_limit_default) (simp add: codec_new_def)

lemma demo_chunk_fits: "length (payload (chunk_frame (demo_lib d) (ChunkOut [7]))) \<le> 1048576"
  by (simp add: data_json_def) (simp add: demo_lib_def)

lemma demo_exit_fits: "fits (demo_lib d) (exit_json 0)"
  by (simp add: fits_def exit_json_def demo_lib_def string_of_int_def string_of_nat_small)

lemma demo_trace:
  "\<exists>s. exec_reachable (demo_lib []) cfg [7] [] demo_link s \<and> at_phase s = Finished (Ok ()) \<and>
     \<not> out_failed s \<and> \<not> err_failed s \<and> delivered s = [ChunkOut [7]]"
proof -
  let ?L = "demo_lib []" and ?f = "chunk_frame (demo_lib []) (ChunkOut [7])"
  let ?R = "exec_reachable ?L cfg [7] [] demo_link"
  let ?s0 = "exec_start [7] [] demo_link"
  let ?s1 = "?s0\<lparr>out_left := [], queue := [ChunkOut [7]]\<rparr>"
  have "exec_step ?L cfg ?s0 (?s0\<lparr>out_left := [], queue := queue ?s0 @ [ChunkOut [7]]\<rparr>)"
    by (rule exec_step.read_out) (simp_all add: exec_start_def read_buffer_def)
  then have "?R ?s1"
    using exec_reachable.step [OF exec_reachable.start] by (simp add: exec_start_def)
  then have "?R (?s1\<lparr>out_open := False\<rparr>)"
    by (rule exec_reachable.step) (rule exec_step.eof_out, simp_all add: exec_start_def)
  then have 2: "?R (?s1\<lparr>out_open := False, err_open := False\<rparr>)"
    by (rule exec_reachable.step) (use exec_step.eof_err [of "?s1\<lparr>out_open := False\<rparr>" ?L cfg] in \<open>simp add: exec_start_def\<close>)
  let ?s3 = "?s1\<lparr>out_open := False, err_open := False, queue := [], at_phase := Sending (ChunkOut [7])\<rparr>"
  from 2 have 3: "?R ?s3"
    by (rule exec_reachable.step)
       (use exec_step.receive [of "?s1\<lparr>out_open := False, err_open := False\<rparr>" "ChunkOut [7]" "[]" ?L cfg]
        in \<open>simp add: exec_start_def\<close>)
  let ?s4 = "?s3\<lparr>at_phase := Receiving, delivered := [ChunkOut [7]], wire_out := emit [?f] demo_link\<rparr>"
  have "write_frame (msg_type ?f) (payload ?f) (wire_out ?s3) = (emit [?f] demo_link, Ok ())"
    using write_frame_emit [OF demo_link_good demo_chunk_fits [of "[]"], of "msg_type ?f"]
    by (simp add: exec_start_def)
  from exec_step.send [OF _ this] have "exec_step ?L cfg ?s3 ?s4"
    by (simp add: exec_start_def)
  with 3 have "?R ?s4" by (rule exec_reachable.step)
  then have 5: "?R (?s4\<lparr>at_phase := Waiting\<rparr>)"
    by (rule exec_reachable.step) (rule exec_step.closed, simp_all add: exec_start_def)
  let ?s6 = "?s4\<lparr>at_phase := SendingExit (Some 0), ended := Some (Inr (Some 0))\<rparr>"
  have "exec_step ?L cfg (?s4\<lparr>at_phase := Waiting\<rparr>) ?s6"
    using exec_step.wait_ok [of "?s4\<lparr>at_phase := Waiting\<rparr>" ?L cfg "Some 0"] by simp
  with 5 have 6: "?R ?s6" by (rule exec_reachable.step)
  let ?c = "emit [exit_frame ?L 0] (emit [?f] demo_link)"
  have "send_json ?L EXEC_EXIT (exit_json (exit_code_of (Some 0))) (wire_out ?s6) = (?c, Ok ())"
    by (simp add: send_json_emit demo_exit_fits exit_code_of_def exit_frame_def del: chunk_frame.simps)
  from exec_step.finish [OF _ this] have "exec_step ?L cfg ?s6 (?s6\<lparr>at_phase := Finished (Ok ()), wire_out := ?c\<rparr>)"
    by simp
  with 6 have "?R (?s6\<lparr>at_phase := Finished (Ok ()), wire_out := ?c\<rparr>)" by (rule exec_reachable.step)
  then show ?thesis
    by (intro exI [of _ "?s6\<lparr>at_phase := Finished (Ok ()), wire_out := ?c\<rparr>"] conjI)
       (simp_all add: exec_start_def)
qed

theorem exec_future_refines_witness:
  "\<exists>s acts. exec_future (demo_lib []) (run_of (Inr None) s) demo_link = (wire_out s, acts, Some (Ok ()))"
proof -
  obtain s where s: "exec_reachable (demo_lib []) local_dev_init [7] [] demo_link s" "at_phase s = Finished (Ok ())"
    using demo_trace by blast
  then show ?thesis using exec_future_refines [OF s(1), of "Inr None"] by auto
qed

theorem exec_output_complete_witness:
  "\<exists>s :: exec_state. at_phase s = Finished (Ok ()) \<and> outs (delivered s) = [7]"
proof -
  obtain s where s: "exec_reachable (demo_lib []) local_dev_init [7] [] demo_link s"
    "at_phase s = Finished (Ok ())" "\<not> out_failed s" "\<not> err_failed s"
    using demo_trace by blast
  then show ?thesis using exec_output_complete [OF s(1)] by blast
qed

theorem exec_makes_progress_witness:
  "\<exists>s'. exec_step (demo_lib []) local_dev_init (exec_start [7] [] demo_link) s' \<and>
     exec_measure s' < exec_measure (exec_start [7] [] demo_link)"
proof -
  have "running (at_phase (exec_start [7] [] demo_link))" by (simp add: exec_start_def)
  then show ?thesis
    using exec_makes_progress [OF exec_reachable.start [of "demo_lib []" local_dev_init "[7]" "[]" demo_link]]
    by blast
qed

section \<open>Frame sizes\<close>

text \<open>serde_json writes an object with one member in a few bytes more than its texts, if nothing is escaped.\<close>

definition json_len_spec :: "('vk, 'sk) lib \<Rightarrow> bool" where
  "json_len_spec L \<longleftrightarrow> (\<forall>t. list_all b64_char t \<longrightarrow>
     length (json_write L (JObj [(''data'', JStr t)])) \<le> length t + 16)"

text \<open>
  Output frames always fit. The reader tasks' buffer keeps every output frame far below the default
  maximum of one MiB, after base64 and JSON encoding, so a command never fails because of the size of
  its output.
\<close>

theorem stream_frames_fit:
  assumes "exec_reachable L cfg out err c s" and "b64_spec L" and "json_len_spec L"
  shows "list_all (\<lambda>ch. length (payload (chunk_frame L ch)) \<le> 21864) (all_chunks s) \<and>
    21864 < unat DEFAULT_MAX_PAYLOAD_LEN"
proof
  have "length (json_write L (data_json L b)) \<le> 21864" if "length b \<le> 16384" for b
  proof -
    have "length (b64_encode L b) = 4 * ((length b + 2) div 3)" "list_all b64_char (b64_encode L b)"
      using assms(2) by (auto simp: b64_spec_def)
    moreover have "(length b + 2) div 3 \<le> 5462" using that by simp
    ultimately show ?thesis
      using assms(3) [unfolded json_len_spec_def, rule_format, of "b64_encode L b"] by (simp add: data_json_def)
  qed
  then have "length (payload (chunk_frame L ch)) \<le> 21864" if "chunk_size ch \<le> 16384" for ch
    using that by (cases ch) simp_all
  then show "list_all (\<lambda>ch. length (payload (chunk_frame L ch)) \<le> 21864) (all_chunks s)"
    using stream_inv_reachable [OF assms(1)]
    by (auto simp: stream_inv_def read_buffer_def list_all_iff)
  show "21864 < unat DEFAULT_MAX_PAYLOAD_LEN" by (simp add: DEFAULT_MAX_PAYLOAD_LEN_def)
qed

theorem stream_frames_fit_witness:
  "length (payload (chunk_frame (demo_lib []) (ChunkOut [7]))) \<le> 21864"
proof -
  have "json_len_spec (demo_lib [])"
    by (simp add: json_len_spec_def) (simp add: demo_lib_def)
  moreover obtain s where "exec_reachable (demo_lib []) local_dev_init [7] [] demo_link s"
    "delivered s = [ChunkOut [7]]"
    using demo_trace by blast
  ultimately show ?thesis
    using stream_frames_fit [of "demo_lib []" local_dev_init "[7]" "[]" demo_link s]
    by (simp add: all_chunks_def del: chunk_frame.simps)
qed

section \<open>What a deadline can do to the connection\<close>

text \<open>
  The deadline drops a \<open>write_frame\<close> that is under way, and the handler then writes a complete frame on the
  same connection. If the magic of the dropped frame had gone out, the peer cannot read the answer.
\<close>

lemma read_after_cut:
  assumes "inp (inner c) = MAGIC @ frame_enc g @ r"
  shows "snd (read_frame c) = Err (UnsupportedVersion 0x53)"
proof -
  obtain x where x: "take 9 (inp (inner c)) = MAGIC @ 0x53 # x" "length (take 9 (inp (inner c))) = 9"
    using assms by (simp add: frame_enc_def header_bytes_def MAGIC_bytes to_be_bytes_def VERSION_def)
  then have "parse_header (take 9 (inp (inner c))) = Err (UnsupportedVersion 0x53)"
    by (simp add: parse_header_def MAGIC_bytes VERSION_def HEADER_LEN_def)
  moreover have "9 \<le> length (inp (inner c))" using x(2) by simp
  ultimately show ?thesis
    by (simp add: read_frame_def read_exact_def HEADER_LEN_def)
qed

lemma deadline_corrupts_stream:
  assumes "good_link c" and "sent (inner c) = []" and "check_shell (uni_debug L) (policy cfg) shell = Ok ()"
    and "2 \<le> length (shell_argv cfg)" and "spawned run = Inr pid" and "chunks run = []"
    and "ending run = DeadlineWriting ch 3" and "length (payload (chunk_frame L ch)) \<le> 1048576"
    and "fits L (exit_json 124)"
    and "run_one_exec L cfg run shell c = (c', acts, r)" and "inp (inner peer) = sent (inner c')"
  shows "r = Ok () \<and> snd (read_frame peer) = Err (UnsupportedVersion 0x53)"
proof -
  have t: "take 3 (frame_enc f) = MAGIC" for f
    by (simp add: frame_enc_def header_bytes_def MAGIC_bytes numeral_eq_Suc)
  let ?c1 = "write_cut (chunk_frame L ch) 3 c"
  have l: "room (inner c) = None" "codec_limit c = 1048576"
    using assms(1) by (auto simp: good_link_def writable_def)
  then have c1: "?c1 = c\<lparr>inner := (inner c)\<lparr>sent := MAGIC\<rparr>\<rparr>"
    using assms(2,8) by (simp add: write_cut_def t write_all_def)
  then have "good_link ?c1"
    using assms(1) by (simp add: good_link_def codec_limit_def writable_def)
  with assms(9) have "send_json L EXEC_EXIT (exit_json 124) ?c1 = (emit [exit_frame L 124] ?c1, Ok ())"
    by (simp add: send_json_emit exit_frame_def)
  with assms(3-7,10) have r: "r = Ok ()" "c' = emit [exit_frame L 124] ?c1"
    by (auto simp: run_one_exec_def exec_future_def Let_def)
  with assms(11) c1 have "inp (inner peer) = MAGIC @ frame_enc (exit_frame L 124) @ []" by simp
  with r(1) show ?thesis using read_after_cut by blast
qed

text \<open>The kill may also come after the child was waited for, when its process id is free again.\<close>

lemma kill_after_reap:
  assumes "check_shell (uni_debug L) (policy cfg) shell = Ok ()" and "2 \<le> length (shell_argv cfg)"
    and "spawned run = Inr (Some p)" and "chunks run = []" and "ending run = DeadlineExit status n"
    and "run_one_exec L cfg run shell c = (c', acts, r)"
  shows "\<exists>a. acts = [a, Reap, Kill p]"
  using assms
  by (auto simp: run_one_exec_def exec_future_def Let_def drop_child_def split: prod.splits)

end
