(* ===== verification/Connect_Props.thy ===== *)
theory Connect_Props
  imports Connect
begin

text \<open>
  Pinning: a connection is used only when the server presented the pinned key, and pins change only with
  consent.
\<close>

section \<open>Consent\<close>

text \<open>The user agreed in advance, or can be asked and has an answer that counts as consent.\<close>

definition consent :: "('vk, 'sk) lib \<Rightarrow> bool \<Rightarrow> client_world \<Rightarrow> bool" where
  "consent L accept_new w \<longleftrightarrow> accept_new \<or> (tty w \<and> (\<exists>l. Inr l \<in> set (answers w) \<and> yes (uni_lower L) l))"

lemma yes_Nil [simp]: "\<not> yes uni []"
  by (simp add: yes_def to_lowercase_def)

lemma ask_True: "ask L q w = (w', Ok True) \<Longrightarrow> \<exists>l. Inr l \<in> set (answers w) \<and> yes (uni_lower L) l"
  by (auto simp: ask_def res_iff eprint_def flush_stdout_def read_line_def
      split: if_splits option.splits list.splits sum.splits)

lemma eprintln_Ok: "eprintln s w = (w', Ok u) \<Longrightarrow> w' = w\<lparr>err_text := err_text w @ s @ [nl]\<rparr>"
  by (auto simp: eprintln_def eprint_def split: if_splits)

lemma confirm_consent:
  "confirm_new L h p fp accept_new w = (w', Ok True) \<Longrightarrow> consent L accept_new w"
  "confirm_replace L h p fp accept_new w = (w', Ok True) \<Longrightarrow> consent L accept_new w"
  by (auto simp: confirm_new_def confirm_replace_def consent_def res_iff is_terminal_def
      dest!: eprintln_Ok ask_True split: if_splits)

lemma confirm_intros [keeps_intros, benign_intros]:
  "keeps disk (confirm_new L h p fp accept_new)" "keeps disk (confirm_replace L h p fp accept_new)"
  "benign (confirm_new L h p fp accept_new)" "benign (confirm_replace L h p fp accept_new)"
  unfolding confirm_new_def confirm_replace_def ask_def
  by (auto intro!: keeps_intros benign_intros)

lemma connect_intros [keeps_intros, benign_intros]:
  "keeps disk (connect_pinned L h p pin)" "keeps disk (connect_probe h p)"
  "benign (connect_pinned L h p pin)" "benign (connect_probe h p)"
  unfolding connect_pinned_def connect_probe_def
  by (auto intro!: keeps_intros benign_intros)

lemma consent_mono: "benign m \<Longrightarrow> m w = (w', r) \<Longrightarrow> consent L a w' \<Longrightarrow> consent L a w"
  by (auto simp: consent_def dest: benignD)

section \<open>Connections\<close>

text \<open>The attempts that \<open>connect_pinned\<close> accepts: the certificate of the peer has the pinned key.\<close>

definition pinned_stream :: "('vk, 'sk) lib \<Rightarrow> tls_attempt \<Rightarrow> bytes \<Rightarrow> stream \<Rightarrow> bool" where
  "pinned_stream L att pin tls \<longleftrightarrow> att_handshake att = Inr tls \<and>
     (\<exists>der. att_peer att = Inr (Some (Inr der)) \<and> spki_sha256_bytes_from_cert_der L der = Ok pin)"

lemma connect_pinned_Ok:
  assumes "connect_pinned L host port pin w = (w', Ok tls)"
  shows "w' = w\<lparr>dials := Suc (dials w)\<rparr> \<and> pinned_stream L (net w (dials w) host port) pin tls"
  using assms
  by (auto simp: connect_pinned_def res_iff dial_def pinned_stream_def split: if_splits)

lemma connect_pinned_not_mismatch:
  assumes "pinned_stream L (net w (dials w) host port) pin tls"
    and "att_tcp (net w (dials w) host port) = Inr ()" and "att_build (net w (dials w) host port) = Inr ()"
  shows "connect_pinned L host port pin w = (w\<lparr>dials := Suc (dials w)\<rparr>, Ok tls)"
  using assms
  by (auto simp: connect_pinned_def res_iff dial_def pinned_stream_def)

lemma store_pin_benign [benign_intros]: "benign (store_pin L verb host port p fp kh)"
  by (auto simp: store_pin_def Let_def split: prod.split intro!: benign_intros)

lemma resolve_benign [benign_intros]: "benign (resolve_tls_pin L host port p accept_new)"
  unfolding resolve_tls_pin_def
  by (auto intro!: benign_intros split: res.split core_error.split)

text \<open>Both trust decisions: probe, fingerprint, question; the continuation runs only with consent.\<close>

definition probe_and_ask ::
    "('vk, 'sk) lib \<Rightarrow> (io_error \<Rightarrow> boxed_error) \<Rightarrow> (core_error \<Rightarrow> boxed_error) \<Rightarrow> str \<Rightarrow> u16 \<Rightarrow>
     (str \<Rightarrow> (boxed_error, bool) act) \<Rightarrow> (str \<Rightarrow> (boxed_error, 'a) act) \<Rightarrow> (boxed_error, 'a) act" where
  "probe_and_ask L g1 g2 host port question cont =
     and_then (act_err g1 (connect_probe host port)) (\<lambda>der.
     and_then (attempt (map_err g2 (spki_sha256_hex_from_cert_der L der))) (\<lambda>fp_hex.
     and_then (question fp_hex) (\<lambda>ok.
     if \<not> ok then fail (BoxMsg ''Host key not accepted.'') else cont fp_hex)))"

lemma probe_and_ask_split:
  assumes "probe_and_ask L g1 g2 host port question cont w = (w', r)"
    and keep: "\<And>fp. keeps disk (question fp)" "\<And>fp. benign (question fp)"
    and yes: "\<And>fp w1 w2. question fp w1 = (w2, Ok True) \<Longrightarrow> consent L a w1"
  shows "\<not> is_ok r \<and> disk w' = disk w \<or>
    (consent L a w \<and> (\<exists>fp w1. disk w1 = disk w \<and> net w1 = net w \<and> cont fp w1 = (w', r)))"
proof -
  obtain w1 x where pr: "act_err g1 (connect_probe host port) w = (w1, x)" by fastforce
  have k: "keeps disk (act_err g1 (connect_probe host port))" "benign (act_err g1 (connect_probe host port))"
    by (auto intro!: keeps_intros benign_intros)
  have d1: "disk w1 = disk w" "net w1 = net w"
    using keepsD [OF k(1) pr] benignD [OF k(2) pr] by auto
  show ?thesis
  proof (cases "\<exists>der fp. x = Ok der \<and> spki_sha256_hex_from_cert_der L der = Ok fp")
    case False
    with assms(1) pr d1 show ?thesis
      by (cases x)
         (auto simp: probe_and_ask_def and_then_def attempt_def res_iff split: prod.splits res.splits)
  next
    case True
    then obtain der fp where x: "x = Ok der" "spki_sha256_hex_from_cert_der L der = Ok fp" by blast
    obtain w2 y where q: "question fp w1 = (w2, y)" by fastforce
    have d2: "disk w2 = disk w1" "net w2 = net w1"
      using keepsD [OF keep(1) q] benignD [OF keep(2) q] by auto
    from assms(1) pr x q have rest: "(case y of Ok s \<Rightarrow> (if \<not> s then fail (BoxMsg ''Host key not accepted.'') else cont fp) w2
        | Err e \<Rightarrow> (w2, Err e) | Panic \<Rightarrow> (w2, Panic)) = (w', r)"
      by (simp add: probe_and_ask_def and_then_def attempt_def)
    show ?thesis
    proof (cases "y = Ok True")
      case True
      with yes [of fp w1 w2] q consent_mono [OF k(2) pr] have "consent L a w" by blast
      with rest True d1 d2 show ?thesis by auto
    next
      case False
      with rest d1 d2 show ?thesis by (auto simp: fail_def split: res.splits if_splits)
    qed
  qed
qed

lemma resolve_via_probe:
  "known_hosts_load (uni_lower L) (disk w) p = Ok kh \<Longrightarrow>
   pin_hex (uni_lower L) kh host port = Err (KnownHostsMissing m) \<Longrightarrow>
   resolve_tls_pin L host port p a w =
   probe_and_ask L (\<lambda>e. BoxMsg (''TLS connect (trust setup): '' @ io_error_display e))
     (\<lambda>e. BoxMsg (''server certificate: '' @ core_error_display e)) host port
     (\<lambda>fp. confirm_new L host port fp a) (\<lambda>fp. store_pin L ''Pinned '' host port p fp kh) w"
  by (simp add: resolve_tls_pin_def probe_and_ask_def and_then_def [of "from_disk _"] from_disk_def)

text \<open>The three ways \<open>resolve_tls_pin\<close> can go: stored, failed without a change, or stored with consent.\<close>

lemma resolve_split:
  assumes "resolve_tls_pin L host port p a w = (w', r)"
  obtains (stored) kh pin where "known_hosts_load (uni_lower L) (disk w) p = Ok kh"
      "pin_hex (uni_lower L) kh host port = Ok pin" "r = Ok pin" "w' = w"
    | (failed) "\<not> is_ok r" "disk w' = disk w"
    | (fresh) kh fp w1 where "consent L a w" "known_hosts_load (uni_lower L) (disk w) p = Ok kh"
      "disk w1 = disk w" "store_pin L ''Pinned '' host port p fp kh w1 = (w', r)"
proof (cases "known_hosts_load (uni_lower L) (disk w) p")
  case kh: (Ok kh)
  show ?thesis
  proof (cases "pin_hex (uni_lower L) kh host port")
    case (Ok pin)
    with kh assms show ?thesis
      by (intro stored) (auto simp: resolve_tls_pin_def and_then_def from_disk_def ret_def)
  next
    case (Err e)
    then obtain m where e: "pin_hex (uni_lower L) kh host port = Err (KnownHostsMissing m)"
      by (auto simp: pin_hex_def Let_def res_iff)
    have "\<not> is_ok r \<and> disk w' = disk w \<or> (consent L a w \<and>
      (\<exists>fp w1. disk w1 = disk w \<and> net w1 = net w \<and> store_pin L ''Pinned '' host port p fp kh w1 = (w', r)))"
      by (rule probe_and_ask_split [OF assms [unfolded resolve_via_probe [OF kh e]]])
         (rule confirm_intros confirm_consent(1), assumption?)+
    with kh show ?thesis using failed fresh by blast
  next
    case Panic
    then show ?thesis by (simp add: pin_hex_def Let_def)
  qed
qed (use assms in \<open>auto simp: resolve_tls_pin_def and_then_def from_disk_def intro: failed\<close>)

lemma replace_split:
  assumes "replace_pin L host port p a w = (w', r)"
  shows "\<not> is_ok r \<and> disk w' = disk w \<or>
    (consent L a w \<and> (\<exists>fp w1. disk w1 = disk w \<and> net w1 = net w \<and>
      and_then (from_disk (\<lambda>d. map_err BoxCore (known_hosts_load (uni_lower L) d p))) (\<lambda>kh.
       and_then (store_pin L ''Replaced pin for '' host port p fp kh) (\<lambda>new_pin.
       act_err (\<lambda>e. BoxMsg (io_error_display e)) (connect_pinned L host port new_pin))) w1 = (w', r)))"
proof -
  have "replace_pin L host port p a =
   probe_and_ask L (\<lambda>e. BoxMsg (''TLS connect (host key changed): '' @ io_error_display e))
     (\<lambda>e. BoxMsg (''server certificate: '' @ core_error_display e)) host port
     (\<lambda>fp. confirm_replace L host port fp a) (\<lambda>fp.
       and_then (from_disk (\<lambda>d. map_err BoxCore (known_hosts_load (uni_lower L) d p))) (\<lambda>kh.
       and_then (store_pin L ''Replaced pin for '' host port p fp kh) (\<lambda>new_pin.
       act_err (\<lambda>e. BoxMsg (io_error_display e)) (connect_pinned L host port new_pin))))"
    by (simp add: replace_pin_def probe_and_ask_def)
  from assms [unfolded this] show ?thesis
    by (rule probe_and_ask_split) (rule confirm_intros confirm_consent(2), assumption?)+
qed

lemma store_pin_Ok:
  assumes "store_pin L verb host port p fp kh w = (w', Ok pin)"
  shows "\<exists>kh'. insert_hex (uni_lower L) host port fp kh = (kh', Ok ()) \<and>
    known_hosts_save L kh' p (disk w) = (disk w', Ok ()) \<and> pin_hex (uni_lower L) kh' host port = Ok pin"
  using assms
  by (auto simp: store_pin_def Let_def res_iff on_disk_def dest!: eprintln_Ok split: prod.splits)

section \<open>Properties\<close>

text \<open>
  C14. Pins change only with consent. Unless the user passed \<open>--accept-new\<close> or there is a terminal on which
  some line says yes, connecting never changes a file, whatever keys the server presents and however the
  attempt ends.
\<close>

theorem trust_needs_consent:
  assumes "connect_with_pin_management L host port known_path accept_new w = (w', r)"
    and "\<not> consent L accept_new w"
  shows "disk w' = disk w"
proof -
  obtain w1 x where rs: "resolve_tls_pin L host port known_path accept_new w = (w1, x)" by fastforce
  have d1: "disk w1 = disk w"
    using rs assms(2) by (cases rule: resolve_split) auto
  show ?thesis
  proof (cases x)
    case (Ok pin)
    obtain w2 y where cp: "connect_pinned L host port pin w1 = (w2, y)" by fastforce
    have k: "keeps disk (connect_pinned L host port pin)" "benign (connect_pinned L host port pin)"
      by (auto intro!: keeps_intros benign_intros)
    have d2: "disk w2 = disk w1" using keepsD [OF k(1) cp] .
    have "\<not> consent L accept_new w2"
      using assms(2) consent_mono [OF resolve_benign rs] consent_mono [OF k(2) cp] by blast
    then have "disk w3 = disk w2" if "replace_pin L host port known_path accept_new w2 = (w3, z)" for w3 z
      using replace_split [OF that] by blast
    from assms(1) rs Ok cp have "w' = w2 \<or> (\<exists>z. replace_pin L host port known_path accept_new w2 = (w', z))"
      by (simp add: connect_with_pin_management_def and_then_def split: res.splits if_splits)
    with \<open>\<And>w3 z. replace_pin L host port known_path accept_new w2 = (w3, z) \<Longrightarrow> disk w3 = disk w2\<close> d1 d2
    show ?thesis by metis
  qed (use assms(1) rs d1 in \<open>auto simp: connect_with_pin_management_def and_then_def\<close>)
qed

text \<open>How connecting can succeed: with the pin that was found or accepted, or with one that replaced it.\<close>

lemma connect_split:
  assumes "connect_with_pin_management L host port p a w = (w', Ok tls)"
  obtains (direct) w1 pin where "resolve_tls_pin L host port p a w = (w1, Ok pin)" "net w1 = net w"
      "connect_pinned L host port pin w1 = (w', Ok tls)"
  | (replaced) w1 pin w3 fp kh w4 q where "resolve_tls_pin L host port p a w = (w1, Ok pin)" "consent L a w"
      "disk w3 = disk w1" "known_hosts_load (uni_lower L) (disk w3) p = Ok kh"
      "store_pin L ''Replaced pin for '' host port p fp kh w3 = (w4, Ok q)" "net w4 = net w"
      "connect_pinned L host port q w4 = (w', Ok tls)"
proof -
  from assms obtain w1 pin where rs: "resolve_tls_pin L host port p a w = (w1, Ok pin)"
    by (auto simp: connect_with_pin_management_def res_iff)
  note net1 = benignD [OF resolve_benign rs]
  obtain w2 y where cp: "connect_pinned L host port pin w1 = (w2, y)" by fastforce
  have k: "keeps disk (connect_pinned L host port pin)" "benign (connect_pinned L host port pin)"
    by (auto intro!: keeps_intros benign_intros)
  show ?thesis
  proof (cases y)
    case (Ok t)
    with assms rs cp have "t = tls" "w' = w2"
      by (auto simp: connect_with_pin_management_def and_then_def)
    with direct [OF rs] net1 cp Ok show ?thesis by simp
  next
    case (Err e)
    with assms rs cp have "replace_pin L host port p a w2 = (w', Ok tls)"
      by (auto simp: connect_with_pin_management_def and_then_def split: if_splits)
    from replace_split [OF this] obtain fp w3 where c2: "consent L a w2" "disk w3 = disk w2" "net w3 = net w2"
      and run: "and_then (from_disk (\<lambda>d. map_err BoxCore (known_hosts_load (uni_lower L) d p))) (\<lambda>kh.
       and_then (store_pin L ''Replaced pin for '' host port p fp kh) (\<lambda>new_pin.
       act_err (\<lambda>e. BoxMsg (io_error_display e)) (connect_pinned L host port new_pin))) w3 = (w', Ok tls)"
      by auto
    have "consent L a w"
      using c2(1) consent_mono [OF resolve_benign rs] consent_mono [OF k(2) cp] by blast
    moreover from run obtain kh w4 q where l: "known_hosts_load (uni_lower L) (disk w3) p = Ok kh"
      and st: "store_pin L ''Replaced pin for '' host port p fp kh w3 = (w4, Ok q)"
      and cq: "connect_pinned L host port q w4 = (w', Ok tls)"
      by (auto simp: res_iff from_disk_def)
    moreover have "net w4 = net w"
      using benignD [OF store_pin_benign st] benignD [OF k(2) cp] net1 c2(3) by simp
    moreover have "disk w3 = disk w1" using keepsD [OF k(1) cp] c2(2) by simp
    ultimately show ?thesis using replaced [OF rs] by blast
  next
    case Panic
    with assms rs cp show ?thesis by (simp add: connect_with_pin_management_def and_then_def)
  qed
qed

text \<open>
  C13. Every connection is pinned. If connecting succeeds, the connection it returns is one whose peer
  presented a certificate with a key of digest \<open>pin\<close>, and \<open>pin\<close> is either the one stored for this host
  and port before, with no file changed, or the user consented and \<open>pin\<close> is the one in the store that
  was just written to \<open>known_hosts\<close>.
\<close>

theorem connection_is_pinned:
  assumes "connect_with_pin_management L host port known_path accept_new w = (w', Ok tls)"
  shows "\<exists>pin n. n < dials w' \<and> pinned_stream L (net w n host port) pin tls \<and>
    ((\<exists>kh. known_hosts_load (uni_lower L) (disk w) known_path = Ok kh \<and>
        pin_hex (uni_lower L) kh host port = Ok pin \<and> disk w' = disk w) \<or>
     (consent L accept_new w \<and>
      (\<exists>kh d. pin_hex (uni_lower L) kh host port = Ok pin \<and>
        known_hosts_save L kh known_path d = (disk w', Ok ()))))"
  using assms
proof (cases rule: connect_split)
  case (direct w1 pin)
  from connect_pinned_Ok [OF direct(3)] direct(2) have c: "w' = w1\<lparr>dials := Suc (dials w1)\<rparr>"
    "pinned_stream L (net w (dials w1) host port) pin tls" by auto
  from direct(1) show ?thesis
  proof (cases rule: resolve_split)
    case (stored kh pin')
    with c show ?thesis by (intro exI [of _ pin] exI [of _ "dials w1"]) auto
  next
    case (fresh kh fp w0)
    with store_pin_Ok [OF fresh(4)] c show ?thesis
      by (intro exI [of _ pin] exI [of _ "dials w1"]) auto
  qed simp
next
  case (replaced w1 pin w3 fp kh w4 q)
  from connect_pinned_Ok [OF replaced(7)] replaced(6) have "w' = w4\<lparr>dials := Suc (dials w4)\<rparr>"
    "pinned_stream L (net w (dials w4) host port) q tls" by auto
  with store_pin_Ok [OF replaced(5)] replaced(2) show ?thesis
    by (intro exI [of _ q] exI [of _ "dials w4"]) auto
qed

section \<open>Trust on first use\<close>

text \<open>The store can be loaded and all of its hosts can be written to a line.\<close>

definition good_store :: "('vk, 'sk) lib \<Rightarrow> fs \<Rightarrow> path \<Rightarrow> known_hosts \<Rightarrow> bool" where
  "good_store L d p kh \<longleftrightarrow> known_hosts_load (uni_lower L) d p = Ok kh \<and> fault d (OpRead p) = None \<and>
     (\<forall>key \<in> Mapping.keys (pins kh). host_ok (uni_lower L) (hk_host key))"

lemma save_fault: "known_hosts_save L k p w = (w', r) \<Longrightarrow> fault w' = fault w"
  by (auto simp: known_hosts_save_def dest!: create_dir_all_files fs_write_dirs
      split: prod.splits res.splits option.splits)

lemma insert_save_good:
  assumes "hex_spec L" and "good_store L d p kh" and "host_ok (uni_lower L) (normalize_host (uni_lower L) host)"
    and i: "insert_hex (uni_lower L) host port fp kh = (kh', Ok u)"
    and s: "known_hosts_save L kh' p d = (d', Ok v)"
  shows "good_store L d' p kh'"
proof -
  have inv: "kh_inv kh'"
    using insert_hex_inv [OF i] known_hosts_load_inv assms(2) by (auto simp: good_store_def)
  have keys: "\<forall>key \<in> Mapping.keys (pins kh'). host_ok (uni_lower L) (hk_host key)"
    using i assms(2,3) by (auto simp: insert_hex_def good_store_def keys_update split: res.splits)
  have f: "fault d (OpRead p) = None" using assms(2) by (simp add: good_store_def)
  have "known_hosts_load (uni_lower L) d' p = Ok kh'"
    by (rule save_then_load [OF assms(1) inv keys _ f]) (use s in simp)
  with keys f save_fault [OF s] show ?thesis by (auto simp: good_store_def)
qed

lemma store_pin_good:
  assumes "hex_spec L" and "good_store L (disk w) p kh" and "host_ok (uni_lower L) (normalize_host (uni_lower L) host)"
    and "store_pin L verb host port p fp kh w = (w', Ok pin)"
  shows "\<exists>kh'. good_store L (disk w') p kh' \<and> pin_hex (uni_lower L) kh' host port = Ok pin"
  using store_pin_Ok [OF assms(4)] insert_save_good [OF assms(1-3)] by blast

lemma resolve_stored:
  assumes "good_store L (disk w) p kh" and "pin_hex (uni_lower L) kh host port = Ok pin"
  shows "resolve_tls_pin L host port p a w = (w, Ok pin)"
  using assms by (simp add: resolve_tls_pin_def and_then_def from_disk_def good_store_def ret_def)

lemma resolve_good:
  assumes "hex_spec L" and "good_store L (disk w) p kh" and "host_ok (uni_lower L) (normalize_host (uni_lower L) host)"
    and "resolve_tls_pin L host port p a w = (w', Ok pin)"
  shows "\<exists>kh'. good_store L (disk w') p kh' \<and> pin_hex (uni_lower L) kh' host port = Ok pin"
  using assms(4)
proof (cases rule: resolve_split)
  case (stored kh' pin')
  with assms(2) show ?thesis by (auto simp: good_store_def)
next
  case (fresh kh' fp w1)
  with assms(2) have "good_store L (disk w1) p kh'" by (simp add: good_store_def)
  from store_pin_good [OF assms(1) this assms(3) fresh(4)] show ?thesis .
qed simp

lemma connect_pinned_disk: "connect_pinned L host port pin w = (w', r) \<Longrightarrow> disk w' = disk w"
  using keepsD connect_intros(1) by blast

lemma connect_stored:
  assumes "hex_spec L" and "good_store L (disk w) p kh" and "host_ok (uni_lower L) (normalize_host (uni_lower L) host)"
    and "connect_with_pin_management L host port p a w = (w', Ok tls)"
  shows "\<exists>kh' pin n. good_store L (disk w') p kh' \<and> pin_hex (uni_lower L) kh' host port = Ok pin \<and>
    pinned_stream L (net w n host port) pin tls"
  using assms(4)
proof (cases rule: connect_split)
  case (direct w1 pin)
  with resolve_good [OF assms(1-3) direct(1)] connect_pinned_disk [OF direct(3)] connect_pinned_Ok [OF direct(3)]
  show ?thesis by auto
next
  case (replaced w1 pin w3 fp kh1 w4 q)
  then have "good_store L (disk w3) p kh1"
    using resolve_good [OF assms(1-3) replaced(1)] by (auto simp: good_store_def)
  from store_pin_good [OF assms(1) this assms(3) replaced(5)] replaced(6)
    connect_pinned_disk [OF replaced(7)] connect_pinned_Ok [OF replaced(7)]
  show ?thesis by auto
qed

text \<open>
  C15. Trust on first use lasts. After a successful connection, new or replaced pins included, the next
  call of \<open>resolve_tls_pin\<close> for the same host and port finds in the file the pin of exactly the key that
  connection was made with: without asking, without a new connection and without changing anything.
\<close>

theorem accepted_pin_persists:
  assumes "hex_spec L" and "good_store L (disk w) p kh" and "host_ok (uni_lower L) (normalize_host (uni_lower L) host)"
    and "connect_with_pin_management L host port p a w = (w', Ok tls)"
  shows "\<exists>pin n. resolve_tls_pin L host port p False w' = (w', Ok pin) \<and>
    pinned_stream L (net w n host port) pin tls"
proof -
  obtain kh' pin n where k: "good_store L (disk w') p kh'" "pin_hex (uni_lower L) kh' host port = Ok pin"
    and n: "pinned_stream L (net w n host port) pin tls"
    using connect_stored [OF assms] by blast
  have "resolve_tls_pin L host port p False w' = (w', Ok pin)"
    by (rule resolve_stored [OF k])
  with n show ?thesis by blast
qed

section \<open>A concrete connection\<close>

definition demo_attempt :: tls_attempt where
  "demo_attempt = \<lparr>att_tcp = Inr (), att_build = Inr (), att_handshake = Inr (pipe_end []),
     att_peer = Inr (Some (Inr [1, 2, 3]))\<rparr>"

definition demo_world :: client_world where
  "demo_world = \<lparr>disk = demo_empty_fs, net = (\<lambda>_ _ _. demo_attempt), dials = 0, tty = False, answers = [],
     out_text = [], err_text = [], out_err = None, err_err = None, link = codec_new (pipe_end [])\<rparr>"

definition demo_pin :: bytes where
  "demo_pin = pad 32 [2, 3]"

definition demo_store :: known_hosts where
  "demo_store = \<lparr>pins = Mapping.update (HostKey ''example.org'' 8443) demo_pin Mapping.empty\<rparr>"

lemma length_demo_pin: "length demo_pin = 32"
  by (simp add: demo_pin_def pad_def)

lemma demo_store_save: "\<exists>w'. known_hosts_save (demo_lib []) demo_store demo_kh_path demo_empty_fs = (w', Ok ())"
  by (simp add: known_hosts_save_def demo_store_def demo_kh_path_def demo_empty_fs_def path_parent_def
      create_dir_all_def path_empty_def fs_write_def parent_ready_def is_ancestor_def
      Mapping.ordered_keys_def)

lemma demo_normal: "normalize_host (\<lambda>s. s) ''example.org'' = ''example.org''"
  by (simp add: normalize_host_def trim_matches_def to_lowercase_def is_ascii_def code_def
        to_ascii_lower_def)

lemma demo_uni: "uni_lower (demo_lib d) = (\<lambda>s. s)"
  by (simp add: demo_lib_def)

text \<open>The store with the one pin of the demonstration.\<close>

lemma demo_insert: "insert_hex (\<lambda>s. s) ''example.org'' 8443 (concat (map hex_byte demo_pin)) known_hosts_default = (demo_store, Ok ())"
  by (simp only: insert_hex_def parse_hex32_hex [OF length_demo_pin] demo_normal res.case)
     (simp add: known_hosts_default_def demo_store_def)

lemma demo_found: "pin_hex (\<lambda>s. s) demo_store ''example.org'' 8443 = Ok demo_pin"
  by (simp only: pin_hex_def demo_normal Let_def) (simp add: demo_store_def)

lemma demo_missing: "pin_hex (\<lambda>s. s) known_hosts_default ''example.org'' 8443 =
    Err (KnownHostsMissing (''example.org'' @ '':'' @ show_u16 8443))"
  by (simp only: pin_hex_def demo_normal Let_def) (simp add: known_hosts_default_def)

lemma demo_connect:
  "\<exists>w'. connect_with_pin_management (demo_lib []) ''example.org'' 8443 demo_kh_path True demo_world
     = (w', Ok (pipe_end []))"
proof -
  let ?L = "demo_lib []" and ?fp = "concat (map hex_byte demo_pin)"
  obtain d where d: "known_hosts_save ?L demo_store demo_kh_path demo_empty_fs = (d, Ok ())"
    using demo_store_save by blast
  have load: "known_hosts_load (\<lambda>s. s) demo_empty_fs demo_kh_path = Ok known_hosts_default"
    by (simp add: known_hosts_load_def fs_exists_def demo_empty_fs_def)
  have spki: "spki_sha256_bytes_from_cert_der ?L [1, 2, 3] = Ok demo_pin"
    "spki_sha256_hex_from_cert_der ?L [1, 2, 3] = Ok ?fp"
    by (simp_all add: spki_sha256_hex_from_cert_der_def spki_sha256_bytes_from_cert_der_def demo_pin_def)
       (simp_all add: demo_lib_def)
  have probe: "\<exists>w1. connect_probe ''example.org'' 8443 w = (w1, Ok [1, 2, 3]) \<and> disk w1 = disk w \<and>
      err_err w1 = None \<and> net w1 = net w"
    if "net w = (\<lambda>_ _ _. demo_attempt)" "err_err w = None" for w
    using that by (simp add: connect_probe_def and_then_def dial_def attempt_def demo_attempt_def)
  obtain w1 where w1: "connect_probe ''example.org'' 8443 demo_world = (w1, Ok [1, 2, 3])"
    "disk w1 = demo_empty_fs" "err_err w1 = None" "net w1 = (\<lambda>_ _ _. demo_attempt)"
    using probe [of demo_world] by (auto simp: demo_world_def)
  have "\<exists>w2. store_pin ?L ''Pinned '' ''example.org'' 8443 demo_kh_path ?fp known_hosts_default
      (w\<lparr>err_text := e\<rparr>) = (w2, Ok demo_pin) \<and> net w2 = net w"
    if "disk w = demo_empty_fs" "err_err w = None" for w e
    using that demo_insert demo_found d
    by (simp add: store_pin_def demo_uni and_then_def attempt_def act_err_def on_disk_def eprintln_def eprint_def
        del: append.simps)
  moreover have "\<exists>e. resolve_tls_pin ?L ''example.org'' 8443 demo_kh_path True demo_world =
      store_pin ?L ''Pinned '' ''example.org'' 8443 demo_kh_path ?fp known_hosts_default (w1\<lparr>err_text := e\<rparr>)"
  proof -
    have "known_hosts_load (uni_lower ?L) (disk demo_world) demo_kh_path = Ok known_hosts_default"
      "pin_hex (uni_lower ?L) known_hosts_default ''example.org'' 8443 =
        Err (KnownHostsMissing (''example.org'' @ '':'' @ show_u16 8443))"
      using load demo_missing by (simp_all only: demo_uni) (simp add: demo_world_def)
    from resolve_via_probe [OF this] w1(1,3) spki(2) show ?thesis
      by (simp add: probe_and_ask_def and_then_def act_err_def attempt_def confirm_new_def eprintln_def
          eprint_def ret_def) blast
  qed
  ultimately obtain w2 where w2: "resolve_tls_pin ?L ''example.org'' 8443 demo_kh_path True demo_world = (w2, Ok demo_pin)"
    "net w2 = (\<lambda>_ _ _. demo_attempt)"
    using w1(2-4) by metis
  have "connect_pinned ?L ''example.org'' 8443 demo_pin w2 = (w2\<lparr>dials := Suc (dials w2)\<rparr>, Ok (pipe_end []))"
    by (rule connect_pinned_not_mismatch) (simp_all add: w2(2) pinned_stream_def demo_attempt_def spki)
  with w2 show ?thesis
    by (simp add: connect_with_pin_management_def and_then_def)
qed

theorem trust_needs_consent_witness:
  "disk (fst (connect_with_pin_management (demo_lib []) ''example.org'' 8443 demo_kh_path False demo_world))
     = demo_empty_fs"
proof -
  have "\<not> consent (demo_lib []) False demo_world" by (simp add: consent_def demo_world_def)
  from trust_needs_consent [OF prod.collapse [symmetric] this] show ?thesis
    by (simp add: demo_world_def)
qed

theorem connection_is_pinned_witness:
  "\<exists>pin n. pinned_stream (demo_lib []) (net demo_world n ''example.org'' 8443) pin (pipe_end [])"
proof -
  obtain w' where "connect_with_pin_management (demo_lib []) ''example.org'' 8443 demo_kh_path True demo_world
     = (w', Ok (pipe_end []))"
    using demo_connect by blast
  from connection_is_pinned [OF this] show ?thesis by blast
qed

theorem accepted_pin_persists_witness:
  "\<exists>w' pin. connect_with_pin_management (demo_lib []) ''example.org'' 8443 demo_kh_path True demo_world
     = (w', Ok (pipe_end [])) \<and>
   resolve_tls_pin (demo_lib []) ''example.org'' 8443 demo_kh_path False w' = (w', Ok pin)"
proof -
  obtain w' where c: "connect_with_pin_management (demo_lib []) ''example.org'' 8443 demo_kh_path True demo_world
     = (w', Ok (pipe_end []))"
    using demo_connect by blast
  have h: "host_ok (uni_lower (demo_lib [])) (normalize_host (uni_lower (demo_lib [])) ''example.org'')"
    using host_ok_demo by (simp only: demo_uni demo_normal id_def)
  have "good_store (demo_lib []) (disk demo_world) demo_kh_path known_hosts_default"
    by (simp add: good_store_def known_hosts_load_def fs_exists_def demo_world_def demo_empty_fs_def)
       (simp add: known_hosts_default_def)
  from accepted_pin_persists [OF demo_specs(1) this h c] c show ?thesis by blast
qed

end
