(* ===== verification/Addr_Props.thy ===== *)
theory Addr_Props
  imports Connect_Props
begin

text \<open>
  The address argument of \<open>trust-probe\<close>: \<open>parse_addr\<close> never panics, and it reads back the addresses that are
  written in either of the two forms.
\<close>

lemma ws_len_before_graphic:
  assumes "xs \<noteq> []" and "graphic c"
  shows "ws_len (xs @ c # ys) = ws_len xs"
  unfolding ws_len_def
proof (rule lead_cong)
  fix w
  assume "w \<in> set ws_seqs"
  with assms(2) have "c \<notin> set w" using ws_seqs_not_graphic by blast
  then show "prefix w (xs @ c # ys) \<longleftrightarrow> prefix w xs"
    by (auto dest: prefix_append_Cons_notin)
qed

lemma trim_sublist: "\<exists>a b. s = a @ trim s @ b"
proof -
  obtain a where "s = a @ trim_start s"
    using strip_suffix [of s ws_seqs] by (auto simp: trim_start_def)
  moreover obtain b where "trim_start s = trim s @ b"
    using trim_end_prefix [of "trim_start s"] by (auto simp: trim_def prefix_def)
  ultimately show ?thesis by metis
qed

lemma boundary_in_sublist:
  assumes "utf8_valid (a @ (xs @ c # ys) @ b)" and "is_ascii c"
  shows "is_char_boundary (xs @ c # ys) (Suc (length xs))"
proof (cases ys)
  case Nil
  then show ?thesis by (simp add: is_char_boundary_def)
next
  case (Cons y ys')
  have "utf8_valid (ys @ b)"
    by (rule utf8_valid_after_ascii [OF assms(1) _ assms(2), of "a @ xs"]) simp
  with Cons have "\<not> is_cont y" using utf8_valid_head [of y "ys' @ b"] by simp
  with Cons show ?thesis by (simp add: is_char_boundary_def nth_append)
qed

lemma boundary_before_ascii: "is_ascii c \<Longrightarrow> is_char_boundary (xs @ c # ys) (length xs)"
  by (simp add: is_char_boundary_def nth_append is_cont_def is_ascii_def)

lemma bracket_chars [simp]: "is_ascii CHR ''[''" "is_ascii CHR '']''" "is_ascii CHR '':''"
  by (simp_all add: is_ascii_def code_def)

text \<open>The two slices of the bracketed form.\<close>

lemma bracket_slices:
  assumes "utf8_valid (a @ s @ b)" and "s = CHR ''['' # h @ '']:'' @ q"
  shows "str_slice s 1 (Suc (length h)) = Ok h" "str_slice s (Suc (length h) + 2) (length s) = Ok q"
proof -
  have 1: "is_char_boundary s 1"
    using boundary_in_sublist [of a "[]" "CHR ''[''" "h @ '']:'' @ q" b] assms by simp
  have 2: "is_char_boundary s (Suc (length h))"
    using boundary_before_ascii [of "CHR '']''" "CHR ''['' # h" "CHR '':'' # q"] assms(2) by simp
  have 3: "is_char_boundary s (Suc (length h) + 2)"
    using boundary_in_sublist [of a "CHR ''['' # h @ [CHR '']'']" "CHR '':''" q b] assms by simp
  have 4: "is_char_boundary s (length s)" by (simp add: is_char_boundary_def)
  show "str_slice s 1 (Suc (length h)) = Ok h"
    using 1 2 by (simp add: str_slice_def assms(2))
  show "str_slice s (Suc (length h) + 2) (length s) = Ok q"
    using 3 4 by (simp add: str_slice_def assms(2))
qed

lemma bracket_split:
  assumes "starts_with s ''[''" and "find_sub '']:'' s = Some n"
  shows "\<exists>h q. s = CHR ''['' # h @ '']:'' @ q \<and> n = Suc (length h)"
proof -
  from assms(1) obtain t where t: "s = CHR ''['' # t" by (auto simp: starts_with_def prefix_def)
  with assms(2) obtain m where m: "find_sub '']:'' t = Some m" "n = Suc m" by (auto split: if_splits)
  from find_sub_Some [OF m(1)] have tk: "take 2 (drop m t) = '']:''" and le: "m \<le> length t"
    by (simp_all add: numeral_2_eq_2)
  have "t = take m t @ take 2 (drop m t) @ drop 2 (drop m t)" by (simp only: append_take_drop_id)
  then have "t = take m t @ '']:'' @ drop 2 (drop m t)" by (simp only: tk)
  then have "s = CHR ''['' # take m t @ '']:'' @ drop 2 (drop m t)" by (simp only: t)
  with m(2) le show ?thesis
    by (intro exI [of _ "take m t"] exI [of _ "drop 2 (drop m t)"]) simp
qed

lemma rsplit_once_last: "c \<notin> set q \<Longrightarrow> rsplit_once c (h @ c # q) = Some (h, q)"
proof -
  assume "c \<notin> set q"
  then have "dropWhile (\<lambda>d. d \<noteq> c) (rev q @ c # rev h) = c # rev h"
    "takeWhile (\<lambda>d. d \<noteq> c) (rev q @ c # rev h) = rev q"
    by (subst dropWhile_append2 takeWhile_append2; auto)+
  then show ?thesis by (simp add: rsplit_once_def)
qed

lemma digit_not_colon: "(n :: nat) < 10 \<Longrightarrow> char_of (48 + n) \<noteq> CHR '':''"
proof
  assume "n < 10" and "char_of (48 + n) = CHR '':''"
  then have "code (char_of (48 + n)) = code CHR '':''" by simp
  with \<open>n < 10\<close> show False by (simp add: code_def)
qed

lemma string_of_nat_no_colon: "CHR '':'' \<notin> set (string_of_nat n)"
proof (induction n rule: string_of_nat.induct)
  case (1 n)
  show ?case
  proof (cases "n < 10")
    case True
    with digit_not_colon [OF True] show ?thesis by (simp add: string_of_nat_small)
  next
    case False
    have "n mod 10 < 10" by simp
    from False 1 digit_not_colon [OF this] show ?thesis by (auto simp: string_of_nat_large)
  qed
qed

lemma parse_addr_plain:
  assumes "no_ws h" and "h \<noteq> []" and "hd h \<noteq> CHR ''[''"
  shows "parse_addr (h @ '':'' @ show_u16 p) = Ok (h, p)"
proof -
  let ?p = "show_u16 p"
  have gp: "graphic (last (x @ ?p))" for x
    using graphic_last [OF show_u16_graphic] .
  have colon: "CHR '':'' \<notin> set ?p" by (simp add: show_u16_def string_of_nat_no_colon)
  have "trim (h @ '':'' @ ?p) = h @ '':'' @ ?p"
    using assms(1,2) gp [of "h @ '':''"] 
    by (intro trim_graphic_end) (simp_all add: ws_len_before_graphic graphic_def code_def no_ws_ws_len)
  with assms(3) show "parse_addr (h @ '':'' @ ?p) = Ok (h, p)"
    using assms(2) rsplit_once_last [OF colon, of h]
    by (cases h) (simp_all add: parse_addr_def Let_def starts_with_def)
qed

lemma parse_addr_bracket:
  assumes "utf8_valid h" and "CHR '']'' \<notin> set h"
  shows "parse_addr (''['' @ h @ '']:'' @ show_u16 p) = Ok (h, p)"
proof -
  let ?p = "show_u16 p" and ?s = "''['' @ h @ '']:'' @ show_u16 p"
  from assms(2) have f: "find_sub '']:'' (h @ '']:'' @ ?p) = Some (length h)"
    by (intro find_sub_skip) simp_all
  have "trim ?s = ?s"
    using graphic_last [OF show_u16_graphic, of "''['' @ h @ '']:''" p]
    by (intro trim_graphic_end) (simp_all add: ws_len_graphic graphic_def code_def)
  moreover have "utf8_valid ?s"
  proof (intro utf8_valid_append)
    show "utf8_valid ?p" by (rule ascii_utf8_valid [OF graphic_utf8 [OF show_u16_graphic(1)]])
  qed (use assms(1) in simp_all)
  ultimately show "parse_addr ?s = Ok (h, p)"
    using bracket_slices(1) [of "[]" ?s "[]" h ?p, where 'a = str]
      bracket_slices(2) [of "[]" ?s "[]" h ?p, where 'b = str] f
    by (simp add: parse_addr_def Let_def starts_with_def)
qed

text \<open>An empty host is refused in the plain form only.\<close>

lemma empty_host_in_brackets:
  "parse_addr (''['' @ [] @ '']:'' @ show_u16 80) = Ok ([], 80)"
  "\<not> starts_with (trim s) ''['' \<Longrightarrow> parse_addr s \<noteq> Ok ([], p)"
proof -
  show "parse_addr (''['' @ [] @ '']:'' @ show_u16 80) = Ok ([], 80)"
    by (rule parse_addr_bracket) (simp_all add: ascii_utf8_valid)
  show "\<not> starts_with (trim s) ''['' \<Longrightarrow> parse_addr s \<noteq> Ok ([], p)"
    by (auto simp: parse_addr_def Let_def res_iff split: if_splits)
qed

text \<open>
  C39. Addresses. On any valid UTF-8 argument \<open>parse_addr\<close> returns a host and port or an error and never
  panics. A host without white space, followed by a colon and a port number, is read as that host and
  port, with the host taken up to the last colon; and in brackets it is read as the text in between.
\<close>

theorem parse_addr_correct:
  assumes "utf8_valid s" and "no_ws h" and "h \<noteq> []" and "utf8_valid h"
  shows "parse_addr s \<noteq> Panic \<and>
    (hd h \<noteq> CHR ''['' \<longrightarrow> parse_addr (h @ '':'' @ show_u16 p) = Ok (h, p)) \<and>
    (CHR '']'' \<notin> set h \<longrightarrow> parse_addr (''['' @ h @ '']:'' @ show_u16 p) = Ok (h, p))"
proof (intro conjI impI)
  show "parse_addr s \<noteq> Panic"
  proof (cases "starts_with (trim s) ''[''")
    case True
    obtain a b where ab: "s = a @ trim s @ b" using trim_sublist by blast
    show ?thesis
    proof (cases "find_sub '']:'' (trim s)")
      case (Some n)
      from bracket_split [OF True Some] obtain h' q where
        hq: "trim s = CHR ''['' # h' @ '']:'' @ q" "n = Suc (length h')" by blast
      have "utf8_valid (a @ trim s @ b)" by (subst ab [symmetric]) (rule assms(1))
      note sl = bracket_slices [OF this hq(1)]
      have "str_slice (trim s) 1 n = (Ok h' :: (str, str) res)"
        "str_slice (trim s) (n + 2) (length (trim s)) = (Ok q :: (str, str) res)"
        using sl hq(2) by simp_all
      with True Some show ?thesis
        by (simp add: parse_addr_def Let_def res_iff)
    qed (simp add: parse_addr_def Let_def True)
  qed (auto simp: parse_addr_def Let_def res_iff)
qed (use assms in \<open>simp_all only: parse_addr_plain parse_addr_bracket not_False_eq_True\<close>)

theorem parse_addr_correct_witness:
  "parse_addr (''::1'' @ '':'' @ show_u16 8443) = Ok (''::1'', 8443) \<and>
   parse_addr (''['' @ ''::1'' @ '']:'' @ show_u16 8443) = Ok (''::1'', 8443)"
proof -
  have g: "list_all graphic ''::1''" by (simp add: graphic_def code_def)
  have "utf8_valid ''::1''" by (rule ascii_utf8_valid [OF graphic_utf8 [OF g]])
  with parse_addr_correct [OF _ no_ws_graphic [OF g], of "[]" 8443] show ?thesis by simp
qed

end
