(* ===== verification/Client_Props.thy ===== *)
theory Client_Props
  imports Client Exec_Steps Addr_Props
begin

text \<open>
  The client session: what it prints for the frames it gets, when it sends a command, and how it ends.
\<close>

section \<open>Messages of one end, read by the other\<close>

lemma de_messages [simp]:
  "de_auth_challenge (challenge_json L n sid) = Some \<lparr>ch_nonce = b64_encode L n, ch_session_id = sid\<rparr>"
  "de_auth_response (response_json fp sg) =
     Some \<lparr>ar_key_type = KEY_TYPE_ED25519, ar_fingerprint = fp, ar_signature = sg\<rparr>"
  "de_auth_result (auth_ok_json name grp) = Some \<lparr>res_ok = True, res_reason = None, res_message = None\<rparr>"
  "de_auth_result (auth_fail_json reason message) =
     Some \<lparr>res_ok = False, res_reason = Some reason, res_message = Some message\<rparr>"
  "de_exec_shell (exec_json shell) = Some shell"
  "Option.bind (value_get ''data'' (data_json L b)) as_str = Some (b64_encode L b)"
  "value_get ''exit_code'' (exit_json code') = Some (JInt code')"
  by (simp_all add: de_auth_challenge_def challenge_json_def de_auth_response_def response_json_def
      de_auth_result_def auth_ok_json_def auth_fail_json_def de_exec_shell_def exec_json_def
      data_json_def exit_json_def required_def with_default_def members_def split: option.split)

lemma shell_json_eq: "shell_json shell = exec_json shell"
  by (simp add: shell_json_def exec_json_def)

section \<open>Output\<close>

text \<open>A world whose output streams work.\<close>

definition can_print :: "client_world \<Rightarrow> bool" where
  "can_print w \<longleftrightarrow> out_err w = None \<and> err_err w = None"

definition print_chunk :: "stream_chunk \<Rightarrow> client_world \<Rightarrow> client_world" where
  "print_chunk ch w =
     (case ch of
        ChunkOut b \<Rightarrow> w\<lparr>out_text := out_text w @ str_of_bytes b\<rparr>
      | ChunkErr b \<Rightarrow> w\<lparr>err_text := err_text w @ str_of_bytes b\<rparr>)"

lemma print_chunk_simps [simp]:
  "can_print (print_chunk ch w) = can_print w" "link (print_chunk ch w) = link w"
  "disk (print_chunk ch w) = disk w"
  by (simp_all add: print_chunk_def can_print_def split: stream_chunk.split)

lemma fold_print_chunk:
  "out_text (fold print_chunk chs w) = out_text w @ str_of_bytes (outs chs)"
  "err_text (fold print_chunk chs w) = err_text w @ str_of_bytes (errs chs)"
  "link (fold print_chunk chs w) = link w" "disk (fold print_chunk chs w) = disk w"
  "dials (fold print_chunk chs w) = dials w"
  by (induction chs arbitrary: w)
     (auto simp: print_chunk_def str_of_bytes_def split: stream_chunk.split)

lemma print_chunk_link: "print_chunk ch (w\<lparr>link := c\<rparr>) = (print_chunk ch w)\<lparr>link := c\<rparr>"
  by (simp add: print_chunk_def split: stream_chunk.split)

lemma fold_print_link:
  "(fold print_chunk chs (w\<lparr>link := c\<rparr>))\<lparr>link := d\<rparr> = (fold print_chunk chs w)\<lparr>link := d\<rparr>"
  by (induction chs arbitrary: w) (simp_all add: print_chunk_link)

fun chunk_bytes :: "stream_chunk \<Rightarrow> bytes" where
  "chunk_bytes (ChunkOut b) = b"
| "chunk_bytes (ChunkErr b) = b"

lemma handle_chunk:
  assumes "b64_spec L" and "can_print w" and "json_reads L (data_json L (chunk_bytes ch))"
  shows "handle_frame L (chunk_frame L ch) w = (print_chunk ch w, Ok None)"
  using assms
  by (cases ch)
     (simp_all add: handle_frame_def and_then_def parse_json_def json_reads_def attempt_def b64_text
       write_stdout_def write_stderr_def can_print_def ret_def print_chunk_def msg_type_defs)

lemma as_i32_id: "- (2 ^ 31) \<le> n \<Longrightarrow> n < 2 ^ 31 \<Longrightarrow> as_i32 n = n"
  by (simp add: as_i32_def sint_sbintrunc' signed_take_bit_int_eq_self)

lemma recv_good:
  assumes "good_link (link w)" and "inp (inner (link w)) = frame_enc f @ r" and "length (payload f) \<le> 1048576"
  shows "recv w = (w\<lparr>link := after_read r (link w)\<rparr>, Ok f)"
  using read_frame_good [OF assms] by (simp add: recv_def)

lemma send_good:
  assumes "good_link (link w)" and "length p \<le> 1048576"
  shows "send t p w = (w\<lparr>link := emit [\<lparr>msg_type = t, payload = p\<rparr>] (link w)\<rparr>, Ok ())"
  using write_frame_emit [OF assms] by (simp add: send_def)

text \<open>The frames of a complete answer that the client can read.\<close>

definition readable_chunk :: "('vk, 'sk) lib \<Rightarrow> stream_chunk \<Rightarrow> bool" where
  "readable_chunk L ch \<longleftrightarrow> json_reads L (data_json L (chunk_bytes ch)) \<and>
     length (payload (chunk_frame L ch)) \<le> 1048576"

definition readable_exit :: "('vk, 'sk) lib \<Rightarrow> int \<Rightarrow> bool" where
  "readable_exit L n \<longleftrightarrow> json_reads L (exit_json n) \<and> fits L (exit_json n) \<and> - (2 ^ 31) \<le> n \<and> n < 2 ^ 31"

lemma handle_exit:
  assumes "readable_exit L n"
  shows "handle_frame L (exit_frame L n) w = (w, Ok (Some n))"
proof -
  have "- (2 ^ 31) \<le> n" "n < 2 ^ 31" "json_reads L (exit_json n)"
    using assms by (simp_all add: readable_exit_def)
  then have "as_i64 (JInt n) = Some n" "as_i32 n = n" "json_read L (json_write L (exit_json n)) = Some (exit_json n)"
    by (simp_all add: as_i32_id json_reads_def)
  then show ?thesis
    by (simp add: handle_frame_def exit_frame_def and_then_def parse_json_def attempt_def ret_def
        msg_type_defs Let_def del: as_i64.simps)
qed

text \<open>A frame that ends the session with a status, and what it does to the terminal.\<close>

definition closes ::
    "('vk, 'sk) lib \<Rightarrow> frame \<Rightarrow> (client_world \<Rightarrow> client_world) \<Rightarrow> int \<Rightarrow> bool" where
  "closes L f fin n \<longleftrightarrow> length (payload f) \<le> 1048576 \<and>
     (\<forall>w. can_print w \<longrightarrow> handle_frame L f w = (fin w, Ok (Some n)))"

lemma closes_exit: "readable_exit L n \<Longrightarrow> closes L (exit_frame L n) (\<lambda>w. w) n"
  by (simp add: closes_def handle_exit) (simp add: readable_exit_def fits_def exit_frame_def)

lemma closes_denied:
  "length p \<le> 1048576 \<Longrightarrow> closes L \<lparr>msg_type = POLICY_DENIED, payload = p\<rparr>
     (\<lambda>w. w\<lparr>err_text := err_text w @ utf8_lossy (str_of_bytes p) @ [nl]\<rparr>) 126"
  by (simp add: closes_def handle_frame_def msg_type_defs and_then_def eprintln_def eprint_def can_print_def
      ret_def)

lemma client_loop_closes:
  assumes "b64_spec L" and "good_link (link w)" and "can_print w"
    and "inp (inner (link w)) = concat (map frame_enc (map (chunk_frame L) chs)) @ frame_enc f @ r"
    and "\<forall>ch \<in> set chs. readable_chunk L ch" and "closes L f fin n"
  shows "\<exists>c. client_loop L w = (fin ((fold print_chunk chs w)\<lparr>link := c\<rparr>), Ok n) \<and>
    sent (inner c) = sent (inner (link w))"
  using assms(2-5)
proof (induction chs arbitrary: w)
  case Nil
  let ?w1 = "w\<lparr>link := after_read r (link w)\<rparr>"
  have 1: "recv w = (?w1, Ok f)"
    using Nil assms(6) by (intro recv_good) (simp_all add: closes_def)
  have "can_print ?w1" using Nil.prems(2) by (simp add: can_print_def)
  with assms(6) have 2: "handle_frame L f ?w1 = (fin ?w1, Ok (Some n))" by (simp add: closes_def)
  from 1 2 show ?case
    by (intro exI [of _ "after_read r (link w)"]) (subst client_loop.simps, simp)
next
  case (Cons ch chs)
  let ?r = "concat (map frame_enc (map (chunk_frame L) chs)) @ frame_enc f @ r"
  let ?w1 = "w\<lparr>link := after_read ?r (link w)\<rparr>"
  have 1: "recv w = (?w1, Ok (chunk_frame L ch))"
    using Cons.prems by (intro recv_good) (simp_all add: readable_chunk_def)
  have 2: "handle_frame L (chunk_frame L ch) ?w1 = (print_chunk ch ?w1, Ok None)"
    using Cons.prems assms(1) by (intro handle_chunk) (simp_all add: readable_chunk_def can_print_def)
  have cp: "can_print (print_chunk ch ?w1)"
    using Cons.prems(2) by (simp only: print_chunk_simps) (simp add: can_print_def)
  obtain c where c: "client_loop L (print_chunk ch ?w1) = (fin ((fold print_chunk chs (print_chunk ch ?w1))\<lparr>link := c\<rparr>), Ok n)"
    "sent (inner c) = sent (inner (link w))"
    using Cons.IH [of "print_chunk ch ?w1"] Cons.prems(1,4) cp by auto
  show ?case
    using 1 2 c by (intro exI [of _ c]) (subst client_loop.simps, simp add: print_chunk_link fold_print_link)
qed

section \<open>A whole session\<close>

text \<open>Frames that the client reads as what the server wrote.\<close>

definition readable :: "('vk, 'sk) lib \<Rightarrow> json \<Rightarrow> bool" where
  "readable L j \<longleftrightarrow> json_reads L j \<and> fits L j"

lemma parse_readable: "readable L j \<Longrightarrow> de j = Some a \<Longrightarrow> parse_json L de (json_write L j) w = (w, Ok a)"
  by (simp add: parse_json_def attempt_def readable_def json_reads_def)

definition response_frame :: "('vk, 'sk) lib \<Rightarrow> 'sk \<Rightarrow> bytes \<Rightarrow> str \<Rightarrow> frame" where
  "response_frame L sk n sid = \<lparr>msg_type = AUTH_RESPONSE, payload = json_write L
     (response_json (ed25519_fingerprint_hex L (verifying_key L sk))
       (sign_auth_message L sk (signing_bytes n sid)))\<rparr>"

definition result_json :: "server_config \<Rightarrow> ('vk, 'sk) lib \<Rightarrow> 'vk authorized_key \<Rightarrow> json" where
  "result_json cfg L entry = auth_ok_json
     (if comment entry = [] then None else Some (comment entry))
     (case policy_group_by_fingerprint cfg (to_lowercase (uni_lower L) (fingerprint_hex entry)) of
        None \<Rightarrow> policy_group_default cfg | Some g \<Rightarrow> g)"

lemma granted_frame_eq: "granted_frame L cfg entry = \<lparr>msg_type = AUTH_RESULT, payload = json_write L (result_json cfg L entry)\<rparr>"
  by (simp add: granted_frame_def result_json_def)

lemma de_result_json [simp]:
  "de_auth_result (result_json cfg L entry) = Some \<lparr>res_ok = True, res_reason = None, res_message = None\<rparr>"
  by (simp add: result_json_def)

text \<open>The answer to a challenge that has come in.\<close>

lemma client_auth_answers:
  assumes "b64_spec L" and "good_link (link w)"
    and "inp (inner (link w)) = frame_enc (challenge_frame L env) @ r"
    and "readable L (challenge_json L (nonce env) (session_id env))"
    and "length (payload (response_frame L sk (nonce env) (session_id env))) \<le> 1048576"
  shows "client_auth L sk w =
    client_result L (w\<lparr>link := after_read r (emit [response_frame L sk (nonce env) (session_id env)] (link w))\<rparr>)"
proof -
  let ?rf = "response_frame L sk (nonce env) (session_id env)"
  let ?w1 = "w\<lparr>link := after_read r (link w)\<rparr>"
  have 1: "recv w = (?w1, Ok (challenge_frame L env))"
    using assms(2,3,4) by (intro recv_good) (simp_all add: challenge_frame_def readable_def fits_def)
  have 2: "send AUTH_RESPONSE (payload ?rf) ?w1 = (w\<lparr>link := after_read r (emit [?rf] (link w))\<rparr>, Ok ())"
    using assms(2,5) send_good [of ?w1 "payload ?rf" AUTH_RESPONSE] by (simp add: response_frame_def)
  from 1 2 show ?thesis
    by (simp add: client_auth_def and_then_def Let_def challenge_frame_def parse_readable [OF assms(4)]
        response_frame_def attempt_def b64_text(1) [OF assms(1)])
qed

lemma client_auth_good:
  assumes "b64_spec L" and "good_link (link w)"
    and "inp (inner (link w)) = concat (map frame_enc [challenge_frame L env, granted_frame L cfg entry]) @ r"
    and "readable L (challenge_json L (nonce env) (session_id env))" and "readable L (result_json cfg L entry)"
    and "length (payload (response_frame L sk (nonce env) (session_id env))) \<le> 1048576"
  shows "client_auth L sk w =
    (w\<lparr>link := after_read r (emit [response_frame L sk (nonce env) (session_id env)] (link w))\<rparr>, Ok ())"
proof -
  let ?rf = "response_frame L sk (nonce env) (session_id env)"
  let ?w2 = "w\<lparr>link := after_read (frame_enc (granted_frame L cfg entry) @ r) (emit [?rf] (link w))\<rparr>"
  have "client_auth L sk w = client_result L ?w2"
    using assms(3) by (intro client_auth_answers [OF assms(1,2) _ assms(4,6)]) simp
  moreover have "recv ?w2 = (w\<lparr>link := after_read r (emit [?rf] (link w))\<rparr>, Ok (granted_frame L cfg entry))"
    using assms(2,5) recv_good [of ?w2 "granted_frame L cfg entry" r]
    by (simp add: granted_frame_eq readable_def fits_def)
  ultimately show ?thesis
    by (simp add: client_result_def and_then_def granted_frame_eq parse_readable [OF assms(5)] ret_def)
qed

lemma client_session_closes:
  assumes "b64_spec L" and "writable s" and "can_print w"
    and "load_or_create_signing_key L g key_file (disk w) = (d, Ok sk)"
    and "inp s = concat (map frame_enc [challenge_frame L env, granted_frame L cfg entry]) @
      concat (map frame_enc (map (chunk_frame L) chs)) @ frame_enc f @ r"
    and "readable L (challenge_json L (nonce env) (session_id env))" and "readable L (result_json cfg L entry)"
    and "length (payload (response_frame L sk (nonce env) (session_id env))) \<le> 1048576"
    and "fits L (exec_json shell)"
    and "\<forall>ch \<in> set chs. readable_chunk L ch" and "closes L f fin n"
  shows "\<exists>c. client_session L g s key_file shell w =
      (fin ((fold print_chunk chs (w\<lparr>disk := d\<rparr>))\<lparr>link := c\<rparr>), Ok n) \<and>
    sent (inner c) = sent s @ concat (map frame_enc
      [response_frame L sk (nonce env) (session_id env), exec_request L shell])"
proof -
  let ?rf = "response_frame L sk (nonce env) (session_id env)"
  let ?r = "concat (map frame_enc (map (chunk_frame L) chs)) @ frame_enc f @ r"
  let ?w1 = "w\<lparr>disk := d, link := codec_new s\<rparr>"
  have g: "good_link (codec_new s)" "inp (inner (codec_new s)) = inp s" "sent (inner (codec_new s)) = sent s"
    using assms(2) by (simp_all add: good_link_def codec_limit_default) (simp_all add: codec_new_def)
  let ?c2 = "after_read ?r (emit [?rf] (codec_new s))"
  have 1: "client_auth L sk ?w1 = (?w1\<lparr>link := ?c2\<rparr>, Ok ())"
    using client_auth_good [OF assms(1) _ _ assms(6,7,8), of ?w1 ?r] g assms(5) by simp
  let ?c3 = "emit [exec_request L shell] ?c2"
  have 2: "send EXEC_SHELL (json_write L (exec_json shell)) (?w1\<lparr>link := ?c2\<rparr>) = (?w1\<lparr>link := ?c3\<rparr>, Ok ())"
    using send_good [of "?w1\<lparr>link := ?c2\<rparr>" "json_write L (exec_json shell)" EXEC_SHELL] g assms(9)
    by (simp add: fits_def exec_request_def shell_json_eq)
  obtain c where 3: "client_loop L (?w1\<lparr>link := ?c3\<rparr>) = (fin ((fold print_chunk chs (?w1\<lparr>link := ?c3\<rparr>))\<lparr>link := c\<rparr>), Ok n)"
    and 4: "sent (inner c) = sent (inner ?c3)"
    using client_loop_closes [OF assms(1) _ _ _ assms(10,11), of "?w1\<lparr>link := ?c3\<rparr>" r] g assms(3)
    by (auto simp: can_print_def)
  have l: "(fold print_chunk chs (v\<lparr>link := e\<rparr>))\<lparr>link := c\<rparr> = (fold print_chunk chs v)\<lparr>link := c\<rparr>" for v e
    by (rule fold_print_link)
  from 1 2 3 4 g assms(4) show ?thesis
    by (intro exI [of _ c])
       (simp add: client_session_def and_then_def act_err_def on_disk_def use_link_def l)
qed

section \<open>Properties\<close>

text \<open>What the last frame says about the exit status.\<close>

definition status_from :: "('vk, 'sk) lib \<Rightarrow> frame \<Rightarrow> int \<Rightarrow> bool" where
  "status_from L f n \<longleftrightarrow>
     (msg_type f = EXEC_EXIT \<and> (\<exists>v. json_read L (payload f) = Some v \<and>
        n = as_i32 (case Option.bind (value_get ''exit_code'' v) as_i64 of None \<Rightarrow> -1 | Some m \<Rightarrow> m))) \<or>
     (msg_type f = POLICY_DENIED \<and> n = 126) \<or>
     (msg_type f \<notin> {STREAM_STDOUT, STREAM_STDERR, EXEC_EXIT, POLICY_DENIED} \<and> n = 1)"

lemma handle_frame_Ok:
  assumes "handle_frame L f w = (w', Ok x)"
  shows "case x of None \<Rightarrow> msg_type f \<in> {STREAM_STDOUT, STREAM_STDERR} | Some n \<Rightarrow> status_from L f n"
  using assms
  by (auto simp: handle_frame_def res_iff parse_json_def Let_def status_from_def split: if_splits option.splits)

lemma recv_Ok:
  assumes "recv w = (w', Ok f)"
  shows "inp (inner (link w)) = frame_enc f @ inp (inner (link w')) \<and>
    sent (inner (link w')) = sent (inner (link w))"
  using assms
  by (auto simp: recv_def res_iff dest: wire.recv_sound wire.recv_frame_rest split: prod.splits)

lemma client_loop_Ok:
  assumes "client_loop L w = (w', Ok n)"
  shows "\<exists>mid f. inp (inner (link w)) = concat (map frame_enc (mid @ [f])) @ inp (inner (link w')) \<and>
    list_all (\<lambda>g. msg_type g \<in> {STREAM_STDOUT, STREAM_STDERR}) mid \<and> status_from L f n \<and>
    sent (inner (link w')) = sent (inner (link w))"
  using assms
proof (induction "length (inp (inner (link w)))" arbitrary: w rule: less_induct)
  case less
  from less.prems obtain w1 f w2 x where 1: "recv w = (w1, Ok f)" and 2: "handle_frame L f w1 = (w2, Ok x)"
    and 3: "case x of None \<Rightarrow> client_loop L w2 = (w', Ok n) | Some m \<Rightarrow> w' = w2 \<and> m = n"
    by (subst (asm) client_loop.simps) (auto split: prod.splits res.splits option.splits)
  note r = recv_Ok [OF 1] and l = handle_frame_link [OF 2] and h = handle_frame_Ok [OF 2]
  show ?case
  proof (cases x)
    case None
    with 3 have "client_loop L w2 = (w', Ok n)" by simp
    moreover have "length (inp (inner (link w2))) < length (inp (inner (link w)))"
      by (rule client_loop_decreases [OF 1 2])
    ultimately obtain mid g where
      "inp (inner (link w2)) = concat (map frame_enc (mid @ [g])) @ inp (inner (link w'))"
      "list_all (\<lambda>g. msg_type g \<in> {STREAM_STDOUT, STREAM_STDERR}) mid" "status_from L g n"
      "sent (inner (link w')) = sent (inner (link w2))"
      using less.hyps by blast
    with r l h None show ?thesis
      by (intro exI [of _ "f # mid"] exI [of _ g]) simp
  next
    case (Some m)
    with 3 h r l show ?thesis
      by (intro exI [of _ "[]"] exI [of _ f]) simp
  qed
qed

lemma send_Ok:
  "send t p w = (w', Ok u) \<Longrightarrow> sent (inner (link w')) = sent (inner (link w)) @ frame_enc \<lparr>msg_type = t, payload = p\<rparr> \<and>
   inp (inner (link w')) = inp (inner (link w))"
  by (auto simp: send_def res_iff dest: write_frame_Ok write_frame_rest split: prod.splits)

lemma client_auth_Ok:
  assumes "client_auth L sk w = (w', Ok u)"
  shows "\<exists>f1 f2 ch nonce ar. inp (inner (link w)) = concat (map frame_enc [f1, f2]) @ inp (inner (link w')) \<and>
    msg_type f1 = AUTH_CHALLENGE \<and> Option.bind (json_read L (payload f1)) de_auth_challenge = Some ch \<and>
    b64_decode L (ch_nonce ch) = Inr nonce \<and>
    msg_type f2 = AUTH_RESULT \<and> Option.bind (json_read L (payload f2)) de_auth_result = Some ar \<and> res_ok ar \<and>
    sent (inner (link w')) = sent (inner (link w)) @ frame_enc (response_frame L sk nonce (ch_session_id ch))"
proof -
  from assms obtain w1 f1 ch nonce w2 f2 ar where
    1: "recv w = (w1, Ok f1)" "msg_type f1 = AUTH_CHALLENGE"
      "Option.bind (json_read L (payload f1)) de_auth_challenge = Some ch" "b64_decode L (ch_nonce ch) = Inr nonce"
    and 2: "send AUTH_RESPONSE (payload (response_frame L sk nonce (ch_session_id ch))) w1 = (w2, Ok ())"
    and 3: "recv w2 = (w', Ok f2)" "msg_type f2 = AUTH_RESULT"
      "Option.bind (json_read L (payload f2)) de_auth_result = Some ar" "res_ok ar"
    by (auto simp: client_auth_def client_result_def parse_json_def res_iff Let_def response_frame_def split: if_splits)
  then show ?thesis
    using recv_Ok [OF 1(1)] send_Ok [OF 2] recv_Ok [OF 3(1)]
    by (intro exI [of _ f1] exI [of _ f2] exI [of _ ch] exI [of _ nonce] exI [of _ ar])
       (simp add: response_frame_def)
qed

text \<open>The response that a registered agent gives to a challenge is valid for the server.\<close>

lemma agent_response_valid:
  assumes "hex_spec L" and "b64_spec L" and "sign_spec L" and "sk \<in> set sks"
    and "\<forall>sk' \<in> set sks. sha256 L (vk_to_bytes L (verifying_key L sk'))
        = sha256 L (vk_to_bytes L (verifying_key L sk)) \<longrightarrow> verifying_key L sk' = verifying_key L sk"
    and "json_reads L (response_json (ed25519_fingerprint_hex L (verifying_key L sk))
      (sign_auth_message L sk (signing_bytes (nonce env) (session_id env))))"
  shows "\<exists>entry. valid_response L (map (agent_entry L) sks) env
    (response_frame L sk (nonce env) (session_id env)) entry \<and> entry \<in> set (map (agent_entry L) sks)"
proof -
  let ?msg = "signing_bytes (nonce env) (session_id env)"
  obtain k where f: "find_key L (map (agent_entry L) sks) (ed25519_fingerprint_hex L (verifying_key L sk)) = Some k"
    and v: "verify_ed25519_signature L (vk_of k) ?msg (sign_auth_message L sk ?msg) = Ok ()"
    using registered_agent_verifies [OF assms(1-5), of ?msg] by blast
  from v have "\<exists>raw. b64_decode L (sign_auth_message L sk ?msg) = Inr raw \<and> length raw = 64 \<and>
      verify_strict L (vk_of k) ?msg raw"
    by (simp only: verify_Ok_iff)
  with f assms(6) have "valid_response L (map (agent_entry L) sks) env
      (response_frame L sk (nonce env) (session_id env)) k"
    by (simp add: valid_response_def response_frame_def from_slice_def json_reads_def)
  with f show ?thesis by (blast dest: find_key_Some)
qed

text \<open>
  C23. What an exit status means. If a session ends with a status, then the server's frames were: a
  challenge; a result that says \<open>ok\<close>; output frames only; and one last frame that determines the status,
  the reported code for \<open>EXEC_EXIT\<close>, 126 for a policy denial, 1 for an error or an unexpected frame. The
  client has sent exactly its response, signed with its key over the nonce of that challenge, and the
  command. In particular the command is sent only after the server's positive result.
\<close>

theorem exit_status_meaning:
  assumes "client_session L g s key_file shell w = (w', Ok n)" and "sent s = []"
  shows "\<exists>sk d f1 f2 mid f ch nonce ar.
    load_or_create_signing_key L g key_file (disk w) = (d, Ok sk) \<and>
    inp s = concat (map frame_enc ([f1, f2] @ mid @ [f])) @ inp (inner (link w')) \<and>
    msg_type f1 = AUTH_CHALLENGE \<and> Option.bind (json_read L (payload f1)) de_auth_challenge = Some ch \<and>
    b64_decode L (ch_nonce ch) = Inr nonce \<and>
    msg_type f2 = AUTH_RESULT \<and> Option.bind (json_read L (payload f2)) de_auth_result = Some ar \<and> res_ok ar \<and>
    list_all (\<lambda>g. msg_type g \<in> {STREAM_STDOUT, STREAM_STDERR}) mid \<and> status_from L f n \<and>
    sent (inner (link w')) =
      concat (map frame_enc [response_frame L sk nonce (ch_session_id ch), exec_request L shell])"
proof -
  from assms(1) obtain w1 sk w2 w3 where
    0: "on_disk (load_or_create_signing_key L g key_file) w = (w1, Ok sk)"
    and 1: "client_auth L sk (w1\<lparr>link := codec_new s\<rparr>) = (w2, Ok ())"
    and 2: "send EXEC_SHELL (json_write L (exec_json shell)) w2 = (w3, Ok ())"
    and 3: "client_loop L w3 = (w', Ok n)"
    by (auto simp: client_session_def res_iff use_link_def)
  obtain f1 f2 ch nonce ar where a:
    "inp (inner (link (w1\<lparr>link := codec_new s\<rparr>))) = concat (map frame_enc [f1, f2]) @ inp (inner (link w2))"
    "msg_type f1 = AUTH_CHALLENGE" "Option.bind (json_read L (payload f1)) de_auth_challenge = Some ch"
    "b64_decode L (ch_nonce ch) = Inr nonce"
    "msg_type f2 = AUTH_RESULT" "Option.bind (json_read L (payload f2)) de_auth_result = Some ar" "res_ok ar"
    "sent (inner (link w2)) = sent (inner (link (w1\<lparr>link := codec_new s\<rparr>))) @
      frame_enc (response_frame L sk nonce (ch_session_id ch))"
    using client_auth_Ok [OF 1] by blast
  obtain mid f where m: "inp (inner (link w3)) = concat (map frame_enc (mid @ [f])) @ inp (inner (link w'))"
    "list_all (\<lambda>g. msg_type g \<in> {STREAM_STDOUT, STREAM_STDERR}) mid" "status_from L f n"
    "sent (inner (link w')) = sent (inner (link w3))"
    using client_loop_Ok [OF 3] by blast
  have "sent (inner (link w')) =
      concat (map frame_enc [response_frame L sk nonce (ch_session_id ch), exec_request L shell])"
    using m(4) send_Ok [OF 2] a(8) assms(2) by (simp add: codec_new_def exec_request_def shell_json_eq)
  moreover have "inp s = concat (map frame_enc ([f1, f2] @ mid @ [f])) @ inp (inner (link w'))"
    using m(1) send_Ok [OF 2] a(1) by (simp add: codec_new_def)
  moreover obtain d where "load_or_create_signing_key L g key_file (disk w) = (d, Ok sk)"
    using 0 by (auto simp: on_disk_def split: prod.splits)
  ultimately show ?thesis using a(2-7) m(2,3) by blast
qed

end
