(* ===== verification/Causality.thy ===== *)
theory Causality
  imports Client_Props
begin

text \<open>
  Both ends of a connection are functions of the bytes they are sent. This theory shows that they are causal:
  what an end has sent, printed or started when its input is cut somewhere is a beginning of what it does
  when the input goes on. So the same functions say what an end has done when it waits for more.
\<close>

section \<open>Input that goes on\<close>

definition feed :: "bytes \<Rightarrow> io_error option \<Rightarrow> stream \<Rightarrow> stream" where
  "feed bs e s = s\<lparr>inp := inp s @ bs, inp_end := e\<rparr>"

definition feed_codec :: "bytes \<Rightarrow> io_error option \<Rightarrow> codec \<Rightarrow> codec" where
  "feed_codec bs e c = c\<lparr>inner := feed bs e (inner c)\<rparr>"

definition feed_world :: "bytes \<Rightarrow> io_error option \<Rightarrow> client_world \<Rightarrow> client_world" where
  "feed_world bs e w = w\<lparr>link := feed_codec bs e (link w)\<rparr>"

text \<open>What can be seen from outside only grows.\<close>

definition said :: "codec \<Rightarrow> codec \<Rightarrow> bool" where
  "said c d \<longleftrightarrow> prefix (sent (inner c)) (sent (inner d))"

definition shown :: "client_world \<Rightarrow> client_world \<Rightarrow> bool" where
  "shown v w \<longleftrightarrow> said (link v) (link w) \<and> prefix (out_text v) (out_text w) \<and> prefix (err_text v) (err_text w)"

section \<open>Causal computations\<close>

text \<open>
  A computation is causal if its effects only grow, with more input it has at least the same effects, and if
  it succeeds then more input changes nothing but what is left unread. It is blind if it does not read.
\<close>

definition causal ::
    "('s \<Rightarrow> 's) \<Rightarrow> ('s \<Rightarrow> 's \<Rightarrow> bool) \<Rightarrow> ('s \<Rightarrow> 's \<times> ('e, 'a) res) \<Rightarrow> bool" where
  "causal inject grown m \<longleftrightarrow> (\<forall>s. grown s (fst (m s)) \<and> grown (fst (m s)) (fst (m (inject s))) \<and>
     (is_ok (snd (m s)) \<longrightarrow> m (inject s) = (inject (fst (m s)), snd (m s))))"

definition blind :: "('s \<Rightarrow> 's) \<Rightarrow> ('s \<Rightarrow> 's \<Rightarrow> bool) \<Rightarrow> ('s \<Rightarrow> 's \<times> 'r) \<Rightarrow> bool" where
  "blind inject grown m \<longleftrightarrow> (\<forall>s. grown s (fst (m s)) \<and> m (inject s) = (inject (fst (m s)), snd (m s)))"

text \<open>The sequencing of the \<open>?\<close> operator over any state.\<close>

definition seq :: "('s \<Rightarrow> 's \<times> ('e, 'a) res) \<Rightarrow> ('a \<Rightarrow> 's \<Rightarrow> 's \<times> ('e, 'b) res) \<Rightarrow> 's \<Rightarrow> 's \<times> ('e, 'b) res" where
  "seq m f s =
     (case m s of
        (s', Ok a) \<Rightarrow> f a s'
      | (s', Err e) \<Rightarrow> (s', Err e)
      | (s', Panic) \<Rightarrow> (s', Panic))"

lemma is_ok_iff: "is_ok r \<longleftrightarrow> (\<exists>a. r = Ok a)"
  by (cases r) simp_all

locale growing_effects =
  fixes inject :: "'s \<Rightarrow> 's" and grown :: "'s \<Rightarrow> 's \<Rightarrow> bool"
  assumes grown_refl: "grown s s"
    and grown_trans: "grown s t \<Longrightarrow> grown t u \<Longrightarrow> grown s u"
    and grown_inject: "grown s (inject s)"
    and inject_grown: "grown (inject s) s"
begin

lemma causalD:
  assumes "causal inject grown m" and "m s = (t, r)"
  shows "grown s t" and "grown t (fst (m (inject s)))" and "r = Ok a \<Longrightarrow> m (inject s) = (inject t, r)"
  using assms by (auto simp: causal_def dest!: spec [of _ s])

lemma blind_causal: "blind inject grown m \<Longrightarrow> causal inject grown m"
  by (simp add: causal_def blind_def grown_inject)

lemma causal_seq:
  assumes "causal inject grown m" and "\<And>a. causal inject grown (f a)"
  shows "causal inject grown (seq m f)"
  unfolding causal_def
proof
  fix s
  obtain t r where m: "m s = (t, r)" by fastforce
  note t = causalD [OF assms(1) m]
  show "grown s (fst (seq m f s)) \<and> grown (fst (seq m f s)) (fst (seq m f (inject s))) \<and>
    (is_ok (snd (seq m f s)) \<longrightarrow> seq m f (inject s) = (inject (fst (seq m f s)), snd (seq m f s)))"
  proof (cases "is_ok r")
    case True
    then obtain a where a: "r = Ok a" by (auto simp: is_ok_iff)
    then have eq: "seq m f s = f a t" "seq m f (inject s) = f a (inject t)"
      using m t(3) by (simp_all add: seq_def)
    obtain u x where f: "f a t = (u, x)" by fastforce
    note u = causalD [OF assms(2) f]
    from eq f u grown_trans [OF t(1) u(1)] show ?thesis by (auto simp: is_ok_iff)
  next
    case False
    then have eq: "fst (seq m f s) = t" "\<not> is_ok (snd (seq m f s))"
      using m by (cases r; simp add: seq_def)+
    obtain t' r' where m': "m (inject s) = (t', r')" by fastforce
    have "grown t' (fst (seq m f (inject s)))"
    proof (cases r')
      case (Ok a)
      obtain u x where f: "f a t' = (u, x)" by fastforce
      from causalD(1) [OF assms(2) f] m' Ok f show ?thesis by (simp add: seq_def)
    qed (simp_all add: seq_def m' grown_refl)
    moreover have "grown t t'" using t(2) m' by simp
    ultimately show ?thesis using eq t(1) grown_trans by blast
  qed
qed

end

lemma said_refl [simp]: "said c c"
  by (simp add: said_def)

lemma said_trans: "said c d \<Longrightarrow> said d e \<Longrightarrow> said c e"
  by (auto simp: said_def)

lemma said_feed [simp]: "said c (feed_codec bs e d) = said c d" "said (feed_codec bs e c) d = said c d"
  by (simp_all add: said_def feed_codec_def feed_def)

lemma shown_feed [simp]: "shown v (feed_world bs e w) = shown v w" "shown (feed_world bs e v) w = shown v w"
  by (simp_all add: shown_def feed_world_def)

interpretation srv: growing_effects "feed_codec bs e" said for bs e
  by unfold_locales (auto intro: said_trans)

interpretation cli: growing_effects "feed_world bs e" shown for bs e
proof
  show "shown v w \<Longrightarrow> shown w x \<Longrightarrow> shown v x" for v w x
    by (auto simp: shown_def intro: said_trans)
qed (simp_all, simp_all add: shown_def)

section \<open>The codec\<close>

lemma feed_simps [simp]:
  "inp (feed bs e s) = inp s @ bs" "inp_end (feed bs e s) = e" "sent (feed bs e s) = sent s"
  "room (feed bs e s) = room s" "write_err (feed bs e s) = write_err s" "flush_err (feed bs e s) = flush_err s"
  "inner (feed_codec bs e c) = feed bs e (inner c)" "max_payload_len (feed_codec bs e c) = max_payload_len c"
  by (simp_all add: feed_def feed_codec_def)

lemma feed_update:
  "(feed bs e s)\<lparr>sent := x\<rparr> = feed bs e (s\<lparr>sent := x\<rparr>)" "(feed bs e s)\<lparr>room := y\<rparr> = feed bs e (s\<lparr>room := y\<rparr>)"
  "(feed_codec bs e c)\<lparr>inner := feed bs e s\<rparr> = feed_codec bs e (c\<lparr>inner := s\<rparr>)"
  by (simp_all add: feed_def feed_codec_def)

lemma write_all_feed: "write_all b (feed bs e s) = (feed bs e (fst (write_all b s)), snd (write_all b s))"
  by (simp add: write_all_def feed_update split: option.split)

lemma write_frame_feed:
  "write_frame t p (feed_codec bs e c) = (feed_codec bs e (fst (write_frame t p c)), snd (write_frame t p c))"
  by (simp add: write_frame_def Let_def wire_simps write_all_feed flush_def feed_update
      split: sum.split option.split prod.split)

lemma read_frame_feed:
  assumes "read_frame c = (c', Ok f)"
  shows "read_frame (feed_codec bs e c) = (feed_codec bs e c', Ok f)"
proof -
  note r = read_frame_Ok [OF assms]
  have "read_frame (feed_codec bs e c) =
      ((feed_codec bs e c)\<lparr>inner := (feed bs e (inner c))\<lparr>inp := inp (inner c') @ bs\<rparr>\<rparr>, Ok f)"
    using r by (subst read_frame_enc [of _ f "inp (inner c') @ bs"]) (simp_all add: codec_limit_def)
  moreover have "(feed_codec bs e c)\<lparr>inner := (feed bs e (inner c))\<lparr>inp := inp (inner c') @ bs\<rparr>\<rparr> = feed_codec bs e c'"
    by (subst (2) r [THEN conjunct2, THEN conjunct2]) (simp add: feed_codec_def feed_def)
  ultimately show ?thesis by simp
qed

lemma read_frame_causal: "causal (feed_codec bs e) said read_frame"
  unfolding causal_def
proof
  fix c
  obtain c' r where c: "read_frame c = (c', r)" by fastforce
  obtain d x where d: "read_frame (feed_codec bs e c) = (d, x)" by fastforce
  have "sent (inner c') = sent (inner c)" "sent (inner d) = sent (inner c)"
    using read_frame_rest [OF c] read_frame_rest [OF d] by simp_all
  with c d read_frame_feed [of c c' _ bs e]
  show "said c (fst (read_frame c)) \<and> said (fst (read_frame c)) (fst (read_frame (feed_codec bs e c))) \<and>
    (is_ok (snd (read_frame c)) \<longrightarrow>
      read_frame (feed_codec bs e c) = (feed_codec bs e (fst (read_frame c)), snd (read_frame c)))"
    by (auto simp: said_def is_ok_iff)
qed

lemma write_frame_blind: "blind (feed_codec bs e) said (write_frame t p)"
proof -
  have "said c (fst (write_frame t p c))" for c
  proof -
    have "write_all b s = (s', x) \<Longrightarrow> prefix (sent s) (sent s')" for b s s' x
      by (drule write_all_prefix) auto
    then show ?thesis
      by (auto simp: write_frame_def Let_def wire_simps said_def split: sum.split prod.split)
         (meson prefix_order.trans)+
  qed
  then show ?thesis by (simp add: blind_def write_frame_feed)
qed

section \<open>The server\<close>

lemma send_json_feed:
  "send_json L t j (feed_codec bs e c) = (feed_codec bs e (fst (send_json L t j c)), snd (send_json L t j c))"
  by (simp add: send_json_def write_frame_feed case_prod_unfold)

lemma write_frame_said: "write_frame t p c = (c', x) \<Longrightarrow> said c c'"
  using write_frame_blind [of "[]" None t p] by (auto simp: blind_def dest!: spec [of _ c])

lemma send_json_said: "send_json L t j c = (c', x) \<Longrightarrow> said c c'"
  by (auto simp: send_json_def dest!: write_frame_said split: prod.splits)

lemma read_frame_said: "read_frame c = (c', x) \<Longrightarrow> said c c' \<and> said c' c"
  using read_frame_rest [of c c' x] by (simp add: said_def)

lemma write_cut_feed: "write_cut f n (feed_codec bs e c) = feed_codec bs e (write_cut f n c)"
  by (simp add: write_cut_def codec_limit_def write_all_feed feed_update)

lemma write_cut_said: "said c (write_cut f n c)"
  using write_all_prefix [OF prod.collapse [symmetric], of "take n (frame_enc f)" "inner c"]
  by (auto simp: write_cut_def said_def)

lemma send_chunks_feed:
  "send_chunks L chs (feed_codec bs e c) = (feed_codec bs e (fst (send_chunks L chs c)), snd (send_chunks L chs c))"
  by (induction chs arbitrary: c) (auto simp: write_frame_feed case_prod_unfold split: res.split)

lemma send_chunks_said: "send_chunks L chs c = (c', x) \<Longrightarrow> said c c'"
  by (induction chs arbitrary: c)
     (auto dest!: write_frame_said split: prod.splits res.splits, meson said_trans)

lemma exec_future_feed:
  "exec_future L run (feed_codec bs e c) = (feed_codec bs e (fst (exec_future L run c)), snd (exec_future L run c))"
  by (simp add: exec_future_def send_chunks_feed send_json_feed write_cut_feed case_prod_unfold
      split: res.split exec_ending.split sum.split)

lemma exec_future_said: "exec_future L run c = (c', x) \<Longrightarrow> said c c'"
  by (auto simp: exec_future_def dest!: send_chunks_said send_json_said
      split: prod.splits res.splits exec_ending.splits sum.splits) (meson said_trans write_cut_said)+

lemma run_one_exec_feed:
  "run_one_exec L cfg run shell (feed_codec bs e c) =
    (feed_codec bs e (fst (run_one_exec L cfg run shell c)), snd (run_one_exec L cfg run shell c))"
  by (simp add: run_one_exec_def Let_def send_json_feed exec_future_feed case_prod_unfold
      split: res.split core_error.split sum.split option.split)

lemma run_one_exec_said: "run_one_exec L cfg run shell c = (c', x) \<Longrightarrow> said c c'"
  by (auto simp: run_one_exec_def Let_def dest!: exec_future_said send_json_said
      split: prod.splits res.splits core_error.splits sum.splits option.splits if_splits) (meson said_trans)+

lemma exec_loop_said: "exec_loop L cfg rs i c = (c', acts, r) \<Longrightarrow> said c c'"
proof (induction "length (inp (inner c))" arbitrary: c i acts rule: less_induct)
  case less
  from less.prems show ?case
  proof (cases rule: exec_loop_cases)
    case (unread y)
    then show ?thesis using read_frame_said by blast
  next
    case (refused c1 f)
    then show ?thesis
      using read_frame_said [OF refused(1)] send_json_said [OF refused(3) [unfolded send_error_def]] said_trans
      by blast
  next
    case (last c1 f shell)
    then show ?thesis using read_frame_said [OF last(1)] run_one_exec_said said_trans by blast
  next
    case (more c1 f shell c2 as acts')
    from less.hyps [OF exec_loop_decreases [OF more(1) [symmetric] more(4) [symmetric]] more(6)]
    have "said c2 c'" .
    then show ?thesis
      using read_frame_said [OF more(1)] run_one_exec_said [OF more(4)] said_trans by blast
  qed
qed

text \<open>The loop with more input: what it sends and does begins in the same way.\<close>

lemma exec_loop_feed:
  "exec_loop L cfg rs i c = (c', acts, r) \<Longrightarrow> exec_loop L cfg rs i (feed_codec bs e c) = (d', acts', r') \<Longrightarrow>
   said c' d' \<and> prefix acts acts'"
proof (induction "length (inp (inner c))" arbitrary: c i acts acts' d' r' rule: less_induct)
  case less
  note unfold = less.prems(2) [unfolded exec_loop.simps [of L cfg rs i "feed_codec bs e c"]]
  from less.prems(1) show ?case
  proof (cases rule: exec_loop_cases)
    case (unread y)
    have "said c d'" using exec_loop_said [OF less.prems(2)] by simp
    with unread(2) read_frame_said [OF unread(1)] show ?thesis by (auto intro: said_trans [of c' c d'])
  next
    case (refused c1 f)
    with unfold read_frame_feed [OF refused(1), of bs e] show ?thesis
      by (auto simp: send_error_def send_json_feed case_prod_unfold)
  next
    case (last c1 f shell)
    with unfold read_frame_feed [OF last(1), of bs e] run_one_exec_feed [of L cfg "rs i" shell bs e c1]
    show ?thesis by (cases r) auto
  next
    case (more c1 f shell c2 as acts1)
    obtain d acts2 s where d: "exec_loop L cfg rs (Suc i) (feed_codec bs e c2) = (d, acts2, s)"
      using prod_cases3 by blast
    with unfold more read_frame_feed [OF more(1), of bs e] run_one_exec_feed [of L cfg "rs i" shell bs e c1]
    have "d' = d" "acts' = as @ acts2" by auto
    with less.hyps [OF exec_loop_decreases [OF more(1) [symmetric] more(4) [symmetric]] more(6) d] more(5)
    show ?thesis by simp
  qed
qed

lemma session_auth_said: "session_auth L w cfg env c = (c', x) \<Longrightarrow> said c c'"
  by (auto simp: session_auth_def Let_def send_error_def send_auth_fail_def
      dest!: send_json_said read_frame_said
      split: prod.splits res.splits if_splits option.splits) (meson said_trans)+

lemma session_auth_feed:
  assumes "session_auth L w cfg env c = (c', x)" and "session_auth L w cfg env (feed_codec bs e c) = (d', y)"
  shows "said c' d' \<and> (is_ok x \<longrightarrow> d' = feed_codec bs e c' \<and> y = x)"
proof (cases "load_authorized_keys L w (authorized_keys_path cfg)")
  case (Ok keys)
  let ?j = "challenge_json L (nonce env) (session_id env)"
  obtain c1 u where 1: "send_json L AUTH_CHALLENGE ?j c = (c1, u)" by fastforce
  have 2: "send_json L AUTH_CHALLENGE ?j (feed_codec bs e c) = (feed_codec bs e c1, u)"
    using 1 by (simp add: send_json_feed)
  obtain c2 z where r: "read_frame c1 = (c2, z)" by fastforce
  show ?thesis
  proof (cases "is_ok u \<and> \<not> is_ok z")
    case True
    with assms(1) Ok 1 r have "c' = c2" "\<not> is_ok x" by (cases u; cases z; auto simp: session_auth_def)+
    moreover from True assms(2) Ok 2 have "said (feed_codec bs e c1) d'"
      by (cases u; simp add: session_auth_def Let_def send_error_def send_auth_fail_def
          split: prod.splits res.splits if_splits option.splits)
         (auto dest!: send_json_said read_frame_said, (meson said_trans said_feed)+)
    ultimately show ?thesis using read_frame_said [OF r] said_trans by auto
  next
    case False
    then have "session_auth L w cfg env (feed_codec bs e c) = (feed_codec bs e c', x)"
      using assms(1) Ok 1 2 r read_frame_feed [of c1 c2 _ bs e]
      by (cases u; cases z)
         (auto simp: session_auth_def Let_def send_error_def send_auth_fail_def send_json_feed case_prod_unfold
           split: if_splits option.splits res.splits)
    with assms(2) show ?thesis by auto
  qed
qed (use assms in \<open>auto simp: session_auth_def\<close>)

lemma session_feed:
  assumes "run_session L w cfg env c = (c', acts, r)"
    and "run_session L w cfg env (feed_codec bs e c) = (d', acts', r')"
  shows "prefix (sent (inner c')) (sent (inner d')) \<and> prefix acts acts'"
proof -
  obtain c1 x where c1: "session_auth L w cfg env c = (c1, x)" by fastforce
  obtain d1 y where d1: "session_auth L w cfg env (feed_codec bs e c) = (d1, y)" by fastforce
  note a = session_auth_feed [OF c1 d1]
  have "said c' d' \<and> prefix acts acts'"
  proof (cases "is_ok x")
    case True
    then obtain k where k: "x = Ok k" by (auto simp: is_ok_iff)
    with a have "d1 = feed_codec bs e c1" "y = Ok k" by simp_all
    with assms c1 d1 k exec_loop_feed [of L cfg "runs env" 0 c1 c' acts r bs e d' acts' r']
    show ?thesis by (cases k) (auto simp: run_session_def)
  next
    case False
    with assms(1) c1 have "c' = c1" "acts = []" by (cases x; simp add: run_session_def)+
    moreover have "said d1 d'"
      using assms(2) d1 exec_loop_said by (auto simp: run_session_def split: res.splits option.splits)
    ultimately show ?thesis using a said_trans by auto
  qed
  then show ?thesis by (simp add: said_def)
qed

text \<open>
  C9. The server acts on what it has received and on nothing else. Whatever is still to come on the
  connection, and however it ends (more bytes, an orderly end, a transport error), the bytes the server
  has sent and the processes it has started when its input was cut at any point are a beginning of what
  it sends and starts in the end. So a partial frame causes nothing, and nothing is taken back.
\<close>

theorem session_causal:
  assumes "run_session L w cfg env c = (c', acts, r)"
    and "run_session L w cfg env (feed_codec bs e c) = (d', acts', r')"
  shows "prefix (sent (inner c')) (sent (inner d')) \<and> prefix acts acts'"
  using assms by (rule session_feed)

section \<open>The client\<close>

lemma and_then_seq: "and_then m f = seq m f"
  by (simp add: fun_eq_iff and_then_def seq_def)

abbreviation acausal :: "bytes \<Rightarrow> io_error option \<Rightarrow> ('e, 'a) act \<Rightarrow> bool" where
  "acausal bs e \<equiv> causal (feed_world bs e) shown"

named_theorems acausal_intros \<open>causal actions of the client\<close>

lemma acausal_and_then [acausal_intros]:
  "acausal bs e m \<Longrightarrow> (\<And>a. acausal bs e (f a)) \<Longrightarrow> acausal bs e (and_then m f)"
  unfolding and_then_seq by (rule cli.causal_seq)

lemma acausal_pure [acausal_intros]:
  "acausal bs e (ret a)" "acausal bs e (fail x)" "acausal bs e (attempt r)"
  by (rule cli.blind_causal, simp add: blind_def ret_def fail_def attempt_def shown_def)+

lemma acausal_print [acausal_intros]:
  "acausal bs e (eprintln s)" "acausal bs e (write_stdout raw)" "acausal bs e (write_stderr raw)"
  by (rule cli.blind_causal, simp add: blind_def eprintln_def eprint_def write_stdout_def write_stderr_def
      shown_def feed_world_def split: option.split)+

lemma acausal_send [acausal_intros]: "acausal bs e (send t p)"
  by (rule cli.blind_causal)
     (auto simp: blind_def send_def feed_world_def shown_def write_frame_feed case_prod_unfold
       intro: write_frame_said [OF prod.collapse [symmetric]])

lemma acausal_recv [acausal_intros]: "acausal bs e recv"
  unfolding causal_def
proof
  fix w :: client_world
  obtain c r where c: "read_frame (link w) = (c, r)" by fastforce
  obtain d x where d: "read_frame (feed_codec bs e (link w)) = (d, x)" by fastforce
  have v: "recv w = (w\<lparr>link := c\<rparr>, map_err BoxProtocol r)"
    "recv (feed_world bs e w) = (w\<lparr>link := d\<rparr>, map_err BoxProtocol x)"
    using c d by (simp_all add: recv_def feed_world_def)
  have s: "said (link w) c" "said c d"
    using read_frame_said [OF c] read_frame_said [OF d] said_trans by auto
  have "is_ok r \<Longrightarrow> d = feed_codec bs e c \<and> x = r"
    using c d read_frame_feed [of "link w" c _ bs e] by (auto simp: is_ok_iff)
  with s show "shown w (fst (recv w)) \<and> shown (fst (recv w)) (fst (recv (feed_world bs e w))) \<and>
    (is_ok (snd (recv w)) \<longrightarrow> recv (feed_world bs e w) = (feed_world bs e (fst (recv w)), snd (recv w)))"
    unfolding v by (cases r) (simp_all add: shown_def feed_world_def)
qed

lemma acausal_parse [acausal_intros]: "acausal bs e (parse_json L de b)"
  unfolding parse_json_def by (intro acausal_intros)

lemma handle_frame_causal [acausal_intros]: "acausal bs e (handle_frame L f)"
  by (auto simp: handle_frame_def Let_def intro!: acausal_intros)

lemma client_result_causal [acausal_intros]: "acausal bs e (client_result L)"
  by (auto simp: client_result_def intro!: acausal_intros)

lemma client_auth_causal [acausal_intros]: "acausal bs e (client_auth L sk)"
  by (auto simp: client_auth_def Let_def intro!: acausal_intros)

text \<open>One iteration of the loop, with \<open>m\<close> for the following ones.\<close>

definition loop_body :: "('vk, 'sk) lib \<Rightarrow> (boxed_error, int) act \<Rightarrow> (boxed_error, int) act" where
  "loop_body L m = and_then recv (\<lambda>f. and_then (handle_frame L f) (\<lambda>x. case x of None \<Rightarrow> m | Some n \<Rightarrow> ret n))"

lemma loop_body_causal: "acausal bs e m \<Longrightarrow> acausal bs e (loop_body L m)"
  by (auto simp: loop_body_def split: option.split intro!: acausal_intros)

lemma client_loop_body: "client_loop L w = loop_body L (client_loop L) w"
  by (subst client_loop.simps) (simp add: loop_body_def and_then_def ret_def split: prod.split res.split option.split)

text \<open>As many iterations as there are bytes left are enough, so the loop is a finite unrolling.\<close>

lemma client_loop_unrolled:
  "length (inp (inner (link w))) < n \<Longrightarrow> (loop_body L ^^ n) (ret 0) w = client_loop L w"
proof (induction n arbitrary: w)
  case (Suc n)
  have "(loop_body L ^^ n) (ret 0) w2 = client_loop L w2"
    if "recv w = (w1, Ok f)" "handle_frame L f w1 = (w2, r)" for w1 f w2 r
    using Suc client_loop_decreases [OF that] by simp
  then show ?case
    by (subst client_loop_body) (auto simp: loop_body_def and_then_def split: prod.split res.split option.split)
qed simp

lemma client_loop_causal [acausal_intros]: "acausal bs e (client_loop L)"
proof -
  have c: "acausal bs e ((loop_body L ^^ n) (ret 0))" for n
    by (induction n) (auto intro: loop_body_causal acausal_intros)
  have eq: "client_loop L w = (loop_body L ^^ n) (ret 0) w"
    "client_loop L (feed_world bs e w) = (loop_body L ^^ n) (ret 0) (feed_world bs e w)"
    if "n = Suc (length (inp (inner (link w))) + length bs)" for n w
    using that by (intro client_loop_unrolled [symmetric], simp add: feed_world_def)+
  show ?thesis
    unfolding causal_def
  proof
    fix w :: client_world
    let ?n = "Suc (length (inp (inner (link w))) + length bs)"
    from c [of ?n, unfolded causal_def, rule_format, of w]
    show "shown w (fst (client_loop L w)) \<and>
        shown (fst (client_loop L w)) (fst (client_loop L (feed_world bs e w))) \<and>
        (is_ok (snd (client_loop L w)) \<longrightarrow>
          client_loop L (feed_world bs e w) = (feed_world bs e (fst (client_loop L w)), snd (client_loop L w)))"
      unfolding eq [OF refl, of w] .
  qed
qed

lemma client_feed:
  assumes "client_session L g s key_file shell w = (v, r)"
    and "client_session L g (feed bs e s) key_file shell w = (v', r')"
  shows "prefix (sent (inner (link v))) (sent (inner (link v'))) \<and>
    prefix (out_text v) (out_text v') \<and> prefix (err_text v) (err_text v') \<and>
    (is_ok r \<longrightarrow> r' = r \<and> out_text v' = out_text v \<and> err_text v' = err_text v)"
proof (cases "load_or_create_signing_key L g key_file (disk w)")
  case (Pair d k)
  show ?thesis
  proof (cases k)
    case (Ok sk)
    let ?go = "and_then (client_auth L sk) (\<lambda>_.
      and_then (send EXEC_SHELL (json_write L (exec_json shell))) (\<lambda>_. client_loop L))"
    let ?u = "w\<lparr>disk := d, link := codec_new s\<rparr>"
    have "w\<lparr>disk := d, link := codec_new (feed bs e s)\<rparr> = feed_world bs e ?u"
      by (simp add: feed_world_def feed_codec_def codec_new_def)
    then have go: "?go ?u = (v, r)" "?go (feed_world bs e ?u) = (v', r')"
      using assms Pair Ok
      by (simp_all add: client_session_def and_then_def [of "act_err _ _"] and_then_def [of "use_link _"]
          act_err_def on_disk_def use_link_def)
    have "acausal bs e ?go" by (intro acausal_intros)
    note c = cli.causalD [OF this go(1), unfolded go(2)]
    from c(2,3) show ?thesis by (auto simp: shown_def said_def is_ok_iff feed_world_def)
  qed (use assms Pair in \<open>auto simp: client_session_def and_then_def act_err_def on_disk_def\<close>)
qed

text \<open>
  C22. The client is causal as well. What a client session has sent and printed when its input was cut at any
  point is a beginning of what it sends and prints when the server's bytes go on; and a session that has
  ended with a status ends with the same status and the same output whatever else the server sends.
\<close>

theorem client_causal:
  assumes "client_session L g s key_file shell w = (v, r)"
    and "client_session L g (feed bs e s) key_file shell w = (v', r')"
  shows "prefix (sent (inner (link v))) (sent (inner (link v'))) \<and>
    prefix (out_text v) (out_text v') \<and> prefix (err_text v) (err_text v') \<and>
    (is_ok r \<longrightarrow> r' = r \<and> out_text v' = out_text v \<and> err_text v' = err_text v)"
  using assms by (rule client_feed)

end
