(* ===== verification/Server.thy ===== *)
theory Server
  imports Tls_Util Session
begin

text \<open>
  The server program (\<open>sao-server/src/main.rs\<close>): starting up, the two accept loops and the command line.

  What the operating system does is an argument: the result of the \<open>n\<close>-th \<open>bind\<close>, and a list of events.
  Here each connection is a single event: it comes with the result of the TLS handshake, with all the bytes
  that will ever arrive on it and with what the session on it will meet, and the state records what each
  session was given. That the real program, in which the handshakes and sessions are tasks that run
  interleaved while their input arrives in portions, does the same for every connection is not assumed but
  proved: see \<open>Session_Tasks\<close> and \<open>Server_Tasks\<close> (\<open>tasks_refine_sessions\<close>).
\<close>

section \<open>Starting\<close>

definition plain_bound :: "(nat \<Rightarrow> str \<Rightarrow> io_error + unit) \<Rightarrow> server_config \<Rightarrow> bool" where
  "plain_bound bind_addr cfg =
     (if allow_insecure_plain cfg
      then case insecure_plain_listen cfg of
          None \<Rightarrow> False
        | Some addr \<Rightarrow> (case bind_addr 1 addr of Inl _ \<Rightarrow> False | Inr _ \<Rightarrow> True)
      else False)"

definition server_start ::
    "('vk, 'sk) lib \<Rightarrow> (str \<Rightarrow> str + server_config) \<Rightarrow>
     (tls_config \<Rightarrow> fs \<Rightarrow> fs \<times> (core_error, 'cfg) res) \<Rightarrow> (nat \<Rightarrow> str \<Rightarrow> io_error + unit) \<Rightarrow> path \<Rightarrow> fs \<Rightarrow>
     fs \<times> (boxed_error, server_config \<times> 'cfg \<times> bool) res" where
  "server_start L yaml_read tls_setup bind_addr config_path w =
     (case (if fs_exists w config_path then map_err BoxCore (server_config_load yaml_read w config_path)
            else Ok server_config_default) of
        Err e \<Rightarrow> (w, Err e)
      | Panic \<Rightarrow> (w, Panic)
      | Ok cfg \<Rightarrow>
          (case tls_setup (tls cfg) w of
             (w1, Err e) \<Rightarrow> (w1, Err (BoxCore e))
           | (w1, Panic) \<Rightarrow> (w1, Panic)
           | (w1, Ok acceptor) \<Rightarrow>
               (case bind_addr 0 (listen cfg) of
                  Inl e \<Rightarrow> (w1, Err (BoxIo e))
                | Inr _ \<Rightarrow> (w1, Ok (cfg, acceptor, plain_bound bind_addr cfg)))))"

section \<open>Accepting connections\<close>

datatype event =
    TlsAccepted "str + stream" session_env
  | TlsAcceptFailed io_error
  | PlainAccepted stream session_env
  | PlainAcceptFailed io_error
  | FilesChanged fs

record served =
  over_tls :: bool
  at_disk :: fs
  met :: session_env
  conn :: stream

text \<open>\<open>stopped\<close> is the error that ended the main loop, and with it the process.\<close>

record server =
  server_disk :: fs
  plain_open :: bool
  stopped :: "boxed_error option"
  sessions :: "served list"

definition server_init :: "fs \<Rightarrow> bool \<Rightarrow> server" where
  "server_init w plain = \<lparr>server_disk = w, plain_open = plain, stopped = None, sessions = []\<rparr>"

text \<open>A failed handshake is logged, a failed accept on the plain listener is tried again.\<close>

fun react :: "event \<Rightarrow> server \<Rightarrow> server" where
  "react (TlsAccepted (Inl e) env) srv = srv"
| "react (TlsAccepted (Inr s) env) srv =
     srv\<lparr>sessions := sessions srv @ [\<lparr>over_tls = True, at_disk = server_disk srv, met = env, conn = s\<rparr>]\<rparr>"
| "react (TlsAcceptFailed e) srv = srv\<lparr>stopped := Some (BoxIo e)\<rparr>"
| "react (PlainAccepted s env) srv =
     (if plain_open srv
      then srv\<lparr>sessions := sessions srv @ [\<lparr>over_tls = False, at_disk = server_disk srv, met = env, conn = s\<rparr>]\<rparr>
      else srv)"
| "react (PlainAcceptFailed e) srv = srv"
| "react (FilesChanged w) srv = srv\<lparr>server_disk := w\<rparr>"

fun serve :: "event list \<Rightarrow> server \<Rightarrow> server" where
  "serve [] srv = srv"
| "serve (ev # evs) srv = (if stopped srv = None then serve evs (react ev srv) else srv)"

definition outcome ::
    "('vk, 'sk) lib \<Rightarrow> server_config \<Rightarrow> served \<Rightarrow> codec \<times> action list \<times> (boxed_error, unit) res" where
  "outcome L cfg s = run_session L (at_disk s) cfg (met s) (codec_new (conn s))"

definition run_server ::
    "('vk, 'sk) lib \<Rightarrow> (str \<Rightarrow> str + server_config) \<Rightarrow>
     (tls_config \<Rightarrow> fs \<Rightarrow> fs \<times> (core_error, 'cfg) res) \<Rightarrow> (nat \<Rightarrow> str \<Rightarrow> io_error + unit) \<Rightarrow> path \<Rightarrow>
     event list \<Rightarrow> fs \<Rightarrow> fs \<times> (boxed_error, server_config \<times> server) res" where
  "run_server L yaml_read tls_setup bind_addr config_path evs w =
     (case server_start L yaml_read tls_setup bind_addr config_path w of
        (w1, Err e) \<Rightarrow> (w1, Err e)
      | (w1, Panic) \<Rightarrow> (w1, Panic)
      | (w1, Ok (cfg, acceptor, plain)) \<Rightarrow> (w1, Ok (cfg, serve evs (server_init w1 plain))))"

section \<open>Command line\<close>

datatype server_cmd = Init path bool

record server_cli =
  subcommand :: "server_cmd option"
  config_arg :: path

text \<open>The libraries that the two commands use, and what they give the program: a state or a text.\<close>

datatype server_result = Initialized str | Served server_config server

definition server_main ::
    "('vk, 'sk) lib \<Rightarrow> str + (str \<times> str) \<Rightarrow> (str \<Rightarrow> str + server_config) \<Rightarrow> (server_config \<Rightarrow> str + str) \<Rightarrow>
     (str \<times> io_error option \<Rightarrow> (io_error + 'cert) list) \<Rightarrow> (str \<times> io_error option \<Rightarrow> (io_error + 'key) list) \<Rightarrow>
     ('cert list \<Rightarrow> 'key \<Rightarrow> str + 'cfg) \<Rightarrow> (nat \<Rightarrow> str \<Rightarrow> io_error + unit) \<Rightarrow> event list \<Rightarrow> server_cli \<Rightarrow> fs \<Rightarrow>
     fs \<times> (boxed_error, server_result) res" where
  "server_main L gen yaml_read yaml_write pem_certs pem_keys single_cert bind_addr evs cli w =
     (case subcommand cli of
        Some (Init config force) \<Rightarrow>
          (case cmd_init L gen yaml_write config force w of (w1, r) \<Rightarrow> (w1, map_ok Initialized r))
      | None \<Rightarrow>
          (case run_server L yaml_read (rustls_server_config L gen pem_certs pem_keys single_cert) bind_addr
              (config_arg cli) evs w of
             (w1, r) \<Rightarrow> (w1, map_ok (\<lambda>(cfg, srv). Served cfg srv) r)))"

end
