(* ===== verification/Session_Tasks.thy ===== *)
theory Session_Tasks
  imports Causality Server
begin

text \<open>
  A session as a task of its own. The runtime runs it from one await on its input to the next one; in
  between, other tasks run. This theory cuts \<open>run_session\<close> (\<open>sao-server/src/session.rs\<close>) at the reads of
  frames, and shows that the pieces, run in order while the input arrives in any portions, do what
  \<open>run_session\<close> does on the whole input. A turn of the loop includes the whole run of a command, which awaits
  too (\<open>Exec_Steps\<close> has its steps): a command that takes long is a task that does not get its turn.
\<close>

section \<open>The pieces\<close>

text \<open>From the start to the first await of a frame.\<close>

definition session_hello ::
    "('vk, 'sk) lib \<Rightarrow> fs \<Rightarrow> server_config \<Rightarrow> session_env \<Rightarrow> codec \<Rightarrow>
     codec \<times> (boxed_error, 'vk authorized_key list) res" where
  "session_hello L w cfg env c =
     (case map_err (\<lambda>e. BoxMsg (''authorized_keys: '' @ core_error_display e))
             (load_authorized_keys L w (authorized_keys_path cfg)) of
        Err e \<Rightarrow> (c, Err e)
      | Panic \<Rightarrow> (c, Panic)
      | Ok keys \<Rightarrow>
          (case send_json L AUTH_CHALLENGE (challenge_json L (nonce env) (session_id env)) c of
             (c1, r) \<Rightarrow> (c1, map_ok (\<lambda>_. keys) r)))"

text \<open>The first frame has arrived; \<open>Ok False\<close> is an early return, \<open>Ok True\<close> goes on to the loop.\<close>

definition session_judge ::
    "('vk, 'sk) lib \<Rightarrow> server_config \<Rightarrow> session_env \<Rightarrow> 'vk authorized_key list \<Rightarrow> frame \<Rightarrow> codec \<Rightarrow>
     codec \<times> (boxed_error, bool) res" where
  "session_judge L cfg env keys resp c =
     (if msg_type resp \<noteq> AUTH_RESPONSE
      then (case send_error L ''EXPECTED_AUTH_RESPONSE'' ''expected AuthResponse'' c of
              (c1, r) \<Rightarrow> (c1, map_ok (\<lambda>_. False) r))
      else case from_slice L de_auth_response (payload resp) of
        None \<Rightarrow> (c, Err BoxJson)
      | Some ar \<Rightarrow>
          if ar_key_type ar \<noteq> KEY_TYPE_ED25519
          then (case send_auth_fail L ''UNSUPPORTED_KEY_TYPE'' ''only sao-ed25519'' c of
                  (c1, r) \<Rightarrow> (c1, map_ok (\<lambda>_. False) r))
          else case find_key L keys (ar_fingerprint ar) of
            None \<Rightarrow>
              (case send_auth_fail L ''UNKNOWN_KEY'' ''fingerprint not in authorized_keys'' c of
                 (c1, r) \<Rightarrow> (c1, map_ok (\<lambda>_. False) r))
          | Some entry \<Rightarrow>
              (case verify_ed25519_signature L (vk_of entry) (signing_bytes (nonce env) (session_id env)) (ar_signature ar) of
                 Err e \<Rightarrow>
                   (case send_auth_fail L ''BAD_SIGNATURE'' (core_error_display e) c of
                      (c1, r) \<Rightarrow> (c1, map_ok (\<lambda>_. False) r))
               | Panic \<Rightarrow> (c, Panic)
               | Ok _ \<Rightarrow>
                   (case send_json L AUTH_RESULT (auth_ok_json (if comment entry = [] then None else Some (comment entry))
                       (case policy_group_by_fingerprint cfg (to_lowercase (uni_lower L) (fingerprint_hex entry)) of
                          None \<Rightarrow> policy_group_default cfg | Some g \<Rightarrow> g)) c of
                      (c1, r) \<Rightarrow> (c1, map_ok (\<lambda>_. True) r))))"

text \<open>A frame of the loop has arrived; \<open>Ok True\<close> goes on with the next iteration.\<close>

definition exec_turn ::
    "('vk, 'sk) lib \<Rightarrow> server_config \<Rightarrow> exec_run \<Rightarrow> frame \<Rightarrow> codec \<Rightarrow>
     codec \<times> action list \<times> (boxed_error, bool) res" where
  "exec_turn L cfg run f c =
     (if msg_type f = EXEC_SHELL
      then (case from_slice L de_exec_shell (payload f) of
          None \<Rightarrow> (c, [], Err BoxJson)
        | Some shell \<Rightarrow> (case run_one_exec L cfg run shell c of (c1, acts, r) \<Rightarrow> (c1, acts, map_ok (\<lambda>_. True) r)))
      else (case send_error L ''UNKNOWN_MSG_TYPE'' ''only ExecShell allowed after auth'' c of
              (c1, r) \<Rightarrow> (c1, [], map_ok (\<lambda>_. False) r)))"

section \<open>The task\<close>

datatype 'vk stage =
    Starting
  | Authenticating "'vk authorized_key list"
  | Looping nat
  | Finished "(boxed_error, unit) res"

text \<open>
  \<open>line\<close> holds the bytes that have arrived and are not read yet; \<open>hung_up\<close> says that no more will come.
  \<open>who\<close> is a record of what the session was given: the files as they were when it began, and its
  connection with all the bytes that have arrived so far.
\<close>

record 'vk session_task =
  who :: served
  stage :: "'vk stage"
  line :: codec
  performed :: "action list"
  hung_up :: bool

definition spawn_session :: "bool \<Rightarrow> session_env \<Rightarrow> stream \<Rightarrow> fs \<Rightarrow> 'vk session_task" where
  "spawn_session tls_used env s w =
     \<lparr>who = \<lparr>over_tls = tls_used, at_disk = w, met = env, conn = s\<rparr>, stage = Starting, line = codec_new s,
      performed = [], hung_up = False\<rparr>"

text \<open>A read has to wait when the bytes that are there are only the beginning of a frame.\<close>

definition waits :: "'vk session_task \<Rightarrow> bool" where
  "waits t \<longleftrightarrow> stage t \<noteq> Starting \<and> \<not> hung_up t \<and> snd (read_frame (line t)) = Err UnexpectedEof"

fun stage_after :: "(boxed_error, bool) res \<Rightarrow> 'vk stage \<Rightarrow> 'vk stage" where
  "stage_after (Ok True) next_stage = next_stage"
| "stage_after (Ok False) next_stage = Finished (Ok ())"
| "stage_after (Err e) next_stage = Finished (Err e)"
| "stage_after Panic next_stage = Finished Panic"

text \<open>One turn of the task, when the runtime runs it and it does not have to wait.\<close>

definition advance :: "('vk, 'sk) lib \<Rightarrow> server_config \<Rightarrow> fs \<Rightarrow> 'vk session_task \<Rightarrow> 'vk session_task" where
  "advance L cfg w t =
     (case stage t of
        Starting \<Rightarrow>
          (case session_hello L w cfg (met (who t)) (line t) of
             (c, r) \<Rightarrow> t\<lparr>who := (who t)\<lparr>at_disk := w\<rparr>, line := c,
                stage := (case r of Ok keys \<Rightarrow> Authenticating keys | Err e \<Rightarrow> Finished (Err e) | Panic \<Rightarrow> Finished Panic)\<rparr>)
      | Authenticating keys \<Rightarrow>
          (case read_frame (line t) of
             (c, Ok resp) \<Rightarrow>
               (case session_judge L cfg (met (who t)) keys resp c of
                  (c1, r) \<Rightarrow> t\<lparr>line := c1, stage := stage_after r (Looping 0)\<rparr>)
           | (c, Err e) \<Rightarrow> t\<lparr>line := c, stage := Finished (Err (BoxProtocol e))\<rparr>
           | (c, Panic) \<Rightarrow> t\<lparr>line := c, stage := Finished Panic\<rparr>)
      | Looping i \<Rightarrow>
          (case read_frame (line t) of
             (c, Ok f) \<Rightarrow>
               (case exec_turn L cfg (runs (met (who t)) i) f c of
                  (c1, acts, r) \<Rightarrow> t\<lparr>line := c1, performed := performed t @ acts, stage := stage_after r (Looping (Suc i))\<rparr>)
           | (c, Err e) \<Rightarrow>
               t\<lparr>line := c, stage := Finished (if e = UnexpectedEof then Ok () else Err (BoxProtocol e))\<rparr>
           | (c, Panic) \<Rightarrow> t\<lparr>line := c, stage := Finished Panic\<rparr>)
      | Finished r \<Rightarrow> t)"

text \<open>More input, and the end of it.\<close>

definition arrive :: "bytes \<Rightarrow> io_error option \<Rightarrow> 'vk session_task \<Rightarrow> 'vk session_task" where
  "arrive b e t = t\<lparr>line := feed_codec b e (line t), who := (who t)\<lparr>conn := feed b e (conn (who t))\<rparr>\<rparr>"

definition hang_up :: "io_error option \<Rightarrow> 'vk session_task \<Rightarrow> 'vk session_task" where
  "hang_up e t = (arrive [] e t)\<lparr>hung_up := True\<rparr>"

section \<open>The pieces make up the session\<close>

text \<open>The session from the first await on.\<close>

definition auth_rest ::
    "('vk, 'sk) lib \<Rightarrow> server_config \<Rightarrow> session_env \<Rightarrow> 'vk authorized_key list \<Rightarrow> codec \<Rightarrow>
     codec \<times> action list \<times> (boxed_error, unit) res" where
  "auth_rest L cfg env keys c1 =
     (case read_frame c1 of
        (c2, Err e) \<Rightarrow> (c2, [], Err (BoxProtocol e))
      | (c2, Panic) \<Rightarrow> (c2, [], Panic)
      | (c2, Ok resp) \<Rightarrow>
          (case session_judge L cfg env keys resp c2 of
             (c3, Err e) \<Rightarrow> (c3, [], Err e)
           | (c3, Panic) \<Rightarrow> (c3, [], Panic)
           | (c3, Ok go_on) \<Rightarrow> if go_on then exec_loop L cfg (runs env) 0 c3 else (c3, [], Ok ())))"

lemma map_ok_map_ok [simp]: "map_ok f (map_ok g r) = map_ok (\<lambda>a. f (g a)) r"
  by (cases r) simp_all

text \<open>The rest of \<open>session_auth\<close> decides as \<open>session_judge\<close> does.\<close>

lemma session_auth_judges:
  assumes "load_authorized_keys L w (authorized_keys_path cfg) = Ok keys"
    and "send_json L AUTH_CHALLENGE (challenge_json L (nonce env) (session_id env)) c = (c1, Ok u)"
    and "read_frame c1 = (c2, Ok resp)"
  shows "\<exists>entry. session_auth L w cfg env c = (fst (session_judge L cfg env keys resp c2),
    map_ok (\<lambda>go_on. if go_on then Some entry else None) (snd (session_judge L cfg env keys resp c2)))"
proof -
  note a = assms session_auth_def session_judge_def
  show ?thesis
  proof (cases "msg_type resp = AUTH_RESPONSE")
    case t: True
    show ?thesis
    proof (cases "from_slice L de_auth_response (payload resp)")
      case ar: (Some ar)
      show ?thesis
      proof (cases "ar_key_type ar = KEY_TYPE_ED25519 \<and> find_key L keys (ar_fingerprint ar) \<noteq> None")
        case True
        then obtain entry where "ar_key_type ar = KEY_TYPE_ED25519" "find_key L keys (ar_fingerprint ar) = Some entry"
          by blast
        with t ar show ?thesis
          by (intro exI [of _ entry],
              cases "verify_ed25519_signature L (vk_of entry) (signing_bytes (nonce env) (session_id env)) (ar_signature ar)")
             (simp_all add: a Let_def case_prod_unfold)
      qed (use t ar in \<open>auto simp: a Let_def case_prod_unfold\<close>)
    qed (use t in \<open>simp add: a\<close>)
  qed (simp add: a case_prod_unfold)
qed

lemma run_session_pieces:
  "run_session L w cfg env c =
     (case session_hello L w cfg env c of
        (c1, Err e) \<Rightarrow> (c1, [], Err e)
      | (c1, Panic) \<Rightarrow> (c1, [], Panic)
      | (c1, Ok keys) \<Rightarrow> auth_rest L cfg env keys c1)"
proof (cases "load_authorized_keys L w (authorized_keys_path cfg)")
  case (Ok keys)
  obtain c1 r where 1: "send_json L AUTH_CHALLENGE (challenge_json L (nonce env) (session_id env)) c = (c1, r)" by fastforce
  obtain c2 x where 2: "read_frame c1 = (c2, x)" by fastforce
  show ?thesis
  proof (cases "\<exists>u resp. r = Ok u \<and> x = Ok resp")
    case True
    then obtain u resp where "r = Ok u" "x = Ok resp" by blast
    with Ok 1 2 have h: "session_hello L w cfg env c = (c1, Ok keys)" "read_frame c1 = (c2, Ok resp)"
      by (simp_all add: session_hello_def)
    have "run_session L w cfg env c = (case session_judge L cfg env keys resp c2 of
        (c3, Err e) \<Rightarrow> (c3, [], Err e)
      | (c3, Panic) \<Rightarrow> (c3, [], Panic)
      | (c3, Ok go_on) \<Rightarrow> if go_on then exec_loop L cfg (runs env) 0 c3 else (c3, [], Ok ()))"
      using session_auth_judges [OF Ok 1 [unfolded \<open>r = Ok u\<close>] 2 [unfolded \<open>x = Ok resp\<close>]]
      by (auto simp: run_session_def case_prod_unfold split: res.split)
    with h show ?thesis by (simp add: auth_rest_def)
  qed (use Ok 1 2 in \<open>cases r; cases x; simp add: run_session_def session_auth_def session_hello_def auth_rest_def\<close>)
qed (simp_all add: run_session_def session_auth_def session_hello_def)

lemma exec_loop_pieces:
  "exec_loop L cfg rs i c =
     (case read_frame c of
        (c1, Err e) \<Rightarrow> (c1, [], if e = UnexpectedEof then Ok () else Err (BoxProtocol e))
      | (c1, Panic) \<Rightarrow> (c1, [], Panic)
      | (c1, Ok f) \<Rightarrow>
          (case exec_turn L cfg (rs i) f c1 of
             (c2, acts, Err e) \<Rightarrow> (c2, acts, Err e)
           | (c2, acts, Panic) \<Rightarrow> (c2, acts, Panic)
           | (c2, acts, Ok go_on) \<Rightarrow>
               if go_on then (case exec_loop L cfg rs (Suc i) c2 of (c3, acts', r) \<Rightarrow> (c3, acts @ acts', r))
               else (c2, acts, Ok ())))"
proof -
  obtain c1 x where r: "read_frame c = (c1, x)" by fastforce
  note unfold = exec_loop.simps [of L cfg rs i c] r
  show ?thesis
  proof (cases x)
    case f: (Ok f)
    show ?thesis
    proof (cases "msg_type f = EXEC_SHELL")
      case True
      show ?thesis
      proof (cases "from_slice L de_exec_shell (payload f)")
        case None
        with True f show ?thesis by (simp only: unfold) (simp add: exec_turn_def)
      next
        case (Some shell)
        obtain c2 acts y where "run_one_exec L cfg (rs i) shell c1 = (c2, acts, y)" using prod_cases3 by blast
        with True f Some show ?thesis by (simp only: unfold) (cases y; simp add: exec_turn_def)
      qed
    next
      case False
      obtain c2 y where "send_error L ''UNKNOWN_MSG_TYPE'' ''only ExecShell allowed after auth'' c1 = (c2, y)" by fastforce
      with False f show ?thesis by (simp only: unfold) (cases y; simp add: exec_turn_def)
    qed
  qed (simp_all add: unfold)
qed

section \<open>Input in portions\<close>

text \<open>An error that is not the end of the input so far stays the same when more arrives.\<close>

lemma read_frame_feed_Err:
  assumes "inp_end (inner c) = None" and "read_frame c = (c', Err x)" and "x \<noteq> UnexpectedEof"
  shows "read_frame (feed_codec b e c) = (feed_codec b e c', Err x)"
proof -
  have early: "read_error (IoError UnexpectedEof_kind m) = UnexpectedEof" for m by (simp add: read_error_def)
  show ?thesis
  proof (cases "HEADER_LEN \<le> length (inp (inner c))")
    case True
    then have h: "read_exact HEADER_LEN (inner c) =
        ((inner c)\<lparr>inp := drop HEADER_LEN (inp (inner c))\<rparr>, Inr (take HEADER_LEN (inp (inner c))))"
      "read_exact HEADER_LEN (feed b e (inner c)) =
        (feed b e ((inner c)\<lparr>inp := drop HEADER_LEN (inp (inner c))\<rparr>), Inr (take HEADER_LEN (inp (inner c))))"
      by (simp_all add: read_exact_def feed_def)
    show ?thesis
    proof (cases "parse_header (take HEADER_LEN (inp (inner c)))")
      case (Ok v)
      with h assms early show ?thesis
        by (cases v) (auto simp: read_frame_def read_exact_def feed_codec_def split: if_splits)
    qed (use h assms in \<open>auto simp: read_frame_def feed_codec_def\<close>)
  qed (use assms early in \<open>auto simp: read_frame_def read_exact_def\<close>)
qed

lemma session_hello_feed:
  "session_hello L w cfg env (feed_codec b e c) =
    (feed_codec b e (fst (session_hello L w cfg env c)), snd (session_hello L w cfg env c))"
  by (simp add: session_hello_def send_json_feed case_prod_unfold split: res.split)

lemma session_judge_feed:
  "session_judge L cfg env keys resp (feed_codec b e c) =
    (feed_codec b e (fst (session_judge L cfg env keys resp c)), snd (session_judge L cfg env keys resp c))"
  by (simp add: session_judge_def send_error_def send_auth_fail_def send_json_feed case_prod_unfold
      split: res.split option.split)

lemma exec_turn_feed:
  "exec_turn L cfg run f (feed_codec b e c) =
    (feed_codec b e (fst (exec_turn L cfg run f c)), snd (exec_turn L cfg run f c))"
  by (simp add: exec_turn_def send_error_def send_json_feed run_one_exec_feed case_prod_unfold split: option.split)

lemma arrive_simps [simp]:
  "stage (arrive b e t) = stage t" "performed (arrive b e t) = performed t" "hung_up (arrive b e t) = hung_up t"
  "line (arrive b e t) = feed_codec b e (line t)" "over_tls (who (arrive b e t)) = over_tls (who t)"
  "met (who (arrive b e t)) = met (who t)" "at_disk (who (arrive b e t)) = at_disk (who t)"
  "conn (who (arrive b e t)) = feed b e (conn (who t))"
  by (simp_all add: arrive_def)


section \<open>What is left to do\<close>

text \<open>
  What the task would end with if no more input came: the state of its connection, everything that it has
  performed, and its result.
\<close>

definition rest_of ::
    "('vk, 'sk) lib \<Rightarrow> server_config \<Rightarrow> 'vk session_task \<Rightarrow> codec \<times> action list \<times> (boxed_error, unit) res" where
  "rest_of L cfg t =
     (case stage t of
        Starting \<Rightarrow> outcome L cfg (who t)
      | Authenticating keys \<Rightarrow> auth_rest L cfg (met (who t)) keys (line t)
      | Looping i \<Rightarrow>
          (case exec_loop L cfg (runs (met (who t))) i (line t) of (c, acts, r) \<Rightarrow> (c, performed t @ acts, r))
      | Finished r \<Rightarrow> (line t, performed t, r))"

text \<open>The input of a task may still go on as long as the peer has not hung up.\<close>

definition continues :: "bytes \<Rightarrow> io_error option \<Rightarrow> 'vk session_task \<Rightarrow> bool" where
  "continues b e t \<longleftrightarrow> (hung_up t \<longrightarrow> b = [] \<and> e = inp_end (inner (line t)))"

definition tidy :: "'vk session_task \<Rightarrow> bool" where
  "tidy t \<longleftrightarrow> (hung_up t \<or> inp_end (inner (line t)) = None) \<and>
     inp_end (conn (who t)) = inp_end (inner (line t)) \<and>
     (stage t = Starting \<longrightarrow> line t = codec_new (conn (who t))) \<and>
     (stage t = Starting \<or> (\<exists>keys. stage t = Authenticating keys) \<longrightarrow> performed t = [])"

text \<open>Whatever comes next, the task is on the way to what the session does with all of it.\<close>

definition on_course :: "('vk, 'sk) lib \<Rightarrow> server_config \<Rightarrow> 'vk session_task \<Rightarrow> bool" where
  "on_course L cfg t \<longleftrightarrow> tidy t \<and> (stage t \<noteq> Starting \<longrightarrow>
     (\<forall>b e. continues b e t \<longrightarrow> rest_of L cfg (arrive b e t) = outcome L cfg (who (arrive b e t))))"

lemma feed_codec_nothing [simp]:
  "feed_codec [] (inp_end (inner c)) c = c" "feed [] (inp_end s) s = s"
  by (simp_all add: feed_codec_def feed_def)

lemma feed_codec_more [simp]:
  "feed_codec b' e' (feed_codec b e c) = feed_codec (b @ b') e' c" "feed b' e' (feed b e s) = feed (b @ b') e' s"
  by (simp_all add: feed_codec_def feed_def)

lemma read_frame_no_Panic: "read_frame c \<noteq> (c', Panic)"
  by (auto simp: read_frame_def read_exact_def parse_header_def Let_def
      split: prod.splits sum.splits res.splits if_splits option.splits)

lemma read_frame_keeps_end: "read_frame c = (c', x) \<Longrightarrow> inp_end (inner c') = inp_end (inner c)"
  by (auto simp: read_frame_def read_exact_def Let_def
      split: prod.splits sum.splits res.splits if_splits option.splits)

lemma session_hello_rest:
  "session_hello L w cfg env c = (c', x) \<Longrightarrow> inp (inner c') = inp (inner c) \<and> inp_end (inner c') = inp_end (inner c)"
  by (auto simp: session_hello_def dest!: send_json_rest split: prod.splits res.splits)

lemma session_judge_rest:
  "session_judge L cfg env keys resp c = (c', x) \<Longrightarrow>
   inp (inner c') = inp (inner c) \<and> inp_end (inner c') = inp_end (inner c)"
  by (auto simp: session_judge_def send_error_def send_auth_fail_def dest!: send_json_rest
      split: prod.splits res.splits if_splits option.splits)

lemma session_judge_said: "session_judge L cfg env keys resp c = (c', x) \<Longrightarrow> said c c'"
  by (auto simp: session_judge_def send_error_def send_auth_fail_def dest!: send_json_said
      split: prod.splits res.splits if_splits option.splits)

lemma exec_turn_rest:
  "exec_turn L cfg run f c = (c', acts, x) \<Longrightarrow>
   inp (inner c') = inp (inner c) \<and> inp_end (inner c') = inp_end (inner c)"
  by (auto simp: exec_turn_def send_error_def dest!: send_json_rest run_one_exec_rest
      split: prod.splits if_splits option.splits)

text \<open>A read that need not wait gives the same with everything that is still to come.\<close>

lemma read_ready:
  assumes "tidy t" and "stage t \<noteq> Starting" and "\<not> waits t" and "continues b e t" and "read_frame (line t) = (c, x)"
  shows "read_frame (feed_codec b e (line t)) = (feed_codec b e c, x)"
proof (cases "hung_up t")
  case True
  with assms(4) have "b = []" "e = inp_end (inner (line t))" by (simp_all add: continues_def)
  with read_frame_keeps_end [OF assms(5)] assms(5) feed_codec_nothing(1) [of c] show ?thesis by simp
next
  case False
  with assms have "inp_end (inner (line t)) = None" "x \<noteq> Err UnexpectedEof" by (auto simp: tidy_def waits_def)
  with assms(5) read_frame_no_Panic read_frame_feed read_frame_feed_Err show ?thesis by (cases x) auto
qed


section \<open>The turns of a task\<close>

lemma advance_cases [consumes 1]:
  assumes "advance L cfg w t = t'"
  obtains (hello) c x where "stage t = Starting" "session_hello L w cfg (met (who t)) (line t) = (c, x)"
      "t' = t\<lparr>who := (who t)\<lparr>at_disk := w\<rparr>, line := c,
        stage := (case x of Ok keys \<Rightarrow> Authenticating keys | Err e \<Rightarrow> Finished (Err e) | Panic \<Rightarrow> Finished Panic)\<rparr>"
  | (deaf) keys c e where "stage t = Authenticating keys" "read_frame (line t) = (c, Err e)"
      "t' = t\<lparr>line := c, stage := Finished (Err (BoxProtocol e))\<rparr>"
  | (judge) keys c resp c1 x where "stage t = Authenticating keys" "read_frame (line t) = (c, Ok resp)"
      "session_judge L cfg (met (who t)) keys resp c = (c1, x)"
      "t' = t\<lparr>line := c1, stage := stage_after x (Looping 0)\<rparr>"
  | (left) i c e where "stage t = Looping i" "read_frame (line t) = (c, Err e)"
      "t' = t\<lparr>line := c, stage := Finished (if e = UnexpectedEof then Ok () else Err (BoxProtocol e))\<rparr>"
  | (turn) i c f c1 acts x where "stage t = Looping i" "read_frame (line t) = (c, Ok f)"
      "exec_turn L cfg (runs (met (who t)) i) f c = (c1, acts, x)"
      "t' = t\<lparr>line := c1, performed := performed t @ acts, stage := stage_after x (Looping (Suc i))\<rparr>"
  | (over) r where "stage t = Finished r" "t' = t"
proof (cases "stage t")
  case Starting
  obtain c x where "session_hello L w cfg (met (who t)) (line t) = (c, x)" by fastforce
  with Starting assms show ?thesis by (intro hello) (auto simp: advance_def)
next
  case (Authenticating keys)
  obtain c x where r: "read_frame (line t) = (c, x)" by fastforce
  show ?thesis
  proof (cases x)
    case (Ok resp)
    obtain c1 y where "session_judge L cfg (met (who t)) keys resp c = (c1, y)" by fastforce
    with Authenticating r Ok assms show ?thesis by (intro judge) (auto simp: advance_def)
  next
    case (Err e)
    with Authenticating r assms show ?thesis by (intro deaf) (auto simp: advance_def)
  qed (use r read_frame_no_Panic in auto)
next
  case (Looping i)
  obtain c x where r: "read_frame (line t) = (c, x)" by fastforce
  show ?thesis
  proof (cases x)
    case (Ok f)
    obtain c1 acts y where "exec_turn L cfg (runs (met (who t)) i) f c = (c1, acts, y)" using prod_cases3 by blast
    with Looping r Ok assms show ?thesis by (intro turn) (auto simp: advance_def)
  next
    case (Err e)
    with Looping r assms show ?thesis by (intro left) (auto simp: advance_def)
  qed (use r read_frame_no_Panic in auto)
next
  case (Finished r)
  with assms show ?thesis by (intro over) (auto simp: advance_def)
qed

lemma advance_keeps:
  assumes "advance L cfg w t = t'"
  shows "hung_up t' = hung_up t" and "conn (who t') = conn (who t)" and "met (who t') = met (who t)"
    and "over_tls (who t') = over_tls (who t)" and "stage t' \<noteq> Starting"
    and "inp_end (inner (line t')) = inp_end (inner (line t))"
proof -
  have "stage_after x (Looping i) \<noteq> Starting" for x i by (cases "(x, Looping i)" rule: stage_after.cases) auto
  note keep = this this [symmetric] session_hello_rest session_judge_rest exec_turn_rest read_frame_keeps_end
  show "hung_up t' = hung_up t" "conn (who t') = conn (who t)" "met (who t') = met (who t)"
    "over_tls (who t') = over_tls (who t)"
    using assms by (cases rule: advance_cases; simp)+
  show "stage t' \<noteq> Starting"
    using assms by (cases rule: advance_cases) (simp_all add: keep(1) split: res.split)
  show "inp_end (inner (line t')) = inp_end (inner (line t))"
    using assms by (cases rule: advance_cases) (auto dest!: keep(3-))
qed

lemma advance_continues: "continues b e (advance L cfg w t) = continues b e t"
  by (simp add: continues_def advance_keeps [OF refl])

lemma advance_tidy:
  assumes "tidy t" and "advance L cfg w t = t'"
  shows "tidy t'"
proof -
  have "stage_after x (Looping i) \<noteq> Authenticating keys" for x i keys
    by (cases "(x, Looping i)" rule: stage_after.cases) auto
  with assms(2) have "(\<exists>keys. stage t' = Authenticating keys) \<Longrightarrow> performed t' = performed t \<and> stage t \<noteq> Looping i" for i
    by (cases rule: advance_cases) (auto split: res.splits)
  moreover have "performed t = []" if "\<And>i. stage t \<noteq> Looping i" "\<And>r. stage t \<noteq> Finished r"
    using that assms(1) by (cases "stage t") (auto simp: tidy_def)
  moreover have "stage t' = stage t" if "stage t = Finished r" for r
    using assms(2) that by (simp add: advance_def)
  ultimately have "(\<exists>keys. stage t' = Authenticating keys) \<Longrightarrow> performed t' = []" by fastforce
  with assms(1) advance_keeps [OF assms(2)] show ?thesis by (auto simp: tidy_def)
qed

lemma codec_new_feed: "codec_new (feed b e s) = feed_codec b e (codec_new s)"
  by (simp add: codec_new_def feed_codec_def)

text \<open>A turn does not change what is left, once the task has begun.\<close>

lemma advance_rest:
  assumes "tidy t" and "stage t \<noteq> Starting" and "\<not> waits t" and "continues b e t" and "advance L cfg w t = t'"
  shows "rest_of L cfg (arrive b e t') = rest_of L cfg (arrive b e t)"
  using assms(5)
proof (cases rule: advance_cases)
  case (hello c x)
  with assms(2) show ?thesis by simp
next
  case (deaf keys c x)
  with read_ready [OF assms(1-4) deaf(2)] assms(1) show ?thesis
    by (simp add: rest_of_def auth_rest_def tidy_def)
next
  case (judge keys c resp c1 x)
  with read_ready [OF assms(1-4) judge(2)] session_judge_feed [of L cfg "met (who t)" keys resp b e c] assms(1)
  show ?thesis
    by (cases "(x, Looping 0 :: 'a stage)" rule: stage_after.cases) (simp_all add: rest_of_def auth_rest_def tidy_def)
next
  case (left i c x)
  with read_ready [OF assms(1-4) left(2)] show ?thesis
    by (simp add: rest_of_def exec_loop_pieces [of L cfg _ i])
next
  case (turn i c f c1 acts x)
  with read_ready [OF assms(1-4) turn(2)] exec_turn_feed [of L cfg "runs (met (who t)) i" f b e c]
  show ?thesis
    by (cases "(x, Looping (Suc i) :: 'a stage)" rule: stage_after.cases)
       (simp_all add: rest_of_def exec_loop_pieces [of L cfg _ i] split: prod.split)
qed simp

lemma advance_on_course:
  assumes "on_course L cfg t" and "\<not> waits t" and "advance L cfg w t = t'"
  shows "on_course L cfg t'"
proof -
  note tidy = assms(1) [unfolded on_course_def, THEN conjunct1]
  have "rest_of L cfg (arrive b e t') = outcome L cfg (who (arrive b e t'))" if "continues b e t'" for b e
  proof (cases "stage t = Starting")
    case True
    with tidy have "line t = codec_new (conn (who t))" "performed t = []" by (auto simp: tidy_def)
    from assms(3) True show ?thesis
    proof (cases rule: advance_cases)
      case (hello c x)
      with session_hello_feed [of L w cfg "met (who t)" b e "line t"] \<open>line t = _\<close> \<open>performed t = []\<close>
      show ?thesis
        by (cases x) (simp_all add: rest_of_def outcome_def codec_new_feed run_session_pieces)
    qed simp_all
  next
    case False
    have "continues b e t" using that assms(3) advance_continues by metis
    with advance_rest [OF tidy False assms(2) _ assms(3)] assms(1) False
    have "rest_of L cfg (arrive b e t') = outcome L cfg (who (arrive b e t))" by (simp add: on_course_def)
    moreover have "who t' = who t" using assms(3) False by (cases rule: advance_cases) simp_all
    ultimately show ?thesis by (simp add: arrive_def)
  qed
  with advance_tidy [OF tidy assms(3)] show ?thesis by (simp add: on_course_def)
qed

lemma spawn_on_course: "inp_end s = None \<Longrightarrow> on_course L cfg (spawn_session tls_used env s w)"
  by (simp add: on_course_def tidy_def spawn_session_def codec_new_def)

lemma arrive_more [simp]: "arrive b' e' (arrive b e t) = arrive (b @ b') e' t"
  by (simp add: arrive_def)

lemma arrive_on_course:
  assumes "on_course L cfg t" and "\<not> hung_up t"
  shows "on_course L cfg (arrive b None t)" and "on_course L cfg (hang_up e t)"
proof -
  have eq: "rest_of L cfg (t'\<lparr>hung_up := h\<rparr>) = rest_of L cfg t'"
    "arrive b' e' (t'\<lparr>hung_up := h\<rparr>) = (arrive b' e' t')\<lparr>hung_up := h\<rparr>" for t' h b' e'
    by (simp_all add: rest_of_def arrive_def split: stage.split)
  show "on_course L cfg (arrive b None t)" "on_course L cfg (hang_up e t)"
    using assms by (auto simp: on_course_def tidy_def continues_def hang_up_def codec_new_feed eq)
qed

section \<open>Nothing is taken back\<close>

lemma auth_rest_said: "auth_rest L cfg env keys c = (c', acts, r) \<Longrightarrow> said c c'"
  by (auto simp: auth_rest_def dest!: read_frame_said session_judge_said exec_loop_said
      split: prod.splits res.splits if_splits) (meson said_trans)+

text \<open>What the task has sent and performed so far is a beginning of what it will have in the end.\<close>

lemma rest_of_grows:
  assumes "tidy t" and "stage t \<noteq> Starting" and "rest_of L cfg (arrive b e t) = (c', acts, r)"
  shows "said (line t) c' \<and> prefix (performed t) acts"
proof (cases "stage t")
  case (Authenticating keys)
  with assms show ?thesis using auth_rest_said [of L cfg "met (who t)" keys "feed_codec b e (line t)" c' acts r]
    by (auto simp: rest_of_def tidy_def)
next
  case (Looping i)
  with assms(3) obtain acts' where "exec_loop L cfg (runs (met (who t))) i (feed_codec b e (line t)) = (c', acts', r)"
    "acts = performed t @ acts'" by (auto simp: rest_of_def split: prod.splits)
  with exec_loop_said show ?thesis by (metis prefixI said_feed(2))
qed (use assms in \<open>auto simp: rest_of_def\<close>)

section \<open>The end\<close>

text \<open>How many turns are enough for a task whose peer has hung up.\<close>

fun turns_left :: "'vk stage \<Rightarrow> nat \<Rightarrow> nat" where
  "turns_left Starting n = n + 3"
| "turns_left (Authenticating keys) n = n + 2"
| "turns_left (Looping i) n = n + 1"
| "turns_left (Finished r) n = 0"

abbreviation left :: "'vk session_task \<Rightarrow> nat" where
  "left t \<equiv> turns_left (stage t) (length (inp (inner (line t))))"

lemma left_0: "left t = 0 \<longleftrightarrow> (\<exists>r. stage t = Finished r)"
  by (cases "stage t") simp_all

lemma hung_up_runs: "hung_up t \<Longrightarrow> \<not> waits t"
  by (simp add: waits_def)

lemma turns_left_after: "turns_left (stage_after x (Looping i)) n \<le> Suc n"
  by (cases "(x, Looping i)" rule: stage_after.cases) simp_all

lemma advance_left:
  assumes "left t \<noteq> 0"
  shows "left (advance L cfg w t) < left t"
proof -
  define t' where "t' = advance L cfg w t"
  note shorter = wire.recv_shorter
  have "left t' < left t"
    using t'_def [symmetric]
  proof (cases rule: advance_cases)
    case (hello c x)
    with session_hello_rest [OF hello(2)] show ?thesis by (cases x) simp_all
  next
    case (judge keys c resp c1 x)
    then have "left t' \<le> Suc (length (inp (inner (line t'))))" by (simp add: turns_left_after)
    moreover have "length (inp (inner (line t'))) < length (inp (inner (line t)))"
      using session_judge_rest [OF judge(3)] shorter [OF judge(2)] judge by simp
    moreover have "Suc (length (inp (inner (line t)))) \<le> left t" using judge(1) by simp
    ultimately show ?thesis by linarith
  next
    case (turn i c f c1 acts x)
    then have "left t' \<le> Suc (length (inp (inner (line t'))))" by (simp add: turns_left_after)
    moreover have "length (inp (inner (line t'))) < length (inp (inner (line t)))"
      using exec_turn_rest [OF turn(3)] shorter [OF turn(2)] turn by simp
    moreover have "Suc (length (inp (inner (line t)))) \<le> left t" using turn(1) by simp
    ultimately show ?thesis by linarith
  next
    case (over r)
    with assms show ?thesis by simp
  qed simp_all
  then show ?thesis by (simp add: t'_def)
qed

lemma finished_outcome:
  assumes "on_course L cfg t" and "stage t = Finished r"
  shows "outcome L cfg (who t) = (line t, performed t, r)"
proof -
  have "continues [] (inp_end (inner (line t))) t" by (simp add: continues_def)
  moreover have "tidy t" using assms(1) by (simp add: on_course_def)
  moreover from this have "arrive [] (inp_end (inner (line t))) t = t"
    by (simp add: arrive_def tidy_def)
  ultimately show ?thesis using assms by (fastforce simp: on_course_def rest_of_def)
qed

end
