(* ===== verification/Demo_Session.thy ===== *)
theory Demo_Session
  imports Client_Props
begin

text \<open>
  A concrete session for the witnesses: one registered agent, a server with the development
  configuration, and one command that prints two bytes and ends with status 0.
\<close>

section \<open>The setting\<close>

definition demo_env :: session_env where
  "demo_env =
     \<lparr>nonce = replicate 32 5, session_id = ''s1'',
      runs = (\<lambda>_. \<lparr>spawned = Inr (Some 42), chunks = [ChunkOut [104, 105], ChunkErr [33]],
        ending = Exited (Inr (Some 0))\<rparr>)\<rparr>"

definition demo_sk :: u8 where
  "demo_sk = 7"

definition demo_stranger :: u8 where
  "demo_stranger = 9"

definition demo_docs :: "json list" where
  "demo_docs =
     [challenge_json (demo_lib []) (nonce demo_env) (session_id demo_env),
      response_json (ed25519_fingerprint_hex (demo_lib []) demo_sk)
        (sign_auth_message (demo_lib []) demo_sk (signing_bytes (nonce demo_env) (session_id demo_env))),
      auth_ok_json (Some ''agent'') ''default'', exec_json ''echo hi'',
      data_json (demo_lib []) [104, 105], data_json (demo_lib []) [33], exit_json 0,
      response_json (ed25519_fingerprint_hex (demo_lib []) demo_stranger)
        (sign_auth_message (demo_lib []) demo_stranger (signing_bytes (nonce demo_env) (session_id demo_env))),
      exec_json ''rm -rf /'', auth_fail_json ''UNKNOWN_KEY'' ''fingerprint not in authorized_keys'']"

definition session_lib :: "(u8, u8) lib" where
  "session_lib = demo_lib demo_docs"

text \<open>
  The development configuration with its list of agents at the demonstration path and a plaintext
  listener, and the server's files.
\<close>

definition demo_config :: server_config where
  "demo_config = local_dev_init\<lparr>authorized_keys_path := demo_keys_path, allow_insecure_plain := True,
     insecure_plain_listen := Some ''127.0.0.1:9000''\<rparr>"

definition demo_config_file :: path where
  "demo_config_file = \<lparr>rooted = True, comps = [''c'']\<rparr>"

definition demo_server_fs :: fs where
  "demo_server_fs =
     \<lparr>files = [demo_keys_path \<mapsto> public_body session_lib demo_sk, demo_config_file \<mapsto> ''doc''],
      dirs = (\<lambda>_. False), fault = (\<lambda>_. None)\<rparr>"

definition demo_entry :: "u8 authorized_key" where
  "demo_entry = agent_entry session_lib demo_sk"

lemma session_lib_simps [simp]:
  "b64_spec session_lib" "hex_spec session_lib" "sha_spec session_lib" "vk_spec session_lib"
  "sk_spec session_lib" "sign_spec session_lib" "verifying_key session_lib sk = sk"
  by (simp_all add: session_lib_def)

lemma demo_config_simps [simp]:
  "shell_argv demo_config = [''bash'', ''-lc'']" "authorized_keys_path demo_config = demo_keys_path"
  "deny_substrings (policy demo_config) = [''rm -rf /'']"
  by (simp_all add: demo_config_def local_dev_init_def init_for_dir_def default_shell_argv_def Let_def)

lemma demo_keys_text:
  "read_to_string demo_server_fs demo_keys_path = Ok (concat (map (public_body session_lib) [demo_sk]))"
proof -
  have "utf8_valid (public_body session_lib demo_sk)"
    by (intro ascii_utf8_valid) (simp add: public_body_ascii)
  then show ?thesis
    by (simp add: read_to_string_def demo_server_fs_def demo_keys_path_def demo_config_file_def)
qed

lemma demo_keys_load [simp]:
  "load_authorized_keys session_lib demo_server_fs demo_keys_path = Ok [demo_entry]"
  using agents_load [OF _ _ _ demo_keys_text] by (simp add: demo_entry_def)

section \<open>Its documents\<close>

lemma demo_reads:
  assumes "distinct (map demo_json docs)" and "j \<in> set docs"
  shows "json_reads (demo_lib docs) j"
proof -
  have "find (\<lambda>i. as_bytes (demo_json i) = as_bytes (demo_json j)) docs = Some j"
    using assms by (induction docs) (auto simp: image_iff)
  then show ?thesis by (simp add: json_reads_def demo_lib_def)
qed

lemma length_concat_hex [simp]: "length (concat (map hex_byte bs)) = 2 * length bs"
  by (induction bs) simp_all

lemma demo_fingerprints:
  "ed25519_fingerprint_hex (demo_lib []) demo_stranger \<noteq> ed25519_fingerprint_hex (demo_lib []) demo_sk"
proof -
  have "pad 32 (replicate 32 (9 :: u8)) \<noteq> pad 32 (replicate 32 7)" by (simp add: pad_eq_replicate)
  then show ?thesis
    by (auto simp: ed25519_fingerprint_hex_def demo_stranger_def demo_sk_def dest: concat_hex_inject)
qed

lemma demo_responses:
  assumes "fp \<noteq> fp'" and "length fp = length fp'"
  shows "demo_json (response_json fp sg) \<noteq> demo_json (response_json fp' sg')"
  using assms by (simp add: response_json_def)

lemma demo_docs_distinct: "distinct (map demo_json demo_docs)"
  using demo_responses [OF demo_fingerprints]
  by (simp add: demo_docs_def challenge_json_def response_json_def auth_ok_json_def exec_json_def
      data_json_def exit_json_def auth_fail_json_def ed25519_fingerprint_hex_def length_concat_hex)

lemma demo_docs_read: "\<forall>j \<in> set demo_docs. json_reads session_lib j"
  using demo_docs_distinct by (simp add: demo_reads session_lib_def)

lemma demo_fits: "fits (demo_lib d) j \<longleftrightarrow> length (demo_json j) \<le> 1048576"
  by (simp add: fits_def) (simp add: demo_lib_def)

lemma demo_docs_fit: "\<forall>j \<in> set demo_docs. fits session_lib j"
  by (simp add: demo_docs_def challenge_json_def response_json_def auth_ok_json_def exec_json_def
      data_json_def exit_json_def auth_fail_json_def demo_fits session_lib_def ed25519_fingerprint_hex_def
      sign_auth_message_def length_b64e KEY_TYPE_ED25519_def string_of_int_def string_of_nat_small
      demo_env_def)

section \<open>Its frames\<close>

definition demo_response :: frame where
  "demo_response = response_frame session_lib demo_sk (nonce demo_env) (session_id demo_env)"

definition demo_upstream :: bytes where
  "demo_upstream =
     frame_enc demo_response @ concat (map frame_enc (map (exec_request session_lib) [''echo hi'']))"

definition demo_conn :: codec where
  "demo_conn = codec_new (pipe_end demo_upstream)"

lemma demo_conn_simps [simp]:
  "good_link demo_conn" "inp (inner demo_conn) = demo_upstream" "inp_end (inner demo_conn) = None"
  "sent (inner demo_conn) = []"
  by (simp_all add: good_link_def demo_conn_def codec_limit_default) (simp_all add: codec_new_def)

text \<open>The encodings of the library instance do not depend on the documents it reads.\<close>

lemma session_lib_text:
  "ed25519_fingerprint_hex session_lib = ed25519_fingerprint_hex (demo_lib [])"
  "sign_auth_message session_lib = sign_auth_message (demo_lib [])"
  "challenge_json session_lib = challenge_json (demo_lib [])" "data_json session_lib = data_json (demo_lib [])"
  by (simp_all add: fun_eq_iff session_lib_def ed25519_fingerprint_hex_def sign_auth_message_def
      challenge_json_def data_json_def)

lemma demo_valid: "valid_response session_lib [demo_entry] demo_env demo_response demo_entry"
proof -
  have "json_reads session_lib (response_json (ed25519_fingerprint_hex session_lib (verifying_key session_lib demo_sk))
      (sign_auth_message session_lib demo_sk (signing_bytes (nonce demo_env) (session_id demo_env))))"
    using demo_docs_read by (simp add: session_lib_text demo_docs_def)
  then have "\<exists>entry. valid_response session_lib (map (agent_entry session_lib) [demo_sk]) demo_env
    demo_response entry \<and> entry \<in> set (map (agent_entry session_lib) [demo_sk])"
    unfolding demo_response_def by (intro agent_response_valid) simp_all
  then show ?thesis by (simp add: demo_entry_def)
qed

lemma demo_frames_fit:
  "length (payload demo_response) \<le> 1048576" "length (payload (challenge_frame session_lib demo_env)) \<le> 1048576"
  "length (payload (granted_frame session_lib demo_config demo_entry)) \<le> 1048576"
proof -
  have c: "comment demo_entry = ''agent''" "policy_group_default demo_config = ''default''"
    "policy_group_by_fingerprint demo_config = (\<lambda>_. None)"
    by (simp_all add: demo_entry_def agent_entry_def demo_config_def local_dev_init_def init_for_dir_def
        default_policy_group_def Let_def)
  show "length (payload demo_response) \<le> 1048576" "length (payload (challenge_frame session_lib demo_env)) \<le> 1048576"
    "length (payload (granted_frame session_lib demo_config demo_entry)) \<le> 1048576"
    using demo_docs_fit
    by (simp_all add: demo_response_def response_frame_def challenge_frame_def granted_frame_def c
        fits_def session_lib_text demo_docs_def)
qed

lemma demo_allowed: "check_shell dbg (policy demo_config) ''echo hi'' = Ok ()"
proof -
  have "\<not> sublist ''rm -rf /'' ''echo hi''" by (simp add: sublist_Cons_right)
  then show ?thesis by (simp add: check_shell_Ok)
qed

lemma demo_serves: "serves session_lib demo_config (runs demo_env i) ''echo hi''"
proof -
  have run: "runs demo_env i = \<lparr>spawned = Inr (Some 42), chunks = [ChunkOut [104, 105], ChunkErr [33]],
      ending = Exited (Inr (Some 0))\<rparr>"
    by (simp add: demo_env_def)
  have "json_reads session_lib (exec_json ''echo hi'')" "fits session_lib (exec_json ''echo hi'')"
    "fits session_lib (data_json session_lib [104, 105])" "fits session_lib (data_json session_lib [33])"
    "fits session_lib (exit_json 0)"
    using demo_docs_read demo_docs_fit by (simp_all add: demo_docs_def session_lib_text)
  then show ?thesis
    by (simp add: serves_def shell_json_eq clean_run_def reply_fits_def exec_reply_def demo_allowed run
        exit_frame_def exit_code_of_def fits_def)
qed

section \<open>The session\<close>

definition demo_down :: "frame list" where
  "demo_down = [challenge_frame session_lib demo_env, granted_frame session_lib demo_config demo_entry] @
     replies session_lib demo_config (runs demo_env) 0 [''echo hi'']"

lemma demo_session:
  "\<exists>c' acts. run_session session_lib demo_server_fs demo_config demo_env demo_conn = (c', acts, Ok ()) \<and>
    sent (inner c') = concat (map frame_enc demo_down) \<and> starts acts = [(''bash'', [''-lc'', ''echo hi''])]"
proof -
  have "\<exists>c' acts. run_session session_lib demo_server_fs demo_config demo_env demo_conn = (c', acts, Ok ()) \<and>
    sent (inner c') = sent (inner demo_conn) @ concat (map frame_enc
      ([challenge_frame session_lib demo_env, granted_frame session_lib demo_config demo_entry] @
       replies session_lib demo_config (runs demo_env) 0 [''echo hi''])) \<and>
    starts acts = map (shell_start demo_config) (filter (allowed session_lib demo_config) [''echo hi''])"
    by (rule session_serves_client [where keys = "[demo_entry]" and resp = demo_response])
       (simp_all add: demo_upstream_def demo_valid demo_frames_fit
         demo_serves del: replies.simps list.map)
  then show ?thesis
    by (simp add: demo_down_def allowed_def demo_allowed shell_start_def)
qed

text \<open>The client's side of the same session.\<close>

lemma demo_readable:
  "readable session_lib (challenge_json session_lib (nonce demo_env) (session_id demo_env))"
  "readable session_lib (result_json demo_config session_lib demo_entry)"
  "fits session_lib (exec_json ''echo hi'')" "readable_exit session_lib 0"
  "\<forall>ch \<in> set [ChunkOut [104, 105], ChunkErr [33]]. readable_chunk session_lib ch"
proof -
  have c: "comment demo_entry = ''agent''" "policy_group_default demo_config = ''default''"
    "policy_group_by_fingerprint demo_config = (\<lambda>_. None)"
    by (simp_all add: demo_entry_def agent_entry_def demo_config_def local_dev_init_def init_for_dir_def
        default_policy_group_def Let_def)
  show "readable session_lib (challenge_json session_lib (nonce demo_env) (session_id demo_env))"
    "readable session_lib (result_json demo_config session_lib demo_entry)"
    "fits session_lib (exec_json ''echo hi'')" "readable_exit session_lib 0"
    "\<forall>ch \<in> set [ChunkOut [104, 105], ChunkErr [33]]. readable_chunk session_lib ch"
    using demo_docs_read demo_docs_fit
    by (simp_all add: demo_docs_def session_lib_text readable_def result_json_def c readable_exit_def
        readable_chunk_def fits_def)
qed

lemma demo_down_frames:
  "concat (map frame_enc demo_down) =
   concat (map frame_enc [challenge_frame session_lib demo_env, granted_frame session_lib demo_config demo_entry]) @
   concat (map frame_enc (map (chunk_frame session_lib) [ChunkOut [104, 105], ChunkErr [33]])) @
   frame_enc (exit_frame session_lib 0) @ []"
  by (simp add: demo_down_def exec_reply_def demo_allowed demo_env_def exit_code_of_def)

lemma demo_text: "char_of (104 :: nat) = CHR ''h''" "char_of (105 :: nat) = CHR ''i''" "char_of (33 :: nat) = CHR ''!''"
  by (simp_all add: char_of_def bit_0)

lemma demo_client_session:
  "\<exists>w'. client_session session_lib demo_sk (pipe_end (concat (map frame_enc demo_down))) demo_key_path
      ''echo hi'' demo_world = (w', Ok 0) \<and>
    sent (inner (link w')) = demo_upstream \<and> out_text w' = ''hi'' \<and> err_text w' = ''!''"
proof -
  obtain d where d: "load_or_create_signing_key session_lib demo_sk demo_key_path demo_empty_fs = (d, Ok demo_sk)"
    using demo_load_first [of demo_docs] by (auto simp: session_lib_def demo_sk_def)
  have "length (payload (response_frame session_lib demo_sk (nonce demo_env) (session_id demo_env))) \<le> 1048576"
    using demo_frames_fit(1) by (simp add: demo_response_def)
  note good = client_session_closes [OF session_lib_simps(1) _ _ _ _ demo_readable(1,2) this demo_readable(3,5) closes_exit [OF demo_readable(4)],
    of "pipe_end (concat (map frame_enc demo_down))" demo_world demo_sk demo_key_path d "[]"]
  obtain c where c: "client_session session_lib demo_sk (pipe_end (concat (map frame_enc demo_down)))
      demo_key_path ''echo hi'' demo_world =
      ((fold print_chunk [ChunkOut [104, 105], ChunkErr [33]] (demo_world\<lparr>disk := d\<rparr>))\<lparr>link := c\<rparr>, Ok 0)"
    "sent (inner c) = concat (map frame_enc [demo_response, exec_request session_lib ''echo hi''])"
    using good d demo_down_frames by (auto simp: can_print_def demo_world_def demo_response_def)
  then show ?thesis
    by (simp add: demo_upstream_def print_chunk_def demo_world_def str_of_bytes_def char_of_byte_def demo_text)
qed

section \<open>Witnesses\<close>

lemma set_starts: "(prog, args) \<in> set (starts acts) \<longleftrightarrow> Spawn prog args \<in> set acts"
  by (induction acts rule: starts.induct) auto

theorem children_do_not_outlive_witness:
  "\<exists>c' hs. run_session session_lib demo_server_fs demo_config demo_env demo_conn = (c', concat hs, Ok ()) \<and>
    hs \<noteq> [] \<and> list_all child_history hs"
proof -
  obtain c' acts where r: "run_session session_lib demo_server_fs demo_config demo_env demo_conn = (c', acts, Ok ())"
    and s: "starts acts = [(''bash'', [''-lc'', ''echo hi''])]"
    using demo_session by blast
  from children_do_not_outlive [OF r] obtain hs where "acts = concat hs" "list_all child_history hs" by blast
  with r s show ?thesis by (intro exI [of _ c'] exI [of _ hs]) auto
qed

lemma demo_refusals: "refusals_fit session_lib demo_env"
proof -
  have "e = Ed25519 ''Invalid byte'' \<or> e = Ed25519 ''bad signature length'' \<or> e = Ed25519 ''signature verify failed''"
    if "verify_ed25519_signature session_lib vk m sg = Err e" for vk m sg e
    using that
    by (auto simp: verify_ed25519_signature_def session_lib_def demo_lib_def split: option.splits if_splits)
  then show ?thesis
    by (fastforce simp: refusals_fit_def session_lib_def demo_fits error_json_def auth_fail_json_def)
qed

theorem authentication_decides_witness:
  "session_auth session_lib demo_server_fs demo_config demo_env demo_conn =
    (after_read (frame_enc (exec_request session_lib ''echo hi''))
      (emit [challenge_frame session_lib demo_env, granted_frame session_lib demo_config demo_entry] demo_conn),
     Ok (Some demo_entry))"
  using authentication_decides [of demo_conn session_lib demo_server_fs demo_config "[demo_entry]" demo_response
      "frame_enc (exec_request session_lib ''echo hi'')" demo_env]
  by (simp add: demo_upstream_def demo_frames_fit demo_refusals demo_valid)

theorem session_serves_all_witness:
  "\<exists>c' acts. run_session session_lib demo_server_fs demo_config demo_env demo_conn = (c', acts, Ok ()) \<and>
    sent (inner c') = concat (map frame_enc demo_down) \<and> starts acts = [(''bash'', [''-lc'', ''echo hi''])]"
proof -
  have "\<exists>c' acts. run_session session_lib demo_server_fs demo_config demo_env demo_conn = (c', acts, Ok ()) \<and>
    sent (inner c') = sent (inner demo_conn) @ concat (map frame_enc
      ([challenge_frame session_lib demo_env, granted_frame session_lib demo_config demo_entry] @
       replies session_lib demo_config (runs demo_env) 0 [''echo hi''])) \<and>
    starts acts = map (shell_start demo_config) (filter (allowed session_lib demo_config) [''echo hi''])"
    by (rule session_serves_all [where keys = "[demo_entry]" and resp = demo_response])
       (simp_all add: demo_upstream_def demo_valid demo_frames_fit demo_serves del: replies.simps list.map)
  then show ?thesis
    by (simp add: demo_down_def allowed_def demo_allowed shell_start_def)
qed

theorem exit_status_meaning_witness:
  "\<exists>f1 f2 mid f rest. concat (map frame_enc demo_down) = concat (map frame_enc ([f1, f2] @ mid @ [f])) @ rest \<and>
    status_from session_lib f 0"
proof -
  obtain w' where "client_session session_lib demo_sk (pipe_end (concat (map frame_enc demo_down))) demo_key_path
      ''echo hi'' demo_world = (w', Ok 0)"
    using demo_client_session by blast
  from exit_status_meaning [OF this] show ?thesis by simp metis
qed

end
