(* ===== verification/Server_Props.thy ===== *)
theory Server_Props
  imports Server Demo_Session
begin

text \<open>
  What the server program as a whole guarantees: who can run commands on it, and that there is no plaintext
  service that was not asked for. That it goes on serving is shown in \<open>Server_Tasks\<close>.
\<close>

section \<open>The accept loops\<close>

lemma react_plain [simp]: "plain_open (react ev srv) = plain_open srv"
  by (induction ev srv rule: react.induct) simp_all

lemma serve_plain_only:
  assumes "\<not> plain_open srv" and "\<forall>s \<in> set (sessions srv). over_tls s"
  shows "\<forall>s \<in> set (sessions (serve evs srv)). over_tls s"
  using assms
proof (induction evs arbitrary: srv)
  case Nil
  then show ?case by simp
next
  case (Cons ev evs)
  then have "\<forall>s \<in> set (sessions (react ev srv)). over_tls s"
    by (cases "(ev, srv)" rule: react.cases) auto
  with Cons.IH [of "react ev srv"] Cons.prems show ?case by simp
qed

lemma run_server_Ok:
  assumes "run_server L yaml_read tls_setup bind_addr config_path evs w = (w1, Ok (cfg, srv))"
  shows "srv = serve evs (server_init w1 (plain_bound bind_addr cfg)) \<and>
    (fs_exists w config_path \<or> cfg = server_config_default) \<and> bind_addr 0 (listen cfg) = Inr () \<and>
    (\<exists>acceptor. tls_setup (tls cfg) w = (w1, Ok acceptor))"
  using assms
  by (auto simp: run_server_def server_start_def res_iff split: prod.splits res.splits if_splits sum.splits)

section \<open>Properties\<close>

text \<open>
  C3. Only authorised commands run on the server. Whatever connections are made to a running server, over
  TLS or in plaintext, each command that any of its sessions starts was sent on that very connection
  after a response with a valid signature over the challenge of that session, by a key that is in
  \<open>authorized_keys\<close> when the session begins, and it passed the policy. No other connection has any
  influence on it.
\<close>

theorem server_commands_authorized:
  assumes "run_server L yaml_read tls_setup bind_addr config_path evs w = (w1, Ok (cfg, srv))"
    and "s \<in> set (sessions srv)"
    and "outcome L cfg s = (c', acts, r)" and "Spawn prog args \<in> set acts"
  shows "\<exists>keys entry resp fs f rest.
    load_authorized_keys L (at_disk s) (authorized_keys_path cfg) = Ok keys \<and> entry \<in> set keys \<and>
    valid_response L keys (met s) resp entry \<and>
    inp (conn s) = concat (map frame_enc (resp # fs @ [f])) @ rest \<and> permitted L cfg f (Spawn prog args)"
  using session_spawn [OF assms(3) [unfolded outcome_def] assms(4)] by (simp add: codec_new_def)

text \<open>
  C36. Plaintext is opt-in. If a running server ever starts a session on a connection without TLS, then
  its configuration file exists, allows plaintext explicitly and names an address for it, to which the
  server could bind. With the default configuration every session runs over TLS.
\<close>

theorem plaintext_is_opt_in:
  assumes "run_server L yaml_read tls_setup bind_addr config_path evs w = (w1, Ok (cfg, srv))"
    and "s \<in> set (sessions srv)" and "\<not> over_tls s"
  shows "fs_exists w config_path \<and> allow_insecure_plain cfg \<and>
    (\<exists>addr. insecure_plain_listen cfg = Some addr \<and> bind_addr 1 addr = Inr ())"
proof -
  note srv = run_server_Ok [OF assms(1)]
  have "plain_bound bind_addr cfg"
  proof (rule ccontr)
    assume "\<not> plain_bound bind_addr cfg"
    then have "\<forall>s \<in> set (sessions srv). over_tls s"
      using serve_plain_only [of "server_init w1 (plain_bound bind_addr cfg)" evs] srv
      by (simp add: server_init_def)
    with assms(2,3) show False by blast
  qed
  then have "allow_insecure_plain cfg" "\<exists>addr. insecure_plain_listen cfg = Some addr \<and> bind_addr 1 addr = Inr ()"
    by (auto simp: plain_bound_def split: if_splits option.splits sum.splits)
  moreover from this srv have "fs_exists w config_path" by (auto simp: server_config_default_def)
  ultimately show ?thesis by blast
qed

text \<open>A single failed accept on the TLS listener ends the program; nothing that comes later is served.\<close>

lemma accept_failure_stops:
  assumes "stopped srv = None"
  shows "stopped (serve (TlsAcceptFailed e # evs) srv) = Some (BoxIo e) \<and>
    sessions (serve (TlsAcceptFailed e # evs) srv) = sessions srv"
  using assms by (cases evs) simp_all

section \<open>A running server\<close>

definition demo_events :: "event list" where
  "demo_events =
     [TlsAccepted (Inl ''handshake'') demo_env, PlainAcceptFailed (IoError Other_kind ''''),
      TlsAccepted (Inr (pipe_end demo_upstream)) demo_env, PlainAccepted (pipe_end []) demo_env]"

lemma demo_server:
  "run_server session_lib (\<lambda>_. Inr demo_config) (\<lambda>t w. (w, Ok ())) (\<lambda>n a. Inr ()) demo_config_file
     demo_events demo_server_fs =
   (demo_server_fs, Ok (demo_config, \<lparr>server_disk = demo_server_fs, plain_open = True, stopped = None,
     sessions = [\<lparr>over_tls = True, at_disk = demo_server_fs, met = demo_env, conn = pipe_end demo_upstream\<rparr>,
       \<lparr>over_tls = False, at_disk = demo_server_fs, met = demo_env, conn = pipe_end []\<rparr>]\<rparr>))"
proof -
  have "utf8_valid ''doc''" by (intro ascii_utf8_valid) (simp add: is_ascii_def code_def)
  then have "fs_exists demo_server_fs demo_config_file" "read_to_string demo_server_fs demo_config_file = Ok ''doc''"
    by (simp_all add: fs_exists_def demo_server_fs_def read_to_string_def)
  moreover have "plain_bound (\<lambda>n a. Inr ()) demo_config"
    by (simp add: plain_bound_def demo_config_def)
  ultimately show ?thesis
    by (simp add: run_server_def server_start_def server_config_load_def demo_events_def server_init_def)
qed

theorem server_commands_authorized_witness:
  "\<exists>keys entry resp fs f rest.
    load_authorized_keys session_lib demo_server_fs demo_keys_path = Ok keys \<and> entry \<in> set keys \<and>
    valid_response session_lib keys demo_env resp entry \<and>
    demo_upstream = concat (map frame_enc (resp # fs @ [f])) @ rest \<and>
    permitted session_lib demo_config f (Spawn ''bash'' [''-lc'', ''echo hi''])"
proof -
  let ?s = "\<lparr>over_tls = True, at_disk = demo_server_fs, met = demo_env, conn = pipe_end demo_upstream\<rparr>"
  obtain c' acts where "run_session session_lib demo_server_fs demo_config demo_env demo_conn = (c', acts, Ok ())"
    and "starts acts = [(''bash'', [''-lc'', ''echo hi''])]"
    using demo_session by blast
  then have "outcome session_lib demo_config ?s = (c', acts, Ok ())" "Spawn ''bash'' [''-lc'', ''echo hi''] \<in> set acts"
    by (simp_all add: outcome_def demo_conn_def set_starts [symmetric])
  from server_commands_authorized [OF demo_server _ this] show ?thesis by simp
qed

theorem plaintext_is_opt_in_witness:
  "fs_exists demo_server_fs demo_config_file \<and> allow_insecure_plain demo_config"
  using plaintext_is_opt_in [OF demo_server,
      of "\<lparr>over_tls = False, at_disk = demo_server_fs, met = demo_env, conn = pipe_end []\<rparr>"]
  by simp

end
