(* ===== verification/Server_Tasks.thy ===== *)
theory Server_Tasks
  imports Session_Tasks Server_Props
begin

text \<open>
  The running server (\<open>run_server\<close> in \<open>sao-server/src/main.rs\<close>) as a program of many tasks: the main loop,
  the loop of the plaintext listener, and a task for every connection, which makes the handshake and then
  runs the session in the pieces of \<open>Session_Tasks\<close>. What happens next is never determined: any accept, any
  handshake, any task whose input is there, more input anywhere, a change of the files.

  The theory shows that the tasks do not disturb one another: in every order of events each of them does
  what \<open>outcome\<close> says for its own connection (\<open>tasks_refine_sessions\<close>), so the one-event-per-connection view of
  \<open>Server.thy\<close> is right, and no task can keep a new client from being served (\<open>connections_are_served\<close>).
\<close>

section \<open>The program\<close>

text \<open>A connection that was accepted, a handshake that failed, a session.\<close>

datatype 'vk task = Handshaking session_env | Refused str | Session "'vk session_task"

text \<open>\<open>main_loop\<close> holds the error with which the main loop has ended, and with it the process.\<close>

record 'vk program =
  files_now :: fs
  plain_loop :: bool
  main_loop :: "boxed_error option"
  tasks :: "'vk task list"

definition boot :: "fs \<Rightarrow> bool \<Rightarrow> 'vk program" where
  "boot w plain = \<lparr>files_now = w, plain_loop = plain, main_loop = None, tasks = []\<rparr>"

text \<open>
  The body of the main loop: it awaits nothing but the accept. The handshake and the session are spawned, and
  the \<open>?\<close> is on the accept alone.
\<close>

fun main_turn :: "io_error + session_env \<Rightarrow> 'vk program \<Rightarrow> 'vk program" where
  "main_turn (Inl e) p = p\<lparr>main_loop := Some (BoxIo e)\<rparr>"
| "main_turn (Inr env) p = p\<lparr>tasks := tasks p @ [Handshaking env]\<rparr>"

text \<open>The body of the loop on the plaintext listener: a failed accept is tried again.\<close>

fun plain_turn :: "io_error + (stream \<times> session_env) \<Rightarrow> 'vk program \<Rightarrow> 'vk program" where
  "plain_turn (Inl e) p = p"
| "plain_turn (Inr (s, env)) p = p\<lparr>tasks := tasks p @ [Session (spawn_session False env s (files_now p))]\<rparr>"

text \<open>The body of the task of a TLS connection: the handshake first, then the session.\<close>

fun handshake_turn :: "str + stream \<Rightarrow> fs \<Rightarrow> session_env \<Rightarrow> 'vk task" where
  "handshake_turn (Inl e) w env = Refused e"
| "handshake_turn (Inr s) w env = Session (spawn_session True env s w)"

datatype happening =
    Accepts "io_error + session_env"
  | PlainAccepts "io_error + (stream \<times> session_env)"
  | HandshakeEnds nat "str + stream"
  | Runs nat
  | Arrives nat bytes
  | HangsUp nat "io_error option"
  | FilesChange fs

text \<open>A new connection has not ended yet; how it ends is said by \<open>HangsUp\<close>.\<close>

inductive turn :: "('vk, 'sk) lib \<Rightarrow> server_config \<Rightarrow> 'vk program \<Rightarrow> happening \<Rightarrow> 'vk program \<Rightarrow> bool"
  for L :: "('vk, 'sk) lib" and cfg :: server_config where
  tls_accept: "main_loop p = None \<Longrightarrow> turn L cfg p (Accepts x) (main_turn x p)"
| plain_accept:
    "main_loop p = None \<Longrightarrow> plain_loop p \<Longrightarrow> (\<And>s env. x = Inr (s, env) \<Longrightarrow> inp_end s = None) \<Longrightarrow>
     turn L cfg p (PlainAccepts x) (plain_turn x p)"
| handshake:
    "main_loop p = None \<Longrightarrow> i < length (tasks p) \<Longrightarrow> tasks p ! i = Handshaking env \<Longrightarrow>
     (\<And>s. x = Inr s \<Longrightarrow> inp_end s = None) \<Longrightarrow>
     turn L cfg p (HandshakeEnds i x) (p\<lparr>tasks := (tasks p)[i := handshake_turn x (files_now p) env]\<rparr>)"
| run:
    "main_loop p = None \<Longrightarrow> i < length (tasks p) \<Longrightarrow> tasks p ! i = Session t \<Longrightarrow> \<not> waits t \<Longrightarrow>
     turn L cfg p (Runs i) (p\<lparr>tasks := (tasks p)[i := Session (advance L cfg (files_now p) t)]\<rparr>)"
| input:
    "main_loop p = None \<Longrightarrow> i < length (tasks p) \<Longrightarrow> tasks p ! i = Session t \<Longrightarrow> \<not> hung_up t \<Longrightarrow>
     turn L cfg p (Arrives i b) (p\<lparr>tasks := (tasks p)[i := Session (arrive b None t)]\<rparr>)"
| end_of_input:
    "main_loop p = None \<Longrightarrow> i < length (tasks p) \<Longrightarrow> tasks p ! i = Session t \<Longrightarrow> \<not> hung_up t \<Longrightarrow>
     turn L cfg p (HangsUp i e) (p\<lparr>tasks := (tasks p)[i := Session (hang_up e t)]\<rparr>)"
| new_files: "main_loop p = None \<Longrightarrow> turn L cfg p (FilesChange w) (p\<lparr>files_now := w\<rparr>)"

inductive history :: "('vk, 'sk) lib \<Rightarrow> server_config \<Rightarrow> 'vk program \<Rightarrow> happening list \<Rightarrow> 'vk program \<Rightarrow> bool"
  for L :: "('vk, 'sk) lib" and cfg :: server_config where
  now: "history L cfg p [] p"
| later: "turn L cfg p h q \<Longrightarrow> history L cfg q hs r \<Longrightarrow> history L cfg p (h # hs) r"

inductive_cases turn_accepts: "turn L cfg p (Accepts x) q"
inductive_cases turn_runs: "turn L cfg p (Runs i) q"
inductive_cases turn_arrives: "turn L cfg p (Arrives i b) q"
inductive_cases turn_hangs_up: "turn L cfg p (HangsUp i e) q"
inductive_simps history_Nil [simp]: "history L cfg p [] q"
inductive_simps history_Cons: "history L cfg p (h # hs) q"

lemma history_append: "history L cfg p (hs1 @ hs2) r \<longleftrightarrow> (\<exists>q. history L cfg p hs1 q \<and> history L cfg q hs2 r)"
  by (induction hs1 arbitrary: p) (auto simp: history_Cons)

text \<open>What has arrived on a connection in a history.\<close>

fun arrived :: "nat \<Rightarrow> happening list \<Rightarrow> bytes" where
  "arrived i [] = []"
| "arrived i (Arrives k b # hs) = (if k = i then b @ arrived i hs else arrived i hs)"
| "arrived i (_ # hs) = arrived i hs"

section \<open>The main loop\<close>

lemma turn_main:
  "turn L cfg p h q \<Longrightarrow> main_loop p = None \<and> plain_loop q = plain_loop p \<and>
   (main_loop q = None \<longleftrightarrow> (\<forall>e. h \<noteq> Accepts (Inl e)))"
proof (induction rule: turn.cases)
  case (tls_accept p x)
  then show ?case by (cases x) simp_all
next
  case (plain_accept p x)
  then show ?case by (cases x) auto
qed simp_all

lemma stopped_history: "history L cfg p hs q \<Longrightarrow> main_loop p \<noteq> None \<Longrightarrow> hs = [] \<and> q = p"
  by (cases hs) (auto simp: history_Cons dest: turn_main)

text \<open>Nothing but a failed accept on the TLS listener ends the program.\<close>

lemma history_main:
  "history L cfg p hs q \<Longrightarrow> main_loop p = None \<Longrightarrow>
   plain_loop q = plain_loop p \<and> (main_loop q = None \<longleftrightarrow> (\<forall>e. Accepts (Inl e) \<notin> set hs))"
proof (induction rule: history.induct)
  case (later p h q hs r)
  note t = turn_main [OF later.hyps(1)]
  show ?case
  proof (cases "main_loop q = None")
    case True
    with t later show ?thesis by auto
  next
    case False
    from stopped_history [OF later.hyps(2) False] have "hs = [] \<and> r = q" by simp
    with False t show ?thesis by auto
  qed
qed simp

section \<open>One task among the others\<close>

text \<open>What something that happens means for the session task number \<open>i\<close>.\<close>

fun moved :: "('vk, 'sk) lib \<Rightarrow> server_config \<Rightarrow> fs \<Rightarrow> nat \<Rightarrow> happening \<Rightarrow> 'vk session_task \<Rightarrow> 'vk session_task" where
  "moved L cfg w i (Runs k) t = (if k = i then advance L cfg w t else t)"
| "moved L cfg w i (Arrives k b) t = (if k = i then arrive b None t else t)"
| "moved L cfg w i (HangsUp k e) t = (if k = i then hang_up e t else t)"
| "moved L cfg w i _ t = t"

text \<open>What must hold for it to happen.\<close>

fun ready_for :: "nat \<Rightarrow> happening \<Rightarrow> 'vk session_task \<Rightarrow> bool" where
  "ready_for i (Runs k) t \<longleftrightarrow> k = i \<longrightarrow> \<not> waits t"
| "ready_for i (Arrives k b) t \<longleftrightarrow> k = i \<longrightarrow> \<not> hung_up t"
| "ready_for i (HangsUp k e) t \<longleftrightarrow> k = i \<longrightarrow> \<not> hung_up t"
| "ready_for i _ t \<longleftrightarrow> True"

text \<open>Only what happens to the task itself moves it; no other task has any influence.\<close>

lemma turn_session:
  assumes "turn L cfg p h q" and "i < length (tasks p)" and "tasks p ! i = Session t"
  shows "i < length (tasks q) \<and> tasks q ! i = Session (moved L cfg (files_now p) i h t) \<and> ready_for i h t"
  using assms
proof (induction rule: turn.cases)
  case (tls_accept p x)
  then show ?case by (cases x) (simp_all add: nth_append)
next
  case (plain_accept p x)
  then show ?case by (cases x) (auto simp: nth_append)
qed (auto simp: nth_list_update)

text \<open>The tasks of a reachable program are all on course.\<close>

definition all_on_course :: "('vk, 'sk) lib \<Rightarrow> server_config \<Rightarrow> 'vk program \<Rightarrow> bool" where
  "all_on_course L cfg p \<longleftrightarrow> (\<forall>t. Session t \<in> set (tasks p) \<longrightarrow>
     on_course L cfg t \<and> (over_tls (who t) \<or> plain_loop p))"

lemma moved_on_course:
  "on_course L cfg t \<Longrightarrow> ready_for i h t \<Longrightarrow> on_course L cfg (moved L cfg w i h t)"
  by (cases h) (auto intro: advance_on_course arrive_on_course)

lemma moved_keeps [simp]:
  "over_tls (who (moved L cfg w i h t)) = over_tls (who t)" "met (who (moved L cfg w i h t)) = met (who t)"
  by (cases h; simp add: advance_keeps [OF refl] hang_up_def)+

lemma spawn_simps [simp]:
  "over_tls (who (spawn_session b env s w)) = b" "met (who (spawn_session b env s w)) = env"
  "conn (who (spawn_session b env s w)) = s" "at_disk (who (spawn_session b env s w)) = w"
  "stage (spawn_session b env s w) = Starting" "line (spawn_session b env s w) = codec_new s"
  "performed (spawn_session b env s w) = []" "hung_up (spawn_session b env s w) = False"
  by (simp_all add: spawn_session_def)

lemma turn_new_session:
  assumes "turn L cfg p h q" and "Session t \<in> set (tasks q)"
  shows "(\<exists>i t0. i < length (tasks p) \<and> tasks p ! i = Session t0 \<and> t = moved L cfg (files_now p) i h t0) \<or>
    (\<exists>tls_used env s. t = spawn_session tls_used env s (files_now p) \<and> inp_end s = None \<and> (tls_used \<or> plain_loop p))"
proof -
  from assms(2) obtain i where i: "i < length (tasks q)" "tasks q ! i = Session t" by (auto simp: in_set_conv_nth)
  show ?thesis
  proof (cases "i < length (tasks p) \<and> (\<exists>t0. tasks p ! i = Session t0)")
    case True
    with turn_session [OF assms(1), of i] i show ?thesis by fastforce
  next
    case False
    with assms(1) i show ?thesis
    proof (induction rule: turn.cases)
      case (tls_accept p x)
      then show ?case by (cases x) (auto simp: nth_append split: if_splits)
    next
      case (plain_accept p x)
      then show ?case by (cases x) (auto simp: nth_append split: if_splits, (metis option.distinct(1))+)
    next
      case (handshake p j env x)
      then show ?case by (cases x) (auto simp: nth_list_update split: if_splits)
    qed (auto simp: nth_list_update split: if_splits)
  qed
qed

lemma turn_on_course:
  assumes "all_on_course L cfg p" and "turn L cfg p h q"
  shows "all_on_course L cfg q"
  unfolding all_on_course_def
proof (intro allI impI)
  fix t
  assume "Session t \<in> set (tasks q)"
  from turn_new_session [OF assms(2) this]
  show "on_course L cfg t \<and> (over_tls (who t) \<or> plain_loop q)"
  proof
    assume "\<exists>i t0. i < length (tasks p) \<and> tasks p ! i = Session t0 \<and> t = moved L cfg (files_now p) i h t0"
    then obtain i t0 where i: "i < length (tasks p)" "tasks p ! i = Session t0" "t = moved L cfg (files_now p) i h t0"
      by blast
    then have "Session t0 \<in> set (tasks p)" using nth_mem by metis
    with assms(1) turn_session [OF assms(2) i(1,2)] turn_main [OF assms(2)] i(3) moved_on_course [of L cfg t0 i h]
    show ?thesis by (auto simp: all_on_course_def)
  next
    assume "\<exists>tls_used env s. t = spawn_session tls_used env s (files_now p) \<and> inp_end s = None \<and> (tls_used \<or> plain_loop p)"
    with turn_main [OF assms(2)] show ?thesis
      by (auto intro: spawn_on_course)
  qed
qed

lemma history_on_course:
  "history L cfg p hs q \<Longrightarrow> all_on_course L cfg p \<Longrightarrow> all_on_course L cfg q"
  by (induction rule: history.induct) (auto intro: turn_on_course)

lemma boot_on_course: "all_on_course L cfg (boot w plain)"
  by (simp add: all_on_course_def boot_def)

lemmas reachable_on_course = history_on_course [OF _ boot_on_course]

section \<open>The tasks implement the sessions\<close>

text \<open>
  The abstract view of \<open>Server.thy\<close>: the sessions that have begun, as if each connection with all of its
  input had been a single event.
\<close>

definition begun :: "'vk program \<Rightarrow> served list" where
  "begun p = concat (map (\<lambda>tk. case tk of Session t \<Rightarrow> if stage t = Starting then [] else [who t] | _ \<Rightarrow> []) (tasks p))"

definition as_events :: "served \<Rightarrow> event list" where
  "as_events s = [FilesChanged (at_disk s),
     if over_tls s then TlsAccepted (Inr (conn s)) (met s) else PlainAccepted (conn s) (met s)]"

lemma serve_append: "stopped (serve evs srv) = None \<Longrightarrow> serve (evs @ evs') srv = serve evs' (serve evs srv)"
  by (induction evs arbitrary: srv) (auto split: if_splits)

lemma serve_one:
  "stopped srv = None \<Longrightarrow> over_tls s \<or> plain_open srv \<Longrightarrow>
   serve (as_events s) srv = srv\<lparr>server_disk := at_disk s, sessions := sessions srv @ [s]\<rparr>"
  by (cases s) (auto simp: as_events_def)

lemma serve_as_events:
  assumes "stopped srv = None" and "\<forall>s \<in> set ss. over_tls s \<or> plain_open srv"
  shows "sessions (serve (concat (map as_events ss)) srv) = sessions srv @ ss"
  using assms
proof (induction ss arbitrary: srv)
  case (Cons s ss)
  then have "over_tls s \<or> plain_open srv" by auto
  from serve_one [OF Cons.prems(1) this] Cons show ?case by (auto simp: serve_append)
qed simp

lemma begun_served:
  assumes "history L cfg (boot w plain) hs p"
  shows "\<exists>evs. sessions (serve evs (server_init w plain)) = begun p"
proof -
  have "plain_loop p = plain" using history_main [OF assms] by (simp add: boot_def)
  with reachable_on_course [OF assms] have "\<forall>s \<in> set (begun p). over_tls s \<or> plain"
    by (auto simp: begun_def all_on_course_def split: task.splits if_splits)
  with serve_as_events [of "server_init w plain" "begun p"] show ?thesis
    by (auto simp: server_init_def)
qed

text \<open>
  The refinement. In every reachable state of the program, whatever the order of events was, and whatever
  may still come on its connection, a session that has begun has sent and performed a beginning of what
  \<open>outcome\<close> says for its connection alone; when its task has ended it has done exactly that. And the begun
  sessions are those of a run of the abstract server, to which the properties of \<open>Server_Props\<close> apply.
\<close>

theorem tasks_refine_sessions:
  assumes "history L cfg (boot w plain) hs p"
    and "Session t \<in> set (tasks p)" and "stage t \<noteq> Starting" and "continues b e t"
    and "outcome L cfg (who (arrive b e t)) = (c', acts, r)"
  shows "prefix (sent (inner (line t))) (sent (inner c')) \<and> prefix (performed t) acts \<and>
    (\<forall>x. stage t = Finished x \<longrightarrow> x = r \<and> performed t = acts \<and> sent (inner c') = sent (inner (line t))) \<and>
    (\<exists>evs. sessions (serve evs (server_init w plain)) = begun p)"
proof -
  have "on_course L cfg t" using reachable_on_course [OF assms(1)] assms(2) by (auto simp: all_on_course_def)
  then have "tidy t" and rest: "rest_of L cfg (arrive b e t) = (c', acts, r)"
    using assms(3-5) by (auto simp: on_course_def)
  from rest_of_grows [OF this(1) assms(3) rest] have "said (line t) c'" "prefix (performed t) acts" by simp_all
  moreover have "x = r \<and> performed t = acts \<and> sent (inner c') = sent (inner (line t))" if "stage t = Finished x" for x
    using rest that by (auto simp: rest_of_def)
  ultimately show ?thesis using begun_served [OF assms(1)] by (simp add: said_def)
qed

text \<open>So in every order of events a command is started only for the agent that sent it.\<close>

lemma tasks_commands_authorized:
  assumes "history L cfg (boot w plain) hs p"
    and "Session t \<in> set (tasks p)" and "stage t \<noteq> Starting" and "Spawn prog args \<in> set (performed t)"
  shows "\<exists>keys entry resp fs f rest.
    load_authorized_keys L (at_disk (who t)) (authorized_keys_path cfg) = Ok keys \<and> entry \<in> set keys \<and>
    valid_response L keys (met (who t)) resp entry \<and>
    inp (conn (who t)) = concat (map frame_enc (resp # fs @ [f])) @ rest \<and> permitted L cfg f (Spawn prog args)"
proof -
  let ?e = "inp_end (inner (line t))"
  obtain c' acts r where o: "outcome L cfg (who (arrive [] ?e t)) = (c', acts, r)" using prod_cases3 by blast
  have "on_course L cfg t" using reachable_on_course [OF assms(1)] assms(2) by (auto simp: all_on_course_def)
  then have "tidy t" and "rest_of L cfg (arrive [] ?e t) = (c', acts, r)"
    using assms(3) o by (auto simp: on_course_def continues_def)
  from rest_of_grows [OF this(1) assms(3) this(2)] assms(4) have "Spawn prog args \<in> set acts"
    by (auto simp: prefix_def)
  from session_spawn [OF o [unfolded outcome_def] this] show ?thesis by (simp add: codec_new_def)
qed

section \<open>A task moves on\<close>

text \<open>
  What a history does to a session task: before its peer hangs up, its input grows by what arrives; after
  that, every turn brings it nearer to its end, whatever else happens in between.
\<close>

definition followed :: "nat \<Rightarrow> happening list \<Rightarrow> fs set \<Rightarrow> 'vk session_task \<Rightarrow> 'vk session_task \<Rightarrow> bool" where
  "followed i hs ws t t' \<longleftrightarrow>
     over_tls (who t') = over_tls (who t) \<and> met (who t') = met (who t) \<and>
     at_disk (who t') \<in> insert (at_disk (who t)) ws \<and>
     (\<not> hung_up t' \<longrightarrow> \<not> hung_up t \<and> conn (who t') = feed (arrived i hs) None (conn (who t)) \<and>
        left t' \<le> left t + length (arrived i hs)) \<and>
     (hung_up t \<longrightarrow> hung_up t' \<and> conn (who t') = conn (who t) \<and> left t' \<le> left t - count_list hs (Runs i))"

lemma moved_followed:
  assumes "tidy t" and "ready_for i h t"
  shows "followed i [h] {w} t (moved L cfg w i h t)"
proof (cases h)
  case (Runs k)
  have "at_disk (who (advance L cfg w t)) \<in> {at_disk (who t), w}"
  proof (cases "stage t")
    case Starting
    then show ?thesis by (simp add: advance_def split: prod.split)
  qed (auto simp: advance_def split: prod.split res.split)
  moreover have "left (advance L cfg w t) \<le> left t - 1"
  proof (cases "left t = 0")
    case True
    then show ?thesis by (auto simp: left_0 advance_def)
  qed (use advance_left [of t L cfg w] in simp)
  moreover have "feed [] None (conn (who t)) = conn (who t)" if "\<not> hung_up t"
    using that assms(1) feed_codec_nothing(2) [of "conn (who t)"] by (simp add: tidy_def)
  ultimately show ?thesis using Runs by (auto simp: followed_def advance_keeps [OF refl])
next
  case (Arrives k b)
  have "left (arrive b e t) \<le> left t + length b" for e by (cases "stage t") simp_all
  moreover have "feed [] None (conn (who t)) = conn (who t)" if "\<not> hung_up t"
    using that assms(1) feed_codec_nothing(2) [of "conn (who t)"] by (simp add: tidy_def)
  ultimately show ?thesis using Arrives assms(2) by (auto simp: followed_def)
next
  case (HangsUp k e)
  then show ?thesis using assms feed_codec_nothing(2) [of "conn (who t)"]
    by (auto simp: followed_def hang_up_def tidy_def)
qed (use assms(1) feed_codec_nothing(2) [of "conn (who t)"] in \<open>auto simp: followed_def tidy_def\<close>)

lemma followed_refl: "tidy t \<Longrightarrow> followed i [] ws t t"
  using feed_codec_nothing(2) [of "conn (who t)"] by (auto simp: followed_def tidy_def)

lemma arrived_append: "arrived i (hs1 @ hs2) = arrived i hs1 @ arrived i hs2"
  by (induction i hs1 rule: arrived.induct) simp_all

lemma followed_append:
  assumes "followed i hs1 ws1 t t1" and "followed i hs2 ws2 t1 t2"
  shows "followed i (hs1 @ hs2) (ws1 \<union> ws2) t t2"
proof -
  have "left t2 \<le> left t + length (arrived i (hs1 @ hs2)) \<and> \<not> hung_up t \<and>
      conn (who t2) = feed (arrived i (hs1 @ hs2)) None (conn (who t))" if "\<not> hung_up t2"
    using assms that by (simp add: followed_def arrived_append)
  moreover have "hung_up t2 \<and> conn (who t2) = conn (who t) \<and> left t2 \<le> left t - count_list (hs1 @ hs2) (Runs i)"
    if "hung_up t"
  proof -
    from assms that have "left t1 \<le> left t - count_list hs1 (Runs i)" "left t2 \<le> left t1 - count_list hs2 (Runs i)"
      by (simp_all add: followed_def)
    then have "left t2 \<le> left t - count_list (hs1 @ hs2) (Runs i)" by simp
    with assms that show ?thesis by (simp add: followed_def)
  qed
  moreover have "over_tls (who t2) = over_tls (who t)" "met (who t2) = met (who t)"
    using assms by (simp_all add: followed_def)
  moreover have "at_disk (who t1) \<in> insert (at_disk (who t)) ws1" "at_disk (who t2) \<in> insert (at_disk (who t1)) ws2"
    using assms by (simp_all add: followed_def)
  then have "at_disk (who t2) \<in> insert (at_disk (who t)) (ws1 \<union> ws2)" by auto
  ultimately show ?thesis unfolding followed_def by blast
qed

lemma followed_mono: "followed i hs ws t t' \<Longrightarrow> ws \<subseteq> ws' \<Longrightarrow> followed i hs ws' t t'"
  by (auto simp: followed_def)

text \<open>The states the files were in.\<close>

definition files_seen :: "fs \<Rightarrow> happening list \<Rightarrow> fs set" where
  "files_seen w hs = insert w {w'. FilesChange w' \<in> set hs}"

lemma turn_files: "turn L cfg p h q \<Longrightarrow> files_now q \<in> files_seen (files_now p) [h]"
proof (induction rule: turn.cases)
  case (tls_accept p x)
  then show ?case by (cases x) (simp_all add: files_seen_def)
next
  case (plain_accept p x)
  then show ?case by (cases x) (auto simp: files_seen_def)
qed (simp_all add: files_seen_def)

lemma history_followed:
  assumes "history L cfg p hs q" and "i < length (tasks p)" and "tasks p ! i = Session t" and "on_course L cfg t"
  shows "\<exists>t'. tasks q ! i = Session t' \<and> on_course L cfg t' \<and> i < length (tasks q) \<and>
    followed i hs (files_seen (files_now p) hs) t t'"
  using assms
proof (induction arbitrary: t rule: history.induct)
  case (now p)
  then show ?case by (auto simp: on_course_def intro: followed_refl)
next
  case (later p h q hs r)
  let ?t = "moved L cfg (files_now p) i h t"
  note s = turn_session [OF later.hyps(1) later.prems(1,2)]
  have "tidy t" using later.prems(3) by (simp add: on_course_def)
  with s have 1: "followed i [h] {files_now p} t ?t" by (simp add: moved_followed)
  from s moved_on_course [OF later.prems(3)] later.IH [of ?t] obtain t' where
    t': "tasks r ! i = Session t'" "on_course L cfg t'" "i < length (tasks r)"
    and 2: "followed i hs (files_seen (files_now q) hs) ?t t'" by blast
  have "followed i (h # hs) (files_seen (files_now p) (h # hs)) t t'"
    using followed_append [OF 1 2] turn_files [OF later.hyps(1)]
    by (auto elim!: followed_mono simp: files_seen_def)
  with t' show ?case by blast
qed

section \<open>No client is kept waiting by another\<close>

text \<open>After its peer has hung up, a task can always run.\<close>

lemma runs_on:
  assumes "main_loop p = None" and "i < length (tasks p)" and "tasks p ! i = Session t" and "hung_up t"
  shows "\<exists>q. history L cfg p (replicate k (Runs i)) q"
  using assms
proof (induction k arbitrary: p t)
  case (Suc k)
  let ?q = "p\<lparr>tasks := (tasks p)[i := Session (advance L cfg (files_now p) t)]\<rparr>"
  have "turn L cfg p (Runs i) ?q" using Suc.prems by (intro turn.run) (simp_all add: hung_up_runs)
  moreover have "\<exists>q. history L cfg ?q (replicate k (Runs i)) q"
    using Suc.prems by (intro Suc.IH [of _ "advance L cfg (files_now p) t"]) (simp_all add: advance_keeps [OF refl])
  ultimately show ?case by (auto simp: history_Cons)
qed (auto intro: history.now)

text \<open>Once its peer has hung up, as many turns as there are bytes and three finish a session.\<close>

lemma session_finishes:
  assumes "history L cfg p (hs1 @ HangsUp i e # hs2) q" and "i < length (tasks p)" and "tasks p ! i = Session t"
    and "on_course L cfg t" and "left t + length (arrived i hs1) \<le> count_list hs2 (Runs i)"
  shows "\<exists>t' r. tasks q ! i = Session t' \<and> stage t' = Finished r \<and> over_tls (who t') = over_tls (who t) \<and>
    met (who t') = met (who t) \<and> conn (who t') = feed (arrived i hs1) e (conn (who t)) \<and>
    at_disk (who t') \<in> insert (at_disk (who t)) (files_seen (files_now p) (hs1 @ hs2)) \<and>
    outcome L cfg (who t') = (line t', performed t', r)"
proof -
  obtain p1 p2 where p: "history L cfg p hs1 p1" "turn L cfg p1 (HangsUp i e) p2" "history L cfg p2 hs2 q"
    using assms(1) by (auto simp: history_append history_Cons)
  from history_followed [OF p(1) assms(2-4)] obtain t1 where
    t1: "tasks p1 ! i = Session t1" "on_course L cfg t1" "i < length (tasks p1)"
    and 1: "followed i hs1 (files_seen (files_now p) hs1) t t1" by blast
  note s = turn_session [OF p(2) t1(3,1)]
  then have open1: "\<not> hung_up t1" and t2: "tasks p2 ! i = Session (hang_up e t1)" "i < length (tasks p2)" by simp_all
  have "files_now p2 = files_now p1" using p(2) by (rule turn_hangs_up) simp
  moreover have "files_now p1 \<in> files_seen (files_now p) hs1"
    using p(1) by (induction rule: history.induct) (auto simp: files_seen_def dest!: turn_files)
  moreover have "on_course L cfg (hang_up e t1)" using t1(2) open1 by (rule arrive_on_course)
  from history_followed [OF p(3) t2(2,1) this] obtain t' where
    t': "tasks q ! i = Session t'" "on_course L cfg t'"
    and 2: "followed i hs2 (files_seen (files_now p2) hs2) (hang_up e t1) t'" by blast
  moreover have "left (hang_up e t1) = left t1" by (simp add: hang_up_def)
  ultimately have "left t' = 0" and w: "over_tls (who t') = over_tls (who t)" "met (who t') = met (who t)"
    "conn (who t') = feed (arrived i hs1) e (conn (who t))"
    "at_disk (who t') \<in> insert (at_disk (who t)) (files_seen (files_now p) (hs1 @ hs2))"
    using 1 open1 assms(5) by (auto simp: followed_def hang_up_def files_seen_def)
  then obtain r where "stage t' = Finished r" by (auto simp: left_0)
  with t' w finished_outcome [OF t'(2)] show ?thesis by blast
qed

text \<open>The first two steps of a new client: its connection is accepted, its handshake succeeds.\<close>

lemma client_connects:
  assumes "main_loop p = None" and "inp_end s = None" and "n = length (tasks p)"
  shows "history L cfg p [Accepts (Inr env), HandshakeEnds n (Inr s)]
    (p\<lparr>tasks := tasks p @ [Session (spawn_session True env s (files_now p))]\<rparr>)"
proof -
  let ?q = "main_turn (Inr env) p"
  have "turn L cfg p (Accepts (Inr env)) ?q" using assms(1) by (rule tls_accept)
  moreover have "turn L cfg ?q (HandshakeEnds n (Inr s)) (?q\<lparr>tasks := (tasks ?q)[n := handshake_turn (Inr s) (files_now ?q) env]\<rparr>)"
    using assms by (intro handshake) (simp_all add: nth_append)
  moreover have "?q\<lparr>tasks := (tasks ?q)[n := handshake_turn (Inr s) (files_now ?q) env]\<rparr> =
      p\<lparr>tasks := tasks p @ [Session (spawn_session True env s (files_now p))]\<rparr>"
    using assms(3) by simp
  ultimately show ?thesis by (auto simp: history_Cons)
qed

text \<open>
  C25. The server goes on serving. In every state that the program can reach without a failed accept on the
  TLS listener, with any number of handshakes that hang or have failed, sessions that wait for input, have
  ended with an error or have panicked, the main loop is running and a new client gets served by its own
  task alone: it can connect, and with no other task moving, its task can take as many turns as it needs.
  And in whatever way the others are interleaved with it, once it has hung up and its task had a turn for
  each of its bytes and three more, its session has ended and has done exactly what \<open>run_session\<close> does with
  the bytes that arrived on its connection, with the files of some moment in between.
\<close>

theorem connections_are_served:
  assumes "history L cfg (boot w plain) hs p" and "\<forall>e. Accepts (Inl e) \<notin> set hs"
    and "inp_end s = None" and "n = length (tasks p)"
  shows "main_loop p = None \<and>
    (\<exists>p1. history L cfg p [Accepts (Inr env), HandshakeEnds n (Inr s)] p1 \<and>
      (\<forall>bs e k. \<exists>p2. history L cfg p1 (Arrives n bs # HangsUp n e # replicate k (Runs n)) p2) \<and>
      (\<forall>hs1 e hs2 p2. history L cfg p1 (hs1 @ HangsUp n e # hs2) p2 \<and>
          length (inp s) + length (arrived n hs1) + 3 \<le> count_list hs2 (Runs n) \<longrightarrow>
        (\<exists>t w' r. tasks p2 ! n = Session t \<and> stage t = Finished r \<and>
          w' \<in> files_seen (files_now p) (hs1 @ hs2) \<and>
          who t = \<lparr>over_tls = True, at_disk = w', met = env, conn = feed (arrived n hs1) e s\<rparr> \<and>
          run_session L w' cfg env (codec_new (feed (arrived n hs1) e s)) = (line t, performed t, r))))"
proof -
  let ?t = "spawn_session True env s (files_now p)"
  let ?p1 = "p\<lparr>tasks := tasks p @ [Session ?t]\<rparr>"
  have m: "main_loop p = None" using history_main [OF assms(1)] assms(2) by (simp add: boot_def)
  note c = client_connects [OF m assms(3,4)]
  have n: "n < length (tasks ?p1)" "tasks ?p1 ! n = Session ?t" using assms(4) by simp_all
  have can: "\<exists>p2. history L cfg ?p1 (Arrives n bs # HangsUp n e # replicate k (Runs n)) p2" for bs e k
  proof -
    let ?p2 = "?p1\<lparr>tasks := (tasks ?p1)[n := Session (arrive bs None ?t)]\<rparr>"
    let ?p3 = "?p2\<lparr>tasks := (tasks ?p2)[n := Session (hang_up e (arrive bs None ?t))]\<rparr>"
    have "turn L cfg ?p1 (Arrives n bs) ?p2" using m n by (intro input) simp_all
    moreover have "turn L cfg ?p2 (HangsUp n e) ?p3" using m n(1) by (intro end_of_input) simp_all
    moreover have "\<exists>q. history L cfg ?p3 (replicate k (Runs n)) q"
      using m n(1) by (intro runs_on [of _ _ "hang_up e (arrive bs None ?t)"]) (simp_all add: hang_up_def)
    ultimately show ?thesis unfolding history_Cons by blast
  qed
  have "\<exists>t w' r. tasks p2 ! n = Session t \<and> stage t = Finished r \<and> w' \<in> files_seen (files_now p) (hs1 @ hs2) \<and>
      who t = \<lparr>over_tls = True, at_disk = w', met = env, conn = feed (arrived n hs1) e s\<rparr> \<and>
      run_session L w' cfg env (codec_new (feed (arrived n hs1) e s)) = (line t, performed t, r)"
    if h: "history L cfg ?p1 (hs1 @ HangsUp n e # hs2) p2"
      and k: "length (inp s) + length (arrived n hs1) + 3 \<le> count_list hs2 (Runs n)" for hs1 e hs2 p2
  proof -
    have "left ?t + length (arrived n hs1) \<le> count_list hs2 (Runs n)" using k by (simp add: codec_new_def)
    from session_finishes [OF h n spawn_on_course [OF assms(3)] this] obtain t r where
      t: "tasks p2 ! n = Session t" "stage t = Finished r" "over_tls (who t)" "met (who t) = env"
      "conn (who t) = feed (arrived n hs1) e s" "at_disk (who t) \<in> files_seen (files_now p) (hs1 @ hs2)"
      "outcome L cfg (who t) = (line t, performed t, r)"
      by (auto simp: files_seen_def)
    moreover from this have "who t = \<lparr>over_tls = True, at_disk = at_disk (who t), met = env, conn = feed (arrived n hs1) e s\<rparr>"
      by (cases "who t") simp
    ultimately show ?thesis by (auto simp: outcome_def)
  qed
  with m c can show ?thesis by blast
qed

text \<open>A client that is served although the handshake of an earlier one never ends.\<close>

theorem connections_are_served_witness:
  "\<exists>p2 t. history session_lib demo_config (boot demo_server_fs True)
     ([Accepts (Inr demo_env), Accepts (Inr demo_env), HandshakeEnds 1 (Inr (pipe_end demo_upstream)),
       Arrives 1 [], HangsUp 1 None] @ replicate (length demo_upstream + 3) (Runs 1)) p2 \<and>
   tasks p2 ! 1 = Session t \<and> stage t = Finished (Ok ()) \<and>
   starts (performed t) = [(''bash'', [''-lc'', ''echo hi''])]"
proof -
  let ?b = "boot demo_server_fs True" and ?s = "pipe_end demo_upstream"
  let ?p = "main_turn (Inr demo_env) ?b"
  let ?rs = "replicate (length demo_upstream + 3) (Runs 1)"
  have p: "history session_lib demo_config ?b [Accepts (Inr demo_env)] ?p"
    using tls_accept [of ?b session_lib demo_config "Inr demo_env"] by (auto simp: history_Cons boot_def)
  have h: "\<forall>e. Accepts (Inl e) \<notin> set [Accepts (Inr demo_env)]" "inp_end ?s = None" "1 = length (tasks ?p)"
    by (simp_all add: boot_def)
  have w: "files_now ?p = demo_server_fs" by (simp add: boot_def)
  from connections_are_served [OF p h, of demo_env, unfolded w] obtain p1 where
    p1: "history session_lib demo_config ?p [Accepts (Inr demo_env), HandshakeEnds 1 (Inr ?s)] p1"
    and can: "\<forall>bs e k. \<exists>p2. history session_lib demo_config p1 (Arrives 1 bs # HangsUp 1 e # replicate k (Runs 1)) p2"
    and must: "\<forall>hs1 e hs2 p2. history session_lib demo_config p1 (hs1 @ HangsUp 1 e # hs2) p2 \<and>
        length (inp ?s) + length (arrived 1 hs1) + 3 \<le> count_list hs2 (Runs 1) \<longrightarrow>
      (\<exists>t w' r. tasks p2 ! 1 = Session t \<and> stage t = Finished r \<and>
        w' \<in> files_seen demo_server_fs (hs1 @ hs2) \<and>
        who t = \<lparr>over_tls = True, at_disk = w', met = demo_env, conn = feed (arrived 1 hs1) e ?s\<rparr> \<and>
        run_session session_lib w' demo_config demo_env (codec_new (feed (arrived 1 hs1) e ?s)) = (line t, performed t, r))"
    by (elim conjE exE) (rule that)
  obtain p2 where p2: "history session_lib demo_config p1 (Arrives 1 [] # HangsUp 1 None # ?rs) p2" using can by blast
  have ws: "files_seen demo_server_fs ([Arrives 1 []] @ ?rs) = {demo_server_fs}" by (auto simp: files_seen_def)
  have f: "feed [] None ?s = ?s" by (simp add: feed_def pipe_end_def)
  have "count_list (replicate k x) x = k" for k and x :: happening by (induction k) simp_all
  then have "length (inp ?s) + length (arrived 1 [Arrives 1 []]) + 3 \<le> count_list ?rs (Runs 1)"
    by (simp add: pipe_end_def del: replicate.simps)
  with must [rule_format, of "[Arrives 1 []]" None ?rs p2] p2 obtain t r w' where
    t: "tasks p2 ! 1 = Session t" "stage t = Finished r" "w' \<in> files_seen demo_server_fs ([Arrives 1 []] @ ?rs)"
    and o: "run_session session_lib w' demo_config demo_env (codec_new (feed (arrived 1 [Arrives 1 []]) None ?s)) =
      (line t, performed t, r)"
    by auto
  have "run_session session_lib demo_server_fs demo_config demo_env demo_conn = (line t, performed t, r)"
    using o t(3) unfolding ws by (simp add: f demo_conn_def)
  moreover obtain c' acts where "run_session session_lib demo_server_fs demo_config demo_env demo_conn = (c', acts, Ok ())"
    "starts acts = [(''bash'', [''-lc'', ''echo hi''])]"
    using demo_session by blast
  moreover have "history session_lib demo_config ?b ([Accepts (Inr demo_env)] @
      [Accepts (Inr demo_env), HandshakeEnds 1 (Inr ?s)] @ (Arrives 1 [] # HangsUp 1 None # ?rs)) p2"
    using p p1 p2 unfolding history_append by blast
  ultimately show ?thesis using t(1,2) by auto
qed

end
