(* ===== verification/Protocol.thy ===== *)
theory Protocol
  imports Demo_Session
begin

text \<open>
  The protocol as the client sees it, independent of the code: an automaton over the types of the
  frames that the server sends. The session of the server refines it: whatever the client sends, what
  comes back is a sequence of complete frames whose types are a run of the automaton.
\<close>

section \<open>The automaton\<close>

datatype server_phase = Greeting | Challenged | Ready | Streaming | Over

fun next_phase :: "server_phase \<Rightarrow> u8 \<Rightarrow> server_phase option" where
  "next_phase Greeting t = (if t = AUTH_CHALLENGE then Some Challenged else None)"
| "next_phase Challenged t =
     (if t = AUTH_RESULT then Some Ready else if t = ERROR then Some Over else None)"
| "next_phase Ready t =
     (if t = STREAM_STDOUT \<or> t = STREAM_STDERR then Some Streaming
      else if t = EXEC_EXIT \<or> t = POLICY_DENIED then Some Ready
      else if t = ERROR then Some Over else None)"
| "next_phase Streaming t =
     (if t = STREAM_STDOUT \<or> t = STREAM_STDERR then Some Streaming
      else if t = EXEC_EXIT then Some Ready else None)"
| "next_phase Over t = None"

fun run_phases :: "server_phase \<Rightarrow> u8 list \<Rightarrow> server_phase option" where
  "run_phases p [] = Some p"
| "run_phases p (t # ts) = Option.bind (next_phase p t) (\<lambda>q. run_phases q ts)"

lemma run_phases_append: "run_phases p (ts @ us) = Option.bind (run_phases p ts) (\<lambda>q. run_phases q us)"
  by (induction ts arbitrary: p) (auto split: bind_split)

text \<open>What a run of the automaton looks like: how it begins, and that an error is the last thing said.\<close>

fun_cases next_phase_Greeting: "next_phase Greeting t = Some q"
fun_cases next_phase_Challenged: "next_phase Challenged t = Some q"

lemma run_begins:
  "run_phases Greeting (t # u # ts) = Some q \<Longrightarrow> t = AUTH_CHALLENGE \<and> (u = AUTH_RESULT \<or> u = ERROR)"
  by (auto simp: bind_eq_Some_conv elim!: next_phase_Greeting next_phase_Challenged split: if_splits)

lemma run_Over: "run_phases Over ts = Some q \<longleftrightarrow> ts = [] \<and> q = Over"
  by (cases ts) auto

lemma next_ERROR: "next_phase p ERROR = Some q \<Longrightarrow> q = Over"
  by (cases p) (auto simp: msg_type_defs)

lemma error_is_last: "run_phases p (ts @ ERROR # us) = Some q \<Longrightarrow> us = []"
  by (auto simp: run_phases_append bind_eq_Some_conv run_Over dest!: next_ERROR)

section \<open>Complete frames\<close>

text \<open>From \<open>c\<close> to \<open>c'\<close>, complete frames of the types \<open>ts\<close> within the limit were sent, and nothing else.\<close>

definition says :: "codec \<Rightarrow> codec \<Rightarrow> u8 list \<Rightarrow> bool" where
  "says c c' ts \<longleftrightarrow> writable (inner c') \<and> codec_limit c' = codec_limit c \<and>
     (\<exists>fs. sent (inner c') = sent (inner c) @ concat (map frame_enc fs) \<and> map msg_type fs = ts \<and>
        list_all (\<lambda>f. length (payload f) \<le> codec_limit c) fs)"

lemma says_refl: "writable (inner c) \<Longrightarrow> says c c []"
  by (simp add: says_def)

lemma says_trans: "says c c1 ts \<Longrightarrow> says c1 c2 us \<Longrightarrow> says c c2 (ts @ us)"
  unfolding says_def
proof (elim conjE exE, intro conjI)
  fix fs gs
  assume "sent (inner c1) = sent (inner c) @ concat (map frame_enc fs)" "map msg_type fs = ts"
    "list_all (\<lambda>f. length (payload f) \<le> codec_limit c) fs" "codec_limit c1 = codec_limit c"
    "sent (inner c2) = sent (inner c1) @ concat (map frame_enc gs)" "map msg_type gs = us"
    "list_all (\<lambda>f. length (payload f) \<le> codec_limit c1) gs"
  then show "\<exists>fs. sent (inner c2) = sent (inner c) @ concat (map frame_enc fs) \<and> map msg_type fs = ts @ us \<and>
      list_all (\<lambda>f. length (payload f) \<le> codec_limit c) fs"
    by (intro exI [of _ "fs @ gs"]) simp
qed simp_all

lemma says_writable: "says c c' ts \<Longrightarrow> writable (inner c')"
  by (simp add: says_def)

lemma says_read: "writable (inner c) \<Longrightarrow> read_frame c = (c', x) \<Longrightarrow> says c c' []"
  using read_frame_rest [of c c' x] by (auto simp: says_def writable_def codec_limit_def)

lemma says_write:
  assumes "writable (inner c)" and "write_frame t p c = (c', x)"
  shows "(\<exists>u. x = Ok u \<and> says c c' [t]) \<or> (\<exists>e. x = Err e \<and> says c c' [])"
proof (cases "length p \<le> codec_limit c")
  case True
  with assms have "c' = c\<lparr>inner := (inner c)\<lparr>sent := sent (inner c) @ frame_enc \<lparr>msg_type = t, payload = p\<rparr>\<rparr>\<rparr>" "x = Ok ()"
    by (simp_all add: write_frame_ok)
  with assms(1) True have "says c c' [t]"
    by (auto simp: says_def codec_limit_def writable_def intro!: exI [of _ "[\<lparr>msg_type = t, payload = p\<rparr>]"])
  with \<open>x = Ok ()\<close> show ?thesis by blast
next
  case False
  then have "\<exists>e. write_frame t p c = (c, Err e)" by (intro write_frame_too_large) simp
  with assms show ?thesis by (auto intro: says_refl)
qed

lemma says_json:
  assumes "writable (inner c)" and "send_json L t j c = (c', x)"
  shows "(\<exists>u. x = Ok u \<and> says c c' [t]) \<or> (\<exists>e. x = Err e \<and> says c c' [])"
proof -
  obtain y where w: "write_frame t (json_write L j) c = (c', y)" and "x = map_err BoxProtocol y"
    using assms(2) by (auto simp: send_json_def split: prod.splits)
  then show ?thesis using says_write [OF assms(1) w] by auto
qed

section \<open>Commands\<close>

definition streams :: "u8 list \<Rightarrow> bool" where
  "streams ts \<longleftrightarrow> set ts \<subseteq> {STREAM_STDOUT, STREAM_STDERR}"

lemma run_streams: "streams ts \<Longrightarrow> run_phases Streaming ts = Some Streaming"
  by (induction ts) (auto simp: streams_def)

lemma run_reply:
  assumes "streams ts"
  shows "\<exists>q. run_phases Ready ts = Some q" "run_phases Ready (ts @ [EXEC_EXIT]) = Some Ready"
  using assms run_streams [of "tl ts"]
  by (cases ts; auto simp: streams_def run_phases_append msg_type_defs)+

lemma says_chunks:
  assumes "writable (inner c)" and "send_chunks L chs c = (c', x)"
  shows "x \<noteq> Panic \<and> (\<exists>ts. streams ts \<and> says c c' ts)"
  using assms
proof (induction chs arbitrary: c)
  case Nil
  then show ?case by (auto simp: streams_def intro!: exI [of _ "[]"] says_refl)
next
  case (Cons ch chs)
  let ?t = "msg_type (chunk_frame L ch)"
  have t: "streams [?t]" by (cases ch) (simp_all add: streams_def)
  obtain c1 y where w: "write_frame ?t (payload (chunk_frame L ch)) c = (c1, y)" by fastforce
  from says_write [OF Cons.prems(1) w] show ?case
  proof (elim disjE exE conjE)
    fix u
    assume y: "y = Ok u" and s: "says c c1 [?t]"
    with Cons.prems(2) w have "send_chunks L chs c1 = (c', x)" by simp
    with Cons.IH [OF says_writable [OF s]] obtain ts where "x \<noteq> Panic" "streams ts" "says c1 c' ts" by blast
    with t says_trans [OF s, of c' ts] show ?thesis by (auto simp: streams_def intro!: exI [of _ "[?t] @ ts"])
  next
    fix e
    assume "y = Err e" and "says c c1 []"
    with Cons.prems(2) w show ?thesis by (auto simp: streams_def intro!: exI [of _ "[]"])
  qed
qed

text \<open>The deadline, if it comes, finds no frame half written.\<close>

definition uncut :: "exec_run \<Rightarrow> bool" where
  "uncut run \<longleftrightarrow> (case ending run of Exited x \<Rightarrow> True | DeadlineWaiting \<Rightarrow> True | _ \<Rightarrow> False)"

lemma says_future:
  assumes "writable (inner c)" and "exec_future L run c = (c', as, x)" and "uncut run"
  shows "\<exists>ts. streams ts \<and> x \<noteq> Some Panic \<and>
    (says c c' ts \<and> x \<noteq> Some (Ok ()) \<or> says c c' (ts @ [EXEC_EXIT]) \<and> x = Some (Ok ()))"
proof -
  obtain c1 y where s: "send_chunks L (chunks run) c = (c1, y)" by fastforce
  from says_chunks [OF assms(1) s] obtain ts where y: "y \<noteq> Panic" and ts: "streams ts" "says c c1 ts" by blast
  show ?thesis
  proof (cases y)
    case (Ok u)
    show ?thesis
    proof (cases "ending run")
      case (Exited z)
      show ?thesis
      proof (cases z)
        case (Inr status)
        obtain c2 v where j: "send_json L EXEC_EXIT (exit_json (exit_code_of status)) c1 = (c2, v)" by fastforce
        with assms(2) s Ok Exited Inr have "c' = c2" "x = Some v" by (simp_all add: exec_future_def)
        with says_json [OF says_writable [OF ts(2)] j] ts says_trans [OF ts(2), of c2] show ?thesis
          by (intro exI [of _ ts]) fastforce
      qed (use assms(2) s Ok Exited ts in \<open>auto simp: exec_future_def\<close>)
    qed (use assms(2,3) s Ok ts in \<open>auto simp: exec_future_def uncut_def\<close>)
  qed (use assms(2) s y ts in \<open>auto simp: exec_future_def\<close>)
qed

lemma says_exec:
  assumes "writable (inner c)" and "run_one_exec L cfg run shell c = (c', as, x)" and "uncut run"
  shows "\<exists>ts. says c c' ts \<and> (\<exists>q. run_phases Ready ts = Some q) \<and> (x = Ok () \<longrightarrow> run_phases Ready ts = Some Ready)"
proof (cases rule: check_shell_cases [of "uni_debug L" "policy cfg" shell])
  case (denied msg)
  with assms says_json [OF assms(1), of L POLICY_DENIED "policy_denied_json msg"] show ?thesis
    by (auto simp: run_one_exec_def msg_type_defs split: prod.splits)
next
  case allowed
  have idle: ?thesis if "c' = c" and "x \<noteq> Ok ()"
    using that says_refl [OF assms(1)] by (intro exI [of _ "[]"]) simp
  show ?thesis
  proof (cases "length (shell_argv cfg) < 2 \<or> (\<exists>e. spawned run = Inl e)")
    case True
    with assms(2) allowed have "c' = c \<and> x \<noteq> Ok ()"
      by (auto simp: run_one_exec_def Let_def split: if_splits)
    then show ?thesis using idle by blast
  next
    case False
    then obtain pid where pid: "spawned run = Inr pid" and len: "\<not> length (shell_argv cfg) < 2"
      by (cases "spawned run") auto
    obtain c1 as' y where e: "exec_future L run c = (c1, as', y)" using prod_cases3 by blast
    from says_future [OF assms(1) e assms(3)] obtain ts where ts: "streams ts" "y \<noteq> Some Panic"
      "says c c1 ts \<and> y \<noteq> Some (Ok ()) \<or> says c c1 (ts @ [EXEC_EXIT]) \<and> y = Some (Ok ())" by blast
    note r = run_reply [OF ts(1)]
    show ?thesis
    proof (cases y)
      case (Some z)
      with assms(2) allowed pid len e have "c' = c1" "x = z" by (simp_all add: run_one_exec_def Let_def)
      with ts(3) r Some show ?thesis by auto
    next
      case None
      obtain c2 v where j: "send_json L EXEC_EXIT (exit_json 124) c1 = (c2, v)" by fastforce
      with assms(2) allowed pid len e None have "c' = c2" "x = v" by (simp_all add: run_one_exec_def Let_def)
      moreover have s: "says c c1 ts" using ts(3) None by simp
      ultimately show ?thesis
        using says_json [OF says_writable [OF s] j] says_trans [OF s, of c2] r by fastforce
    qed
  qed
qed

section \<open>The session\<close>

lemma says_auth:
  assumes "writable (inner c)" and "session_auth L w cfg env c = (c', x)"
  shows "\<exists>ts q. says c c' ts \<and> run_phases Greeting ts = Some q \<and> ((\<exists>e. x = Ok (Some e)) \<longrightarrow> q = Ready)"
proof (cases "load_authorized_keys L w (authorized_keys_path cfg)")
  case (Ok keys)
  obtain c1 y where ch: "send_json L AUTH_CHALLENGE (challenge_json L (nonce env) (session_id env)) c = (c1, y)"
    by fastforce
  obtain c2 z where rd: "read_frame c1 = (c2, z)" by fastforce
  have silent: ?thesis if "says c c' [AUTH_CHALLENGE]" and "\<And>e. x \<noteq> Ok (Some e)"
    using that by (intro exI [of _ "[AUTH_CHALLENGE]"] exI [of _ Challenged]) simp
  from says_json [OF assms(1) ch] show ?thesis
  proof (elim disjE exE conjE)
    fix e
    assume "y = Err e" and "says c c1 []"
    with assms(2) Ok ch show ?thesis
      by (intro exI [of _ "[]"] exI [of _ Greeting]) (auto simp: session_auth_def)
  next
    fix u
    assume y: "y = Ok u" and s: "says c c1 [AUTH_CHALLENGE]"
    have s2: "says c c2 [AUTH_CHALLENGE]"
      using says_trans [OF s says_read [OF says_writable [OF s] rd]] by simp
    have answer: ?thesis if "send_json L t j c2 = (c', v)" and "t = AUTH_RESULT \<or> t = ERROR"
      and "\<And>e. x = Ok (Some e) \<Longrightarrow> t = AUTH_RESULT \<and> is_ok v" for t j v
      using says_json [OF says_writable [OF s2] that(1)]
    proof (elim disjE exE conjE)
      fix a
      assume "says c2 c' [t]"
      then have "says c c' [AUTH_CHALLENGE, t]" using says_trans [OF s2] by fastforce
      with that(2,3) show ?thesis
        by (intro exI [of _ "[AUTH_CHALLENGE, t]"] exI [of _ "if t = AUTH_RESULT then Ready else Over"])
           (auto simp: msg_type_defs)
    next
      fix e
      assume "v = Err e" and "says c2 c' []"
      then have "says c c' [AUTH_CHALLENGE]" "\<And>e. x \<noteq> Ok (Some e)"
        using says_trans [OF s2] that(3) by fastforce+
      then show ?thesis by (rule silent)
    qed
    have "says c c' [AUTH_CHALLENGE] \<and> (\<forall>e. x \<noteq> Ok (Some e)) \<or>
      (\<exists>t j v. send_json L t j c2 = (c', v) \<and> (t = AUTH_RESULT \<or> t = ERROR) \<and>
        (\<forall>e. x = Ok (Some e) \<longrightarrow> t = AUTH_RESULT \<and> is_ok v))"
      using assms(2) Ok ch y rd s2
      by (auto simp: session_auth_def Let_def send_error_def send_auth_fail_def res_iff
          split: res.splits if_splits option.splits prod.splits) fastforce+
    then show ?thesis using silent answer by blast
  qed
qed (use assms in \<open>auto simp: session_auth_def intro!: exI [of _ "[]"] says_refl\<close>)

lemma says_loop:
  assumes "writable (inner c)" and "exec_loop L cfg rs i c = (c', as, x)" and "\<And>j. uncut (rs j)"
  shows "\<exists>ts q. says c c' ts \<and> run_phases Ready ts = Some q"
  using assms(1,2)
proof (induction "length (inp (inner c))" arbitrary: c i as rule: less_induct)
  case less
  note read = says_read [OF less.prems(1)]
  have simple: "run_phases Ready [] = Some Ready" "run_phases Ready [ERROR] = Some Over"
    by (simp_all add: msg_type_defs)
  from less.prems(2) show ?case
  proof (cases rule: exec_loop_cases)
    case (unread y)
    with read simple show ?thesis by blast
  next
    case (refused c1 f)
    note s1 = read [OF refused(1)]
    from says_json [OF says_writable [OF s1] refused(3) [unfolded send_error_def]] show ?thesis
      using says_trans [OF s1, of c'] simple by fastforce
  next
    case (last c1 f shell)
    note s1 = read [OF last(1)]
    from says_exec [OF says_writable [OF s1] last(4) assms(3)] show ?thesis
      using says_trans [OF s1, of c'] by fastforce
  next
    case (more c1 f shell c2 acts acts')
    note s1 = read [OF more(1)]
    obtain ts where ts: "says c1 c2 ts" "run_phases Ready ts = Some Ready"
      using says_exec [OF says_writable [OF s1] more(4) assms(3)] by auto
    have s2: "says c c2 ts" using says_trans [OF s1 ts(1)] by simp
    have "length (inp (inner c2)) < length (inp (inner c))"
      by (rule exec_loop_decreases [OF more(1) [symmetric] more(4) [symmetric]])
    from less.hyps [OF this says_writable [OF s2] more(6)] obtain us p where
      "says c2 c' us" "run_phases Ready us = Some p" by blast
    with says_trans [OF s2] ts(2) show ?thesis
      by (intro exI [of _ "ts @ us"] exI [of _ p]) (simp add: run_phases_append)
  qed
qed

section \<open>Properties\<close>

text \<open>
  C4. The server keeps to the protocol whatever the client does. For every input, also of a client that
  was not authenticated or does not follow the protocol, what a session sends on a connection whose
  writes succeed is a sequence of complete frames within the payload limit, and their types are a run
  of the protocol automaton: a challenge; one result; then for each command either a denial or output
  followed by one exit frame; nothing after an error frame. The hypothesis excludes a deadline that
  expires in the middle of a frame.
\<close>

theorem server_follows_protocol:
  assumes "run_session L w cfg env c = (c', acts, r)" and "writable (inner c)"
    and "\<And>i. uncut (runs env i)"
  shows "\<exists>fs q. sent (inner c') = sent (inner c) @ concat (map frame_enc fs) \<and>
    list_all (\<lambda>f. length (payload f) \<le> codec_limit c) fs \<and>
    run_phases Greeting (map msg_type fs) = Some q"
proof -
  obtain c1 x where a: "session_auth L w cfg env c = (c1, x)" by fastforce
  from says_auth [OF assms(2) a] obtain ts q where ts: "says c c1 ts" "run_phases Greeting ts = Some q"
    "\<And>e. x = Ok (Some e) \<Longrightarrow> q = Ready" by blast
  have "\<exists>ts q. says c c' ts \<and> run_phases Greeting ts = Some q"
  proof (cases "\<exists>e. x = Ok (Some e)")
    case True
    with assms(1) a have l: "exec_loop L cfg (runs env) 0 c1 = (c', acts, r)"
      by (auto simp: run_session_def)
    obtain us p where us: "says c1 c' us" "run_phases Ready us = Some p"
      using says_loop [OF says_writable [OF ts(1)] l assms(3)] by blast
    from says_trans [OF ts(1) us(1)] ts True us(2) show ?thesis
      by (intro exI [of _ "ts @ us"] exI [of _ p]) (auto simp: run_phases_append)
  next
    case False
    with assms(1) a have "c' = c1" by (auto simp: run_session_def split: res.splits option.splits)
    with ts show ?thesis by blast
  qed
  then show ?thesis by (auto simp: says_def)
qed

theorem server_follows_protocol_witness:
  "\<exists>c' acts fs q. run_session session_lib demo_server_fs demo_config demo_env demo_conn = (c', acts, Ok ()) \<and>
    sent (inner c') = concat (map frame_enc fs) \<and> run_phases Greeting (map msg_type fs) = Some q"
proof -
  obtain c' acts where r: "run_session session_lib demo_server_fs demo_config demo_env demo_conn = (c', acts, Ok ())"
    using demo_session by blast
  have "writable (inner demo_conn)" using demo_conn_simps(1) by (simp add: good_link_def)
  moreover have "uncut (runs demo_env i)" for i by (simp add: uncut_def demo_env_def)
  ultimately show ?thesis using server_follows_protocol [OF r] r by simp blast
qed

end
