(* ===== verification/Conversation.thy ===== *)
theory Conversation
  imports Causality
begin

text \<open>
  Bytes under way. Server and client run at the same time, and the network delivers what one has sent to the
  other in pieces of any size and in any order of the two directions. A state of the conversation is what
  has arrived at each end so far. The interface \<open>duplex\<close> says what two ends have to satisfy; for such ends
  every schedule of deliveries ends, and all of them end in the same state. The two sessions satisfy it.
\<close>

section \<open>Deliveries\<close>

text \<open>The first component has arrived at the server, the second one at the client.\<close>

inductive deliver :: "(bytes \<Rightarrow> bytes) \<Rightarrow> (bytes \<Rightarrow> bytes) \<Rightarrow> bytes \<times> bytes \<Rightarrow> bytes \<times> bytes \<Rightarrow> bool"
  for srv cli where
  to_server: "prefix (u @ b) (cli d) \<Longrightarrow> b \<noteq> [] \<Longrightarrow> deliver srv cli (u, d) (u @ b, d)"
| to_client: "prefix (d @ b) (srv u) \<Longrightarrow> b \<noteq> [] \<Longrightarrow> deliver srv cli (u, d) (u, d @ b)"

inductive_simps deliver_simps: "deliver srv cli (u, d) s"

definition arrives :: "(bytes \<Rightarrow> bytes) \<Rightarrow> (bytes \<Rightarrow> bytes) \<Rightarrow> bytes \<times> bytes \<Rightarrow> bool" where
  "arrives srv cli s \<longleftrightarrow> (deliver srv cli)\<^sup>*\<^sup>* ([], []) s"

definition quiet :: "(bytes \<Rightarrow> bytes) \<Rightarrow> (bytes \<Rightarrow> bytes) \<Rightarrow> bytes \<times> bytes \<Rightarrow> bool" where
  "quiet srv cli s \<longleftrightarrow> (\<nexists>t. deliver srv cli s t)"

text \<open>A pair of streams that is consistent with both ends.\<close>

definition agree :: "(bytes \<Rightarrow> bytes) \<Rightarrow> (bytes \<Rightarrow> bytes) \<Rightarrow> bytes \<times> bytes \<Rightarrow> bool" where
  "agree srv cli s \<longleftrightarrow> cli (snd s) = fst s \<and> srv (fst s) = snd s"

section \<open>The interface\<close>

locale duplex =
  fixes srv cli :: "bytes \<Rightarrow> bytes" and bound :: nat
  assumes srv_mono: "prefix u v \<Longrightarrow> prefix (srv u) (srv v)"
    and cli_mono: "prefix u v \<Longrightarrow> prefix (cli u) (cli v)"
    and cli_bound: "length (cli d) \<le> bound"
begin

lemma arrives_sent: "arrives srv cli (u, d) \<Longrightarrow> prefix u (cli d) \<and> prefix d (srv u)"
  unfolding arrives_def
proof (induction "(u, d)" arbitrary: u d rule: rtranclp_induct)
  case (step s)
  obtain u' d' where s: "s = (u', d')" by fastforce
  from step.hyps(2) step.hyps(3) [OF s] srv_mono [of u' u] cli_mono [of d' d] show ?case
    unfolding s by (auto simp: deliver_simps intro: prefix_order.trans)
qed simp

lemma quiet_agree: "arrives srv cli s \<Longrightarrow> quiet srv cli s \<longleftrightarrow> agree srv cli s"
proof (cases s)
  case (Pair u d)
  assume "arrives srv cli s"
  then have "prefix u (cli d)" "prefix d (srv u)" using arrives_sent Pair by simp_all
  then obtain b c where b: "cli d = u @ b" "srv u = d @ c" by (auto simp: prefix_def)
  have "quiet srv cli s \<longleftrightarrow> b = [] \<and> c = []"
    unfolding quiet_def Pair deliver_simps using b by auto
  then show ?thesis using b Pair by (auto simp: agree_def)
qed

text \<open>No schedule delivers more than any consistent pair of streams.\<close>

lemma arrives_below:
  assumes "arrives srv cli (u, d)" and "agree srv cli (x, y)"
  shows "prefix u x \<and> prefix d y"
  using assms(1) unfolding arrives_def
proof (induction "(u, d)" arbitrary: u d rule: rtranclp_induct)
  case (step s)
  obtain u' d' where s: "s = (u', d')" by fastforce
  from step.hyps(2) step.hyps(3) [OF s] srv_mono [of u' x] cli_mono [of d' y] assms(2) show ?case
    unfolding s agree_def by (auto simp: deliver_simps intro: prefix_order.trans)
qed simp

lemma deliver_wf: "wf {(t, s). deliver srv cli s t}"
proof (rule wf_subset)
  let ?R = "measures [\<lambda>(u, d). bound - length u, \<lambda>(u, d). length (srv u) - length d]"
  show "wf ?R" by simp
  have "(t, s) \<in> ?R" if "deliver srv cli s t" for s t
    using that
  proof (cases rule: deliver.cases)
    case (to_server u b d)
    then have "length (u @ b) \<le> bound" "0 < length b"
      using cli_bound [of d] prefix_length_le by fastforce+
    then show ?thesis unfolding to_server by (cases b) auto
  next
    case (to_client d b u)
    then have "length (d @ b) \<le> length (srv u)" "0 < length b"
      using prefix_length_le by fastforce+
    then show ?thesis unfolding to_client by (cases b) auto
  qed
  then show "{(t, s). deliver srv cli s t} \<subseteq> ?R" by blast
qed

lemma arrives_ends: "arrives srv cli s \<Longrightarrow> \<exists>t. (deliver srv cli)\<^sup>*\<^sup>* s t \<and> arrives srv cli t \<and> quiet srv cli t"
proof (induction s rule: wf_induct_rule [OF deliver_wf])
  case (1 s)
  show ?case
  proof (cases "quiet srv cli s")
    case False
    then obtain t where t: "deliver srv cli s t" by (auto simp: quiet_def)
    with "1.prems" have "arrives srv cli t" by (auto simp: arrives_def)
    with "1.IH" [of t] t obtain v where "(deliver srv cli)\<^sup>*\<^sup>* t v" "arrives srv cli v" "quiet srv cli v" by auto
    with t show ?thesis by (meson converse_rtranclp_into_rtranclp)
  qed (use "1.prems" in blast)
qed

text \<open>The least consistent pair is where every schedule ends.\<close>

lemma least_is_reached:
  assumes "agree srv cli (x, y)" and "\<And>u d. agree srv cli (u, d) \<Longrightarrow> prefix x u \<and> prefix y d"
    and "arrives srv cli s"
  shows "(deliver srv cli)\<^sup>*\<^sup>* s (x, y)"
proof -
  obtain t where t: "(deliver srv cli)\<^sup>*\<^sup>* s t" "arrives srv cli t" "quiet srv cli t"
    using arrives_ends [OF assms(3)] by blast
  obtain u d where ud: "t = (u, d)" by fastforce
  have "agree srv cli (u, d)" using quiet_agree [OF t(2)] t(3) ud by simp
  from assms(2) [OF this] arrives_below [OF t(2) [unfolded ud] assms(1)] have "t = (x, y)"
    by (simp add: ud prefix_order.eq_iff)
  with t(1) show ?thesis by simp
qed

lemma quiet_is_least:
  assumes "arrives srv cli (u, d)" and "quiet srv cli (u, d)"
  shows "agree srv cli (u, d)" and "agree srv cli (x, y) \<Longrightarrow> prefix u x \<and> prefix d y"
    and "arrives srv cli s \<Longrightarrow> (deliver srv cli)\<^sup>*\<^sup>* s (u, d)"
proof -
  show a: "agree srv cli (u, d)" using quiet_agree [OF assms(1)] assms(2) by simp
  show "prefix u x \<and> prefix d y" if "agree srv cli (x, y)" for x y
    using arrives_below [OF assms(1) that] .
  then show "arrives srv cli s \<Longrightarrow> (deliver srv cli)\<^sup>*\<^sup>* s (u, d)"
    using least_is_reached [OF a] by blast
qed

end

section \<open>Server and client\<close>

text \<open>What the server has sent when it has received \<open>u\<close>, and what the client has sent when it has received \<open>d\<close>.\<close>

definition server_out :: "('vk, 'sk) lib \<Rightarrow> fs \<Rightarrow> server_config \<Rightarrow> session_env \<Rightarrow> bytes \<Rightarrow> bytes" where
  "server_out L sw cfg env u = sent (inner (fst (run_session L sw cfg env (codec_new (pipe_end u)))))"

definition client_out :: "('vk, 'sk) lib \<Rightarrow> 'sk \<Rightarrow> path \<Rightarrow> str \<Rightarrow> client_world \<Rightarrow> bytes \<Rightarrow> bytes" where
  "client_out L g key_file shell w d =
     sent (inner (link (fst (client_session L g (pipe_end d) key_file shell (w\<lparr>link := codec_new (pipe_end d)\<rparr>)))))"

lemma pipe_end_feed: "pipe_end (u @ b) = feed b None (pipe_end u)"
  by (simp add: pipe_end_def feed_def)

lemma server_out_mono:
  assumes "prefix u v"
  shows "prefix (server_out L sw cfg env u) (server_out L sw cfg env v)"
proof -
  obtain b where v: "v = u @ b" using assms by (auto simp: prefix_def)
  have f: "codec_new (pipe_end v) = feed_codec b None (codec_new (pipe_end u))"
    by (simp add: v pipe_end_feed codec_new_def feed_codec_def)
  obtain c acts r where 1: "run_session L sw cfg env (codec_new (pipe_end u)) = (c, acts, r)"
    using prod_cases3 by blast
  obtain d acts' x where 2: "run_session L sw cfg env (codec_new (pipe_end v)) = (d, acts', x)"
    using prod_cases3 by blast
  from session_feed [OF 1 2 [unfolded f]] 1 2 show ?thesis by (simp add: server_out_def)
qed

text \<open>The client sends at most two frames: \<open>quota n\<close> bounds what an action sends by the size of \<open>n\<close> frames.\<close>

definition quota :: "nat \<Rightarrow> ('e, 'a) act \<Rightarrow> bool" where
  "quota n m \<longleftrightarrow> (\<forall>w. codec_limit (link (fst (m w))) = codec_limit (link w) \<and>
     length (sent (inner (link (fst (m w))))) \<le> length (sent (inner (link w))) + n * (9 + codec_limit (link w)))"

named_theorems quota_intros \<open>actions that send a bounded number of frames\<close>

lemma quota_mono: "quota n m \<Longrightarrow> n \<le> k \<Longrightarrow> quota k m"
  unfolding quota_def by (meson add_left_mono le_trans mult_le_mono1)

lemma quota_and_then:
  assumes "quota n m" and "\<And>a. quota k (f a)"
  shows "quota (n + k) (and_then m f)"
  unfolding quota_def
proof
  fix w :: client_world
  obtain v r where m: "m w = (v, r)" by fastforce
  have v: "codec_limit (link v) = codec_limit (link w)"
    "length (sent (inner (link v))) \<le> length (sent (inner (link w))) + n * (9 + codec_limit (link w))"
    using assms(1) [unfolded quota_def, rule_format, of w] m by simp_all
  show "codec_limit (link (fst (and_then m f w))) = codec_limit (link w) \<and>
    length (sent (inner (link (fst (and_then m f w))))) \<le>
      length (sent (inner (link w))) + (n + k) * (9 + codec_limit (link w))"
  proof (cases r)
    case (Ok a)
    with m have "and_then m f w = f a v" by (simp add: and_then_def)
    with v assms(2) [of a, unfolded quota_def, rule_format, of v] show ?thesis
      by (simp add: distrib_right)
  qed (use v m in \<open>simp_all add: and_then_def distrib_right\<close>)
qed

lemma quota_if: "quota n a \<Longrightarrow> quota n b \<Longrightarrow> quota n (if c then a else b)"
  by simp

lemma quota_silent: "keeps link m \<Longrightarrow> quota n m"
  by (simp add: quota_def keeps_def)

lemma keeps_link [keeps_intros]:
  "keeps link (eprintln s)" "keeps link (write_stdout raw)" "keeps link (write_stderr raw)"
  "keeps link (parse_json L de b)" "keeps link (handle_frame L f)"
  by (simp_all add: keeps_def eprintln_def eprint_def write_stdout_def write_stderr_def parse_json_def
      attempt_def handle_frame_link [OF prod.collapse [symmetric]] split: option.split)

lemma quota_recv: "quota 0 recv"
proof -
  have "codec_limit c = codec_limit d \<and> sent (inner c) = sent (inner d)" if "read_frame d = (c, r)" for c d r
    using read_frame_rest [OF that] by (simp add: codec_limit_def)
  then show ?thesis
    by (auto simp: quota_def recv_def split: prod.split)
qed

lemma write_frame_length:
  assumes "write_frame t p c = (c', x)"
  shows "codec_limit c' = codec_limit c \<and> length (sent (inner c')) \<le> length (sent (inner c)) + (9 + codec_limit c)"
proof (cases "length p \<le> codec_limit c")
  case True
  have w: "write_all b s = (s', y) \<Longrightarrow> length (sent s') \<le> length (sent s) + length b" for b s s' y
    using write_all_prefix [of b s s' y] prefix_length_le by fastforce
  have "length (sent (inner c')) \<le> length (sent (inner c)) + (9 + length p)"
    using assms
    by (auto simp: write_frame_def Let_def wire_simps dest!: w split: prod.splits sum.splits if_splits)
  with True write_frame_rest [OF assms] show ?thesis by (simp add: codec_limit_def)
next
  case False
  then have "\<exists>e. write_frame t p c = (c, Err e)" by (intro write_frame_too_large) simp
  with assms show ?thesis by auto
qed

lemma quota_send: "quota 1 (send t p)"
  by (auto simp: quota_def send_def dest: write_frame_length split: prod.split)

lemma quota_client_loop: "quota 0 (client_loop L)"
proof -
  have q: "quota 0 ((loop_body L ^^ n) (ret 0))" for n
  proof (induction n)
    case (Suc n)
    have "quota (0 + (0 + 0)) (loop_body L ((loop_body L ^^ n) (ret 0)))"
      unfolding loop_body_def [of L "(loop_body L ^^ n) (ret 0)"]
      by (intro quota_and_then quota_recv) (auto intro: quota_silent keeps_intros Suc split: option.split)
    then show ?case by simp
  qed (auto intro: quota_silent keeps_intros)
  show ?thesis
    unfolding quota_def
  proof
    fix w :: client_world
    have "client_loop L w = (loop_body L ^^ Suc (length (inp (inner (link w))))) (ret 0) w"
      by (rule client_loop_unrolled [symmetric]) simp
    with q [of "Suc (length (inp (inner (link w))))", unfolded quota_def, rule_format, of w]
    show "codec_limit (link (fst (client_loop L w))) = codec_limit (link w) \<and>
        length (sent (inner (link (fst (client_loop L w))))) \<le>
          length (sent (inner (link w))) + 0 * (9 + codec_limit (link w))"
      by simp
  qed
qed

lemma quota_client_auth: "quota 1 (client_auth L sk)"
proof -
  have "quota (0 + (0 + (0 + (1 + (0 + (0 + 0)))))) (client_auth L sk)"
    unfolding client_auth_def client_result_def Let_def
    by (intro quota_and_then quota_recv quota_send quota_if) (auto intro!: quota_silent keeps_intros)
  then show ?thesis by simp
qed

text \<open>The session on a given connection; the key file is read before the connection is used.\<close>

definition on_link :: "('vk, 'sk) lib \<Rightarrow> 'sk \<Rightarrow> str \<Rightarrow> (boxed_error, int) act" where
  "on_link L sk shell = and_then (client_auth L sk) (\<lambda>_.
     and_then (send EXEC_SHELL (json_write L (exec_json shell))) (\<lambda>_. client_loop L))"

lemma client_session_on_link:
  "load_or_create_signing_key L g key_file (disk w) = (d, Ok sk) \<Longrightarrow>
   client_session L g s key_file shell w = on_link L sk shell (w\<lparr>disk := d, link := codec_new s\<rparr>)"
  by (simp add: client_session_def on_link_def and_then_def [of "act_err _ _"] and_then_def [of "use_link _"]
      act_err_def on_disk_def use_link_def)

lemma client_out_key:
  "load_or_create_signing_key L g key_file (disk w) = (d', Ok sk) \<Longrightarrow> client_out L g key_file shell w d =
     sent (inner (link (fst (on_link L sk shell (w\<lparr>disk := d', link := codec_new (pipe_end d)\<rparr>)))))"
  by (simp add: client_out_def client_session_on_link)

lemma client_out_cases:
  obtains (no_key) "\<And>d. client_out L g key_file shell w d = []"
  | (key) d' sk where "load_or_create_signing_key L g key_file (disk w) = (d', Ok sk)"
proof -
  obtain d' k where k: "load_or_create_signing_key L g key_file (disk w) = (d', k)" by fastforce
  show thesis
    by (cases k) (use k no_key key in \<open>simp_all add: client_out_def client_session_def and_then_def act_err_def
        on_disk_def codec_new_def\<close>)
qed

lemma on_link_causal [acausal_intros]: "acausal bs e (on_link L sk shell)"
  unfolding on_link_def by (intro acausal_intros)

lemma client_out_mono:
  assumes "prefix u v"
  shows "prefix (client_out L g key_file shell w u) (client_out L g key_file shell w v)"
proof (cases rule: client_out_cases [of L g key_file shell w])
  case (key d' sk)
  obtain b where v: "v = u @ b" using assms by (auto simp: prefix_def)
  let ?u = "w\<lparr>disk := d', link := codec_new (pipe_end u)\<rparr>"
  have f: "w\<lparr>disk := d', link := codec_new (pipe_end v)\<rparr> = feed_world b None ?u"
    by (simp add: v pipe_end_feed feed_world_def feed_codec_def codec_new_def)
  have "acausal b None (on_link L sk shell)" by (rule on_link_causal)
  from cli.causalD(2) [OF this prod.collapse [symmetric], of ?u] show ?thesis
    unfolding client_out_key [OF key] f by (simp add: shown_def said_def)
qed simp

lemma client_out_bound: "length (client_out L g key_file shell w d) \<le> 2 * (9 + 1048576)"
proof (cases rule: client_out_cases [of L g key_file shell w])
  case (key d' sk)
  let ?u = "w\<lparr>disk := d', link := codec_new (pipe_end d)\<rparr>"
  have "quota (1 + (1 + 0)) (on_link L sk shell)"
    unfolding on_link_def by (intro quota_and_then quota_client_auth quota_send quota_client_loop)
  from this [unfolded quota_def, rule_format, of ?u] show ?thesis
    unfolding client_out_key [OF key] by (simp add: codec_limit_default) (simp add: codec_new_def)
qed simp

interpretation talk: duplex "server_out L sw cfg env" "client_out L g key_file shell w" "2 * (9 + 1048576)"
  for L :: "('vk, 'sk) lib" and sw cfg env g key_file shell w
  by unfold_locales (simp_all only: server_out_mono client_out_mono client_out_bound)

section \<open>Properties\<close>

text \<open>
  C20. A conversation ends. For any server and client (also one that is not registered, whose command is
  refused, or whose documents the other end cannot read) the relation of the deliveries is well-founded:
  there is no infinite sequence of deliveries, however the network cuts and orders the bytes.
\<close>

theorem conversation_ends:
  "wf {(t, s). deliver (server_out L sw cfg env) (client_out L g key_file shell w) s t}"
  by (rule talk.deliver_wf)

text \<open>
  C8. The order of the deliveries does not matter. When nothing is left to deliver, what has arrived at each
  end is exactly what the other end has sent; it is the least pair of streams with this property; and
  every other schedule, however far it has come, can be continued to the same state. So the outcome of a
  session is a function of the two programs and not of the timing of the network.
\<close>

theorem conversation_outcome:
  assumes "arrives (server_out L sw cfg env) (client_out L g key_file shell w) (u, d)"
    and "quiet (server_out L sw cfg env) (client_out L g key_file shell w) (u, d)"
  shows "server_out L sw cfg env u = d \<and> client_out L g key_file shell w d = u \<and>
    (\<forall>x y. server_out L sw cfg env x = y \<and> client_out L g key_file shell w y = x \<longrightarrow> prefix u x \<and> prefix d y) \<and>
    (\<forall>s. arrives (server_out L sw cfg env) (client_out L g key_file shell w) s \<longrightarrow>
      (deliver (server_out L sw cfg env) (client_out L g key_file shell w))\<^sup>*\<^sup>* s (u, d))"
  using talk.quiet_is_least [OF assms] by (simp add: agree_def)

end
