(* ===== verification/Exchange.thy ===== *)
theory Exchange
  imports Conversation
begin

text \<open>
  Client and server connected to each other. An exchange is a pair of byte streams that is consistent with
  both ends (the server, reading \<open>up\<close>, sends \<open>down\<close>, and the client, reading \<open>down\<close>, sends \<open>up\<close> and closes the
  connection) and that every schedule of deliveries leads to. TLS carries the streams unchanged, and is
  not modelled.
\<close>

section \<open>The setting\<close>

definition crypto_ok :: "('vk, 'sk) lib \<Rightarrow> bool" where
  "crypto_ok L \<longleftrightarrow> hex_spec L \<and> b64_spec L \<and> vk_spec L \<and> sign_spec L"

text \<open>The server has the public files of the agents \<open>sks\<close> in its list and a usable shell command.\<close>

definition server_ready :: "('vk, 'sk) lib \<Rightarrow> fs \<Rightarrow> server_config \<Rightarrow> 'sk list \<Rightarrow> bool" where
  "server_ready L sw cfg sks \<longleftrightarrow> sks \<noteq> [] \<and> 2 \<le> length (shell_argv cfg) \<and>
     read_to_string sw (authorized_keys_path cfg) = Ok (concat (map (public_body L) sks))"

text \<open>No other registered key has the digest of the agent's key.\<close>

definition distinguished :: "('vk, 'sk) lib \<Rightarrow> 'sk \<Rightarrow> 'sk list \<Rightarrow> bool" where
  "distinguished L sk sks \<longleftrightarrow> (\<forall>sk' \<in> set sks. sha256 L (vk_to_bytes L (verifying_key L sk'))
     = sha256 L (vk_to_bytes L (verifying_key L sk)) \<longrightarrow> verifying_key L sk' = verifying_key L sk)"

text \<open>The documents of the authentication are read as written and fit into frames.\<close>

definition auth_documents ::
    "('vk, 'sk) lib \<Rightarrow> server_config \<Rightarrow> session_env \<Rightarrow> 'sk \<Rightarrow> 'sk list \<Rightarrow> bool" where
  "auth_documents L cfg env sk sks \<longleftrightarrow>
     readable L (challenge_json L (nonce env) (session_id env)) \<and>
     readable L (response_json (ed25519_fingerprint_hex L (verifying_key L sk))
       (sign_auth_message L sk (signing_bytes (nonce env) (session_id env)))) \<and>
     (\<forall>sk' \<in> set sks. readable L (result_json cfg L (agent_entry L sk')))"

definition exchange ::
    "('vk, 'sk) lib \<Rightarrow> fs \<Rightarrow> server_config \<Rightarrow> session_env \<Rightarrow> 'sk \<Rightarrow> path \<Rightarrow> str \<Rightarrow> client_world \<Rightarrow>
     action list \<Rightarrow> (boxed_error, unit) res \<Rightarrow> client_world \<Rightarrow> (boxed_error, int) res \<Rightarrow> bool" where
  "exchange L sw cfg env g key_file shell w acts r w' x \<longleftrightarrow>
     (\<exists>up down sc. run_session L sw cfg env (codec_new (pipe_end up)) = (sc, acts, r) \<and>
        sent (inner sc) = down \<and>
        client_session L g (pipe_end down) key_file shell w = (w', x) \<and> sent (inner (link w')) = up \<and>
        (\<forall>s. arrives (server_out L sw cfg env) (client_out L g key_file shell w) s \<longrightarrow>
          (deliver (server_out L sw cfg env) (client_out L g key_file shell w))\<^sup>*\<^sup>* s (up, down)))"

text \<open>A consistent pair is the exchange if no consistent pair has a shorter stream to the server.\<close>

lemma exchangeI:
  assumes "run_session L sw cfg env (codec_new (pipe_end up)) = (sc, acts, r)"
    and "client_session L g (pipe_end (sent (inner sc))) key_file shell w = (w', x)"
    and "sent (inner (link w')) = up"
    and "load_or_create_signing_key L g key_file (disk w) = (d, Ok sk)"
    and least: "\<And>u. prefix (client_out L g key_file shell w (server_out L sw cfg env u)) u \<Longrightarrow> prefix up u"
  shows "exchange L sw cfg env g key_file shell w acts r w' x"
proof -
  let ?S = "server_out L sw cfg env" and ?C = "client_out L g key_file shell w" and ?down = "sent (inner sc)"
  have S: "?S up = ?down" using assms(1) by (simp add: server_out_def)
  have C: "?C ?down = up"
    using assms(2,3) by (simp add: client_out_key [OF assms(4)] client_session_on_link [OF assms(4)])
  have "prefix up u \<and> prefix ?down d" if "agree ?S ?C (u, d)" for u d
  proof -
    from that have "?C d = u" "?S u = d" by (simp_all add: agree_def)
    then have "prefix up u" using least [of u] by simp
    with server_out_mono [OF this, of L sw cfg env] S \<open>?S u = d\<close> show ?thesis by simp
  qed
  then have "(deliver ?S ?C)\<^sup>*\<^sup>* s (up, ?down)" if "arrives ?S ?C s" for s
    using talk.least_is_reached [OF _ _ that, of up ?down] S C by (simp add: agree_def)
  with assms(1,2,3) show ?thesis unfolding exchange_def by blast
qed

section \<open>A command that is answered\<close>

lemma codec_new_pipe [simp]:
  "good_link (codec_new (pipe_end bs))" "inp (inner (codec_new (pipe_end bs))) = bs"
  "inp_end (inner (codec_new (pipe_end bs))) = None" "sent (inner (codec_new (pipe_end bs))) = []"
  by (simp_all add: good_link_def codec_limit_default) (simp_all add: codec_new_def)

text \<open>The first thing on the wire is the challenge, and the client answers it as soon as it has arrived.\<close>

lemma server_greets:
  assumes "load_authorized_keys L sw (authorized_keys_path cfg) = Ok keys"
    and "fits L (challenge_json L (nonce env) (session_id env))"
  shows "prefix (frame_enc (challenge_frame L env)) (server_out L sw cfg env u)"
proof -
  let ?c = "codec_new (pipe_end [])"
  obtain c' where "read_frame (emit [challenge_frame L env] ?c) = (c', Err UnexpectedEof)"
    "sent (inner c') = frame_enc (challenge_frame L env)"
    using read_frame_end [of "emit [challenge_frame L env] ?c"] by auto
  moreover have "send_json L AUTH_CHALLENGE (challenge_json L (nonce env) (session_id env)) ?c =
      (emit [challenge_frame L env] ?c, Ok ())"
    using assms(2) by (simp add: send_json_emit challenge_frame_def)
  ultimately have "server_out L sw cfg env [] = frame_enc (challenge_frame L env)"
    using assms(1) by (simp add: server_out_def run_session_def session_auth_def)
  with server_out_mono [of "[]" u L sw cfg env] show ?thesis by simp
qed

lemma client_responds:
  assumes "b64_spec L" and "load_or_create_signing_key L g key_file (disk w) = (d, Ok sk)"
    and "readable L (challenge_json L (nonce env) (session_id env))"
    and "length (payload (response_frame L sk (nonce env) (session_id env))) \<le> 1048576"
  shows "prefix (frame_enc (response_frame L sk (nonce env) (session_id env)))
    (client_out L g key_file shell w (frame_enc (challenge_frame L env) @ r))"
proof -
  let ?rf = "response_frame L sk (nonce env) (session_id env)" and ?in = "frame_enc (challenge_frame L env) @ r"
  let ?u = "w\<lparr>disk := d, link := codec_new (pipe_end ?in)\<rparr>"
  let ?v = "?u\<lparr>link := after_read r (emit [?rf] (link ?u))\<rparr>"
  let ?rest = "\<lambda>m. and_then m (\<lambda>_.
    and_then (send EXEC_SHELL (json_write L (exec_json shell))) (\<lambda>_. client_loop L))"
  have "client_auth L sk ?u = client_result L ?v"
    using client_auth_answers [OF assms(1) _ _ assms(3,4), of ?u r] by simp
  then have "on_link L sk shell ?u = ?rest (client_result L) ?v"
    by (simp add: on_link_def and_then_def [of "client_auth L sk"] and_then_def [of "client_result L"])
  moreover have "acausal [] None (?rest (client_result L))" by (intro acausal_intros)
  from cli.causalD(1) [OF this prod.collapse [symmetric], of ?v]
  have "shown ?v (fst (?rest (client_result L) ?v))" .
  ultimately show ?thesis by (simp add: client_out_key [OF assms(2)] shown_def said_def)
qed

lemma server_grants:
  assumes "load_authorized_keys L sw (authorized_keys_path cfg) = Ok keys" and "2 \<le> length (shell_argv cfg)"
    and "valid_response L keys env resp k" and "length (payload resp) \<le> 1048576"
    and "length (payload (challenge_frame L env)) \<le> 1048576"
    and "length (payload (granted_frame L cfg k)) \<le> 1048576"
    and "prefix (frame_enc resp) u"
  shows "prefix (concat (map frame_enc [challenge_frame L env, granted_frame L cfg k])) (server_out L sw cfg env u)"
proof -
  obtain c acts where "run_session L sw cfg env (codec_new (pipe_end (frame_enc resp))) = (c, acts, Ok ())"
    "sent (inner c) = concat (map frame_enc [challenge_frame L env, granted_frame L cfg k])"
    using session_serves_client [OF _ assms(1) _ _ assms(2-6), of "codec_new (pipe_end (frame_enc resp))" "[]"]
    by auto
  with server_out_mono [OF assms(7), of L sw cfg env] show ?thesis by (simp add: server_out_def)
qed

lemma client_commands:
  assumes "b64_spec L" and "load_or_create_signing_key L g key_file (disk w) = (d, Ok sk)"
    and "readable L (challenge_json L (nonce env) (session_id env))" and "readable L (result_json cfg L k)"
    and "length (payload (response_frame L sk (nonce env) (session_id env))) \<le> 1048576"
    and "fits L (exec_json shell)"
  shows "prefix (concat (map frame_enc [response_frame L sk (nonce env) (session_id env), exec_request L shell]))
    (client_out L g key_file shell w (concat (map frame_enc [challenge_frame L env, granted_frame L cfg k]) @ r))"
proof -
  let ?rf = "response_frame L sk (nonce env) (session_id env)"
  let ?in = "concat (map frame_enc [challenge_frame L env, granted_frame L cfg k]) @ r"
  let ?u = "w\<lparr>disk := d, link := codec_new (pipe_end ?in)\<rparr>"
  let ?v = "?u\<lparr>link := after_read r (emit [?rf] (link ?u))\<rparr>"
  let ?x = "?u\<lparr>link := emit [exec_request L shell] (link ?v)\<rparr>"
  have "client_auth L sk ?u = (?v, Ok ())"
    using client_auth_good [OF assms(1) _ _ assms(3-5), of ?u r] by simp
  moreover have "send EXEC_SHELL (json_write L (exec_json shell)) ?v = (?x, Ok ())"
    using send_good [of ?v "json_write L (exec_json shell)" EXEC_SHELL] assms(6)
    by (simp add: fits_def exec_request_def shell_json_eq)
  ultimately have "on_link L sk shell ?u = client_loop L ?x" by (simp add: on_link_def and_then_def)
  moreover have "shown ?x (fst (client_loop L ?x))"
    by (rule cli.causalD(1) [OF client_loop_causal [of "[]" None L] prod.collapse [symmetric]])
  ultimately show ?thesis by (simp add: client_out_key [OF assms(2)] shown_def said_def)
qed

text \<open>Challenge, response, result and command follow from each other, so every schedule delivers them.\<close>

lemma exchange_least:
  assumes "b64_spec L" and keys: "load_authorized_keys L sw (authorized_keys_path cfg) = Ok keys"
    and argv: "2 \<le> length (shell_argv cfg)" and k: "valid_response L keys env (response_frame L sk (nonce env) (session_id env)) k"
    and resp: "length (payload (response_frame L sk (nonce env) (session_id env))) \<le> 1048576"
    and docs: "readable L (challenge_json L (nonce env) (session_id env))" and kres: "readable L (result_json cfg L k)"
    and load: "load_or_create_signing_key L g key_file (disk w) = (d, Ok sk)" and cmd: "readable L (exec_json shell)"
    and u: "prefix (client_out L g key_file shell w (server_out L sw cfg env u)) u"
  shows "prefix (concat (map frame_enc [response_frame L sk (nonce env) (session_id env), exec_request L shell])) u"
proof -
  let ?resp = "response_frame L sk (nonce env) (session_id env)"
  have fit: "fits L (challenge_json L (nonce env) (session_id env))" "fits L (exec_json shell)"
    "length (payload (challenge_frame L env)) \<le> 1048576" "length (payload (granted_frame L cfg k)) \<le> 1048576"
    using docs cmd kres by (simp_all add: challenge_frame_def granted_frame_eq readable_def fits_def)
  obtain r1 where r1: "server_out L sw cfg env u = frame_enc (challenge_frame L env) @ r1"
    using server_greets [OF keys fit(1)] by (auto simp: prefix_def)
  have "prefix (frame_enc ?resp) u"
    using client_responds [OF assms(1) load docs resp, of shell r1] u unfolding r1 by (rule prefix_order.trans)
  then obtain r2 where r2: "server_out L sw cfg env u =
      concat (map frame_enc [challenge_frame L env, granted_frame L cfg k]) @ r2"
    using server_grants [OF keys argv k resp fit(3,4)] by (auto simp: prefix_def)
  show ?thesis
    using client_commands [OF assms(1) load docs kres resp fit(2), of r2] u unfolding r2
    by (rule prefix_order.trans)
qed

lemma exchange_answered:
  assumes "crypto_ok L" and "server_ready L sw cfg sks" and "sk \<in> set sks" and "distinguished L sk sks"
    and "auth_documents L cfg env sk sks" and "can_print w"
    and "load_or_create_signing_key L g key_file (disk w) = (d, Ok sk)"
    and "readable L (exec_json shell)" and "allowed L cfg shell \<longrightarrow> clean_run (runs env 0)"
    and reply: "exec_reply L cfg (runs env 0) shell = map (chunk_frame L) chs @ [f]"
    and "\<forall>ch \<in> set chs. readable_chunk L ch" and "closes L f fin n"
    and fin: "\<And>v. link (fin v) = link v"
  shows "\<exists>acts c. exchange L sw cfg env g key_file shell w acts (Ok ())
      (fin ((fold print_chunk chs (w\<lparr>disk := d\<rparr>))\<lparr>link := c\<rparr>)) (Ok n) \<and>
    starts acts = map (shell_start cfg) (filter (allowed L cfg) [shell]) \<and>
    sent (inner c) = concat (map frame_enc [response_frame L sk (nonce env) (session_id env), exec_request L shell])"
proof -
  let ?resp = "response_frame L sk (nonce env) (session_id env)" and ?keys = "map (agent_entry L) sks"
  let ?up = "frame_enc ?resp @ concat (map frame_enc (map (exec_request L) [shell]))"
  have spec: "hex_spec L" "b64_spec L" "vk_spec L" "sign_spec L" using assms(1) by (simp_all add: crypto_ok_def)
  have keys: "load_authorized_keys L sw (authorized_keys_path cfg) = Ok ?keys" and argv: "2 \<le> length (shell_argv cfg)"
    using assms(2) spec by (simp_all add: server_ready_def agents_load)
  from assms(5) have docs: "readable L (challenge_json L (nonce env) (session_id env))"
    and resp: "json_reads L (response_json (ed25519_fingerprint_hex L (verifying_key L sk))
      (sign_auth_message L sk (signing_bytes (nonce env) (session_id env))))" "length (payload ?resp) \<le> 1048576"
    and res: "\<forall>k \<in> set ?keys. readable L (result_json cfg L k)"
    by (simp_all add: auth_documents_def readable_def response_frame_def fits_def)
  obtain k where k: "valid_response L ?keys env ?resp k" "k \<in> set ?keys"
    using agent_response_valid [OF spec(1,2,4) assms(3) _ resp(1)] assms(4) by (auto simp: distinguished_def)
  from res k(2) have kres: "readable L (result_json cfg L k)" by blast
  have fit: "length (payload (challenge_frame L env)) \<le> 1048576" "length (payload (granted_frame L cfg k)) \<le> 1048576"
    using docs kres by (simp_all add: challenge_frame_def granted_frame_eq readable_def fits_def)
  have "reply_fits L cfg (runs env 0) shell"
    using assms(11,12) by (auto simp: reply_fits_def reply list_all_iff readable_chunk_def closes_def)
  then have serves: "serves L cfg (runs env 0) shell"
    using assms(8,9) by (simp add: serves_def readable_def shell_json_eq)
  obtain sc acts where server: "run_session L sw cfg env (codec_new (pipe_end ?up)) = (sc, acts, Ok ())"
    "sent (inner sc) = concat (map frame_enc ([challenge_frame L env, granted_frame L cfg k] @
      map (chunk_frame L) chs @ [f]))"
    and st: "starts acts = map (shell_start cfg) (filter (allowed L cfg) [shell])"
    using session_serves_client [OF _ keys _ _ argv k(1) resp(2) fit,
        of "codec_new (pipe_end ?up)" "[shell]"] serves reply by auto
  let ?down = "sent (inner sc)"
  have "\<exists>c. client_session L g (pipe_end ?down) key_file shell w =
      (fin ((fold print_chunk chs (w\<lparr>disk := d\<rparr>))\<lparr>link := c\<rparr>), Ok n) \<and>
    sent (inner c) = sent (pipe_end ?down) @ concat (map frame_enc [?resp, exec_request L shell])"
    by (rule client_session_closes [OF spec(2) _ assms(6,7) _ docs kres resp(2) _ assms(11,12), where r = "[]"])
       (use assms(8) server(2) in \<open>simp_all add: readable_def\<close>)
  then obtain c where client: "client_session L g (pipe_end ?down) key_file shell w =
      (fin ((fold print_chunk chs (w\<lparr>disk := d\<rparr>))\<lparr>link := c\<rparr>), Ok n)" "sent (inner c) = ?up"
    by auto
  have least: "prefix ?up u" if "prefix (client_out L g key_file shell w (server_out L sw cfg env u)) u" for u
    using exchange_least [OF spec(2) keys argv k(1) resp(2) docs kres assms(7,8) that] by simp
  have "exchange L sw cfg env g key_file shell w acts (Ok ())
      (fin ((fold print_chunk chs (w\<lparr>disk := d\<rparr>))\<lparr>link := c\<rparr>)) (Ok n)"
    using client(2) by (intro exchangeI [OF server(1) client(1) _ assms(7) least]) (simp_all add: fin)
  with st client(2) show ?thesis by fastforce
qed

text \<open>What \<open>sao run\<close> should exit with for what happened to the command on the server.\<close>

definition exit_status :: "exec_run \<Rightarrow> int" where
  "exit_status run = (case ending run of Exited (Inr status) \<Rightarrow> exit_code_of status | _ \<Rightarrow> 124)"

lemma command_answered:
  assumes "crypto_ok L" and "server_ready L sw cfg sks" and "sk \<in> set sks" and "distinguished L sk sks"
    and "auth_documents L cfg env sk sks" and "can_print w"
    and "load_or_create_signing_key L g key_file (disk w) = (d, Ok sk)"
    and "readable L (exec_json shell)" and "allowed L cfg shell" and "clean_run (runs env 0)"
    and "\<forall>ch \<in> set (chunks (runs env 0)). readable_chunk L ch"
    and "readable_exit L (exit_status (runs env 0))"
  shows "\<exists>acts c. exchange L sw cfg env g key_file shell w acts (Ok ())
      ((fold print_chunk (chunks (runs env 0)) (w\<lparr>disk := d\<rparr>))\<lparr>link := c\<rparr>) (Ok (exit_status (runs env 0))) \<and>
    starts acts = [shell_start cfg shell] \<and>
    sent (inner c) = concat (map frame_enc [response_frame L sk (nonce env) (session_id env), exec_request L shell])"
proof -
  have "exec_reply L cfg (runs env 0) shell =
      map (chunk_frame L) (chunks (runs env 0)) @ [exit_frame L (exit_status (runs env 0))]"
    using assms(9) by (auto simp: exec_reply_def allowed_def exit_status_def split: res.splits)
  from exchange_answered [OF assms(1-8) _ this assms(11) closes_exit [OF assms(12)]] assms(9,10)
  show ?thesis by simp
qed

section \<open>An agent that is not registered\<close>

lemma unregistered_not_found:
  assumes "hex_spec L" and "\<forall>sk' \<in> set sks. sha256 L (vk_to_bytes L (verifying_key L sk'))
      \<noteq> sha256 L (vk_to_bytes L (verifying_key L sk))"
  shows "find_key L (map (agent_entry L) sks) (ed25519_fingerprint_hex L (verifying_key L sk)) = None"
proof -
  let ?fp = "ed25519_fingerprint_hex L (verifying_key L sk)"
  have "list_all graphic ?fp" "to_lowercase (uni_lower L) ?fp = ?fp"
    using assms(1) by (simp_all add: ed25519_fingerprint_hex_def hex_text(2) hex_to_lowercase)
  moreover have "fingerprint_hex (agent_entry L sk') \<noteq> ?fp" if "sk' \<in> set sks" for sk'
    using assms that by (simp add: agent_entry_def ed25519_fingerprint_hex_def hex_encode_inject)
  ultimately show ?thesis by (auto simp: find_key_def find_None_iff trim_graphic)
qed

definition unknown_json :: json where
  "unknown_json = auth_fail_json ''UNKNOWN_KEY'' ''fingerprint not in authorized_keys''"

lemma session_rejects_unknown:
  assumes "good_link c" and "load_authorized_keys L w (authorized_keys_path cfg) = Ok keys"
    and "inp (inner c) = frame_enc resp @ r" and "length (payload resp) \<le> 1048576"
    and "msg_type resp = AUTH_RESPONSE" and "from_slice L de_auth_response (payload resp) = Some ar"
    and "ar_key_type ar = KEY_TYPE_ED25519" and "find_key L keys (ar_fingerprint ar) = None"
    and "fits L (challenge_json L (nonce env) (session_id env))" and "fits L unknown_json"
  shows "run_session L w cfg env c = (after_read r (emit [challenge_frame L env,
    \<lparr>msg_type = AUTH_RESULT, payload = json_write L unknown_json\<rparr>] c), [], Ok ())"
proof -
  let ?c1 = "emit [challenge_frame L env] c"
  have "send_json L AUTH_CHALLENGE (challenge_json L (nonce env) (session_id env)) c = (?c1, Ok ())"
    using assms(1,9) by (simp add: send_json_emit challenge_frame_def)
  moreover have "read_frame ?c1 = (after_read r ?c1, Ok resp)"
    using assms(1,3,4) by (simp add: read_frame_good)
  ultimately show ?thesis
    using assms(1,2,5-8,10)
    by (simp add: run_session_def session_auth_def Let_def send_auth_fail_def send_json_emit unknown_json_def)
qed

lemma client_rejected:
  assumes "b64_spec L" and "writable s"
    and "load_or_create_signing_key L g key_file (disk w) = (d, Ok sk)"
    and "inp s = concat (map frame_enc [challenge_frame L env,
      \<lparr>msg_type = AUTH_RESULT, payload = json_write L unknown_json\<rparr>])"
    and "readable L (challenge_json L (nonce env) (session_id env))" and "readable L unknown_json"
    and "length (payload (response_frame L sk (nonce env) (session_id env))) \<le> 1048576"
  shows "\<exists>c m. client_session L g s key_file shell w = (w\<lparr>disk := d, link := c\<rparr>, Err (BoxMsg m)) \<and>
    prefix ''Authentication rejected'' m \<and>
    sent (inner c) = sent s @ frame_enc (response_frame L sk (nonce env) (session_id env))"
proof -
  let ?rf = "response_frame L sk (nonce env) (session_id env)"
  let ?nf = "\<lparr>msg_type = AUTH_RESULT, payload = json_write L unknown_json\<rparr>"
  have g: "good_link (codec_new s)" "inp (inner (codec_new s)) = inp s" "sent (inner (codec_new s)) = sent s"
    using assms(2) by (simp_all add: good_link_def codec_limit_default) (simp_all add: codec_new_def)
  let ?w0 = "w\<lparr>disk := d, link := codec_new s\<rparr>"
  let ?w2 = "?w0\<lparr>link := after_read (frame_enc ?nf) (emit [?rf] (codec_new s))\<rparr>"
  have 2: "client_auth L sk ?w0 = client_result L ?w2"
    using client_auth_answers [OF assms(1) _ _ assms(5,7), of ?w0 "frame_enc ?nf"] g assms(4) by simp
  have 3: "recv ?w2 = (?w0\<lparr>link := after_read [] (emit [?rf] (codec_new s))\<rparr>, Ok ?nf)"
    using g assms(6) recv_good [of ?w2 ?nf "[]"] by (simp add: readable_def fits_def)
  have "parse_json L de_auth_result (json_write L unknown_json) v =
      (v, Ok \<lparr>res_ok = False, res_reason = Some ''UNKNOWN_KEY'',
        res_message = Some ''fingerprint not in authorized_keys''\<rparr>)" for v
    by (rule parse_readable [OF assms(6)]) (simp add: unknown_json_def)
  with 2 3 g(3) show ?thesis
    by (intro exI [of _ "after_read [] (emit [?rf] (codec_new s))"])
       (simp add: client_session_on_link [OF assms(3)] on_link_def client_result_def and_then_def fail_def
        auth_failure_def or_empty_def)
qed

lemma exchange_rejected:
  assumes "crypto_ok L" and "server_ready L sw cfg sks"
    and "\<forall>sk' \<in> set sks. sha256 L (vk_to_bytes L (verifying_key L sk'))
      \<noteq> sha256 L (vk_to_bytes L (verifying_key L sk))"
    and "auth_documents L cfg env sk sks" and "readable L unknown_json"
    and "load_or_create_signing_key L g key_file (disk w) = (d, Ok sk)"
  shows "\<exists>c m. exchange L sw cfg env g key_file shell w [] (Ok ()) (w\<lparr>disk := d, link := c\<rparr>) (Err (BoxMsg m)) \<and>
    prefix ''Authentication rejected'' m \<and> sent (inner c) = frame_enc (response_frame L sk (nonce env) (session_id env))"
proof -
  let ?resp = "response_frame L sk (nonce env) (session_id env)" and ?keys = "map (agent_entry L) sks"
  let ?nf = "\<lparr>msg_type = AUTH_RESULT, payload = json_write L unknown_json\<rparr>"
  have spec: "hex_spec L" "b64_spec L" "vk_spec L" using assms(1) by (simp_all add: crypto_ok_def)
  have keys: "load_authorized_keys L sw (authorized_keys_path cfg) = Ok ?keys"
    using assms(2) spec by (simp add: server_ready_def agents_load)
  from assms(4) have docs: "readable L (challenge_json L (nonce env) (session_id env))"
    and resp: "from_slice L de_auth_response (payload ?resp) =
        Some \<lparr>ar_key_type = KEY_TYPE_ED25519, ar_fingerprint = ed25519_fingerprint_hex L (verifying_key L sk),
          ar_signature = sign_auth_message L sk (signing_bytes (nonce env) (session_id env))\<rparr>"
      "length (payload ?resp) \<le> 1048576"
    by (simp_all add: auth_documents_def readable_def response_frame_def fits_def from_slice_def json_reads_def)
  let ?sc = "after_read [] (emit [challenge_frame L env, ?nf] (codec_new (pipe_end (frame_enc ?resp))))"
  have server: "run_session L sw cfg env (codec_new (pipe_end (frame_enc ?resp))) = (?sc, [], Ok ())"
    using docs assms(5) unregistered_not_found [OF spec(1) assms(3)] resp
    by (intro session_rejects_unknown [OF _ keys _ resp(2) _ resp(1)]) (simp_all add: response_frame_def readable_def)
  obtain c m where "client_session L g (pipe_end (sent (inner ?sc))) key_file shell w = (w\<lparr>disk := d, link := c\<rparr>, Err (BoxMsg m))"
    "prefix ''Authentication rejected'' m" "sent (inner c) = frame_enc ?resp"
    using client_rejected [OF spec(2) _ assms(6) _ docs assms(5) resp(2), of "pipe_end (sent (inner ?sc))" shell] by auto
  note client = this
  have least: "prefix (frame_enc ?resp) u"
    if u: "prefix (client_out L g key_file shell w (server_out L sw cfg env u)) u" for u
  proof -
    obtain r where r: "server_out L sw cfg env u = frame_enc (challenge_frame L env) @ r"
      using server_greets [OF keys] docs by (auto simp: prefix_def readable_def)
    show ?thesis
      using client_responds [OF spec(2) assms(6) docs resp(2), of shell r] u unfolding r by (rule prefix_order.trans)
  qed
  have "exchange L sw cfg env g key_file shell w [] (Ok ()) (w\<lparr>disk := d, link := c\<rparr>) (Err (BoxMsg m))"
    using client(3) by (intro exchangeI [OF server client(1) _ assms(6) least]) simp_all
  with client(2,3) show ?thesis by blast
qed

end
