(* ===== verification/Commands.thy ===== *)
theory Commands
  imports Client_Props
begin

text \<open>
  The subcommands of the client: what \<open>sao trust-probe\<close>, \<open>sao trust-add\<close> and \<open>sao key-fingerprint\<close> leave
  behind, and that it is what \<open>sao run\<close> and the server then work with.
\<close>

section \<open>Paths\<close>

definition known_hosts_path :: "path \<Rightarrow> path" where
  "known_hosts_path home = path_join (path_join home ''.sao'') ''known_hosts''"

definition agent_key_path :: "path \<Rightarrow> path" where
  "agent_key_path home = path_join (path_join (path_join home ''.sao'') ''keys'') ''agent.ed25519''"

lemma println_Ok [res_iff]: "println s w = (w', Ok u) \<longleftrightarrow> out_err w = None \<and> w' = w\<lparr>out_text := out_text w @ s @ [nl]\<rparr>"
  by (auto simp: println_def)

lemma on_disk_Ok [res_iff]: "on_disk f w = (w', Ok a) \<longleftrightarrow> (\<exists>d. f (disk w) = (d, Ok a) \<and> w' = w\<lparr>disk := d\<rparr>)"
  by (auto simp: on_disk_def split: prod.splits)

lemma eprintln_iff [res_iff]: "eprintln s w = (w', Ok u) \<longleftrightarrow> err_err w = None \<and> w' = w\<lparr>err_text := err_text w @ s @ [nl]\<rparr>"
  by (auto simp: eprintln_def eprint_def)

section \<open>Properties\<close>

text \<open>
  C27. A pin that is added by hand counts. If \<open>sao trust-add\<close> succeeds, its fingerprint was well-formed, no
  connection was made, and the next \<open>sao run\<close> to the same host and port, without \<open>--accept-new\<close> and
  however the host is spelt, takes exactly that pin from the file without asking and without changing
  anything.
\<close>

theorem trust_add_takes_effect:
  assumes "hex_spec L" and "good_store L (disk w) (known_hosts_path home) kh"
    and "host_ok (uni_lower L) (normalize_host (uni_lower L) host)"
    and "client_main L g (Some home) (TrustAdd host port hex_fp) w = (w', Ok status)"
    and "normalize_host (uni_lower L) host' = normalize_host (uni_lower L) host"
  shows "\<exists>pin. parse_hex32 (uni_lower L) hex_fp = Ok pin \<and> status = 0 \<and> dials w' = dials w \<and>
    resolve_tls_pin L host' port (known_hosts_path home) False w' = (w', Ok pin)"
proof -
  let ?ins = "insert_hex (uni_lower L) host port hex_fp"
  from assms(4) obtain kh0 d where l: "known_hosts_load (uni_lower L) (disk w) (known_hosts_path home) = Ok kh0"
    and i0: "snd (?ins kh0) = Ok ()"
    and s: "known_hosts_save L (fst (?ins kh0)) (known_hosts_path home) (disk w) = (d, Ok ())"
    and w': "disk w' = d" "dials w' = dials w" "status = 0"
    by (auto simp: client_main_def res_iff from_disk_def known_hosts_path_def Let_def case_prod_unfold)
  let ?kh = "fst (?ins kh0)"
  from i0 have i: "?ins kh0 = (?kh, Ok ())" by (simp add: prod_eq_iff)
  from l assms(2) have "good_store L (disk w) (known_hosts_path home) kh0" by (simp add: good_store_def)
  from insert_save_good [OF assms(1) this assms(3) i s] have g: "good_store L (disk w') (known_hosts_path home) ?kh"
    by (simp add: w')
  obtain pin where p: "parse_hex32 (uni_lower L) hex_fp = Ok pin" "pin_hex (uni_lower L) ?kh host port = Ok pin"
    using pins.insert_Ok [OF i] by blast
  then have "pin_hex (uni_lower L) ?kh host' port = Ok pin"
    using assms(5) by (simp add: pin_hex_def Let_def)
  from p(1) w' resolve_stored [OF g this] show ?thesis by blast
qed

text \<open>
  A probe only looks. If \<open>sao trust-probe\<close> succeeds, it has made one connection to the address, printed
  on standard output one line with the fingerprint of the certificate it met there, sent nothing and
  changed no file; and the pin that \<open>trust-add\<close> would read from that line is the digest that \<open>run\<close> compares.
\<close>

theorem trust_probe_reports:
  assumes "hex_spec L" and "sha_spec L"
    and "client_main L g (Some home) (TrustProbe addr) w = (w', Ok status)"
  shows "\<exists>host port der pin fp. parse_addr addr = Ok (host, port) \<and>
    att_peer (net w (dials w) host port) = Inr (Some (Inr der)) \<and>
    spki_sha256_bytes_from_cert_der L der = Ok pin \<and> parse_hex32 (uni_lower L) fp = Ok pin \<and>
    out_text w' = out_text w @ fp @ [nl] \<and> disk w' = disk w \<and> link w' = link w \<and> dials w' = Suc (dials w)"
proof -
  from assms(3) obtain host port w1 der fp where a: "parse_addr addr = Ok (host, port)"
    and c: "connect_probe host port w = (w1, Ok der)" and f: "spki_sha256_hex_from_cert_der L der = Ok fp"
    and o: "out_text w' = out_text w1 @ fp @ [nl]" "disk w' = disk w1" "link w' = link w1" "dials w' = dials w1"
    by (auto simp: client_main_def res_iff Let_def)
  from c have p: "att_peer (net w (dials w) host port) = Inr (Some (Inr der))"
    and w1: "out_text w1 = out_text w" "disk w1 = disk w" "link w1 = link w" "dials w1 = Suc (dials w)"
    by (auto simp: connect_probe_def res_iff dial_def)
  from f obtain pin where pin: "spki_sha256_bytes_from_cert_der L der = Ok pin" "fp = hex_encode L pin"
    by (auto simp: spki_sha256_hex_from_cert_der_def res_iff)
  then have "length pin = 32"
    using assms(2) by (auto simp: spki_sha256_bytes_from_cert_der_def sha_spec_def res_iff)
  with pin(2) assms(1) have "parse_hex32 (uni_lower L) fp = Ok pin"
    by (simp add: hex_text(1) parse_hex32_hex)
  with a p pin(1) o w1 show ?thesis by auto
qed

text \<open>
  C37. \<open>sao key-fingerprint\<close> makes the agent known. If it succeeds, the printed line is the fingerprint of the
  key that later runs use, and the file \<open>agent.ed25519.pub\<close> next to the key holds a text with which, as
  \<open>authorized_keys\<close>, the server has exactly one entry, whose fingerprint is the printed one.
\<close>

theorem key_fingerprint_registers:
  assumes "b64_spec L" and "vk_spec L"
    and "client_main L g (Some home) KeyFingerprint w = (w', Ok status)"
  shows "\<exists>sk fp body. out_text w' = out_text w @ fp @ [nl] \<and>
    files (disk w') (public_key_path (agent_key_path home)) = Some body \<and>
    (\<exists>d. load_or_create_signing_key L g (agent_key_path home) (disk w) = (d, Ok sk) \<and> disk w' = d) \<and>
    (\<forall>sw p. read_to_string sw p = Ok body \<longrightarrow>
      (\<exists>k. load_authorized_keys L sw p = Ok [k] \<and> fingerprint_hex k = fp \<and> vk_of k = verifying_key L sk))"
proof -
  from assms(3) obtain d sk where l: "load_or_create_signing_key L g (agent_key_path home) (disk w) = (d, Ok sk)"
    and o: "disk w' = d" "out_text w' = out_text w @ ed25519_fingerprint_hex L (verifying_key L sk) @ [nl]"
    by (auto simp: client_main_def res_iff Let_def agent_key_path_def)
  have "files d (public_key_path (agent_key_path home)) = Some (public_body L sk)"
    using load_or_create_Ok [OF l] by (auto split: if_splits)
  moreover have "load_authorized_keys L sw p = Ok [agent_entry L sk]"
    if "read_to_string sw p = Ok (public_body L sk)" for sw p
    using agents_load [OF assms(1,2), of "[sk]"] that by simp
  ultimately show ?thesis
    using l o by (intro exI [of _ sk] exI [of _ "ed25519_fingerprint_hex L (verifying_key L sk)"]
        exI [of _ "public_body L sk"]) (auto simp: agent_entry_def)
qed

text \<open>
  \<open>sao run\<close> talks to nobody but the holder of the pinned key: if it ends with a status, then the whole
  session, with the agent's response and the command, took place on a connection whose peer had the key
  of a pin.
\<close>

lemma run_is_pinned:
  assumes "client_main L g (Some home) (Run port host cmd accept_new) w = (w', Ok status)"
  shows "\<exists>tls pin n w1. pinned_stream L (net w n host port) pin tls \<and>
    connect_with_pin_management L host port (known_hosts_path home) accept_new w = (w1, Ok tls) \<and>
    client_session L g tls (agent_key_path home) (join '' '' cmd) w1 = (w', Ok status)"
proof -
  from assms obtain w1 tls where
    c: "connect_with_pin_management L host port (known_hosts_path home) accept_new w = (w1, Ok tls)"
    and s: "client_session L g tls (agent_key_path home) (join '' '' cmd) w1 = (w', Ok status)"
    by (auto simp: client_main_def res_iff Let_def known_hosts_path_def agent_key_path_def)
  from c have "\<exists>pin n. pinned_stream L (net w n host port) pin tls"
  proof (cases rule: connect_split)
    case (direct w1 pin)
    with connect_pinned_Ok [OF direct(3)] show ?thesis by auto
  next
    case (replaced w1 pin w3 fp kh w4 q)
    with connect_pinned_Ok [OF replaced(7)] show ?thesis by auto
  qed
  with c s show ?thesis by blast
qed

section \<open>Concrete commands\<close>

definition demo_home :: path where
  "demo_home = \<lparr>rooted = True, comps = [''h'']\<rparr>"

lemma demo_home_paths:
  "known_hosts_path demo_home = \<lparr>rooted = True, comps = [''h'', ''.sao'', ''known_hosts'']\<rparr>"
  "agent_key_path demo_home = \<lparr>rooted = True, comps = [''h'', ''.sao'', ''keys'', ''agent.ed25519'']\<rparr>"
  by (simp_all add: known_hosts_path_def agent_key_path_def demo_home_def path_join_name)

lemma demo_home_save:
  "\<exists>d. known_hosts_save (demo_lib []) demo_store (known_hosts_path demo_home) demo_empty_fs = (d, Ok ())"
  by (simp add: known_hosts_save_def demo_store_def demo_home_paths demo_empty_fs_def path_parent_def
      create_dir_all_def path_empty_def fs_write_def parent_ready_def is_ancestor_def
      Mapping.ordered_keys_def upt_rec)

lemma demo_trust_add:
  "\<exists>w'. client_main (demo_lib []) 7 (Some demo_home)
      (TrustAdd ''example.org'' 8443 (concat (map hex_byte demo_pin))) demo_world = (w', Ok 0)"
proof -
  obtain d where d: "known_hosts_save (demo_lib []) demo_store (known_hosts_path demo_home) demo_empty_fs = (d, Ok ())"
    using demo_home_save by blast
  have load: "known_hosts_load (\<lambda>s. s) demo_empty_fs (known_hosts_path demo_home) = Ok known_hosts_default"
    by (simp add: known_hosts_load_def fs_exists_def demo_empty_fs_def)
  have w: "disk demo_world = demo_empty_fs" "err_err demo_world = None" by (simp_all add: demo_world_def)
  show ?thesis
    using d load demo_insert w
    by (simp add: client_main_def and_then_def attempt_def from_disk_def act_err_def on_disk_def eprintln_def
        eprint_def ret_def Let_def known_hosts_path_def demo_uni del: append.simps)
qed

theorem trust_add_takes_effect_witness:
  "\<exists>w'. client_main (demo_lib []) 7 (Some demo_home)
      (TrustAdd ''example.org'' 8443 (concat (map hex_byte demo_pin))) demo_world = (w', Ok 0) \<and>
    resolve_tls_pin (demo_lib []) ''example.org'' 8443 (known_hosts_path demo_home) False w' = (w', Ok demo_pin)"
proof -
  obtain w' where c: "client_main (demo_lib []) 7 (Some demo_home)
      (TrustAdd ''example.org'' 8443 (concat (map hex_byte demo_pin))) demo_world = (w', Ok 0)"
    using demo_trust_add by blast
  have h: "host_ok (uni_lower (demo_lib [])) (normalize_host (uni_lower (demo_lib [])) ''example.org'')"
    using host_ok_demo by (simp only: demo_uni demo_normal id_def)
  have "good_store (demo_lib []) (disk demo_world) (known_hosts_path demo_home) known_hosts_default"
    by (simp add: good_store_def known_hosts_load_def fs_exists_def demo_world_def demo_empty_fs_def)
       (simp add: known_hosts_default_def)
  from trust_add_takes_effect [OF demo_specs(1) this h c refl] c show ?thesis
    by (simp add: parse_hex32_hex [OF length_demo_pin])
qed

definition demo_addr :: str where
  "demo_addr = ''example.org'' @ '':'' @ show_u16 8443"

lemma demo_addr_parse: "parse_addr demo_addr = Ok (''example.org'', 8443)"
proof -
  have "list_all graphic ''example.org''" by (simp add: graphic_def code_def)
  from no_ws_graphic [OF this] show ?thesis
    unfolding demo_addr_def by (intro parse_addr_plain) simp_all
qed

theorem trust_probe_reports_witness:
  "\<exists>w' fp. client_main (demo_lib []) 7 (Some demo_home) (TrustProbe demo_addr) demo_world = (w', Ok 0) \<and>
    out_text w' = fp @ [nl] \<and> parse_hex32 (\<lambda>s. s) fp = Ok demo_pin"
proof -
  have spki: "spki_sha256_bytes_from_cert_der (demo_lib []) [1, 2, 3] = Ok demo_pin"
    by (simp add: spki_sha256_bytes_from_cert_der_def demo_pin_def) (simp add: demo_lib_def)
  then have "\<exists>w'. client_main (demo_lib []) 7 (Some demo_home) (TrustProbe demo_addr) demo_world = (w', Ok 0)"
    by (simp add: client_main_def and_then_def attempt_def act_err_def demo_addr_parse connect_probe_def dial_def
        spki_sha256_hex_from_cert_der_def println_def eprintln_def eprint_def ret_def Let_def
        demo_world_def demo_attempt_def del: append.simps)
  then obtain w' where c: "client_main (demo_lib []) 7 (Some demo_home) (TrustProbe demo_addr) demo_world = (w', Ok 0)"
    by blast
  from trust_probe_reports [OF demo_specs(1,2) c] c spki show ?thesis
    by (auto simp: demo_addr_parse demo_uni) (auto simp: demo_world_def demo_attempt_def)
qed

lemma demo_home_key:
  "\<exists>d. load_or_create_signing_key (demo_lib []) 7 (agent_key_path demo_home) demo_empty_fs = (d, Ok 7)"
proof -
  have "public_key_path (agent_key_path demo_home) = \<lparr>rooted = True, comps = [''h'', ''.sao'', ''keys'', ''agent.ed25519.pub'']\<rparr>"
    by (subst public_key_path_name [of _ "''agent.ed25519''"]) (simp_all add: demo_home_paths file_name_def)
  then show ?thesis
    by (simp add: load_or_create_signing_key_def write_agent_public_key_file_def demo_empty_fs_def fs_exists_def
        demo_home_paths path_parent_def create_dir_all_def path_empty_def upt_rec fs_write_def parent_ready_def
        is_ancestor_def Let_def)
qed

theorem key_fingerprint_registers_witness:
  "\<exists>w' body. client_main (demo_lib []) 7 (Some demo_home) KeyFingerprint demo_world = (w', Ok 0) \<and>
    files (disk w') (public_key_path (agent_key_path demo_home)) = Some body \<and>
    (\<forall>sw p. read_to_string sw p = Ok body \<longrightarrow> (\<exists>k. load_authorized_keys (demo_lib []) sw p = Ok [k]))"
proof -
  obtain d where "load_or_create_signing_key (demo_lib []) 7 (agent_key_path demo_home) demo_empty_fs = (d, Ok 7)"
    using demo_home_key by blast
  then have "\<exists>w'. client_main (demo_lib []) 7 (Some demo_home) KeyFingerprint demo_world = (w', Ok 0)"
    by (simp add: client_main_def and_then_def attempt_def act_err_def on_disk_def println_def eprintln_def
        eprint_def ret_def Let_def agent_key_path_def demo_world_def del: append.simps)
  then obtain w' where c: "client_main (demo_lib []) 7 (Some demo_home) KeyFingerprint demo_world = (w', Ok 0)"
    by blast
  from key_fingerprint_registers [OF demo_b64 demo_specs(3) c] c show ?thesis by blast
qed

end
