(* ===== verification/Whole_Run.thy ===== *)
theory Whole_Run
  imports Exchange Commands
begin

text \<open>
  The program \<open>sao run\<close> as a whole: reading the known hosts, connecting to a server whose key is pinned, the
  authentication, the command, its output and the exit status of the process, over a network that delivers
  the bytes as it likes.
\<close>

section \<open>The connection\<close>

text \<open>
  The next attempt to connect leads to a TLS connection with a holder of the pinned key, and \<open>down\<close> is what
  arrives on it.
\<close>

definition leads_to :: "('vk, 'sk) lib \<Rightarrow> client_world \<Rightarrow> str \<Rightarrow> u16 \<Rightarrow> bytes \<Rightarrow> bytes \<Rightarrow> bool" where
  "leads_to L w host port pin down \<longleftrightarrow>
     att_tcp (net w (dials w) host port) = Inr () \<and> att_build (net w (dials w) host port) = Inr () \<and>
     pinned_stream L (net w (dials w) host port) pin (pipe_end down)"

definition dialled :: "client_world \<Rightarrow> client_world" where
  "dialled w = w\<lparr>dials := Suc (dials w)\<rparr>"

lemma connect_pinned_host:
  assumes "good_store L (disk w) p kh" and "pin_hex (uni_lower L) kh host port = Ok pin"
    and "leads_to L w host port pin down"
  shows "connect_with_pin_management L host port p a w = (dialled w, Ok (pipe_end down))"
proof -
  from assms(3) have "connect_pinned L host port pin w = (dialled w, Ok (pipe_end down))"
    by (simp add: leads_to_def dialled_def connect_pinned_not_mismatch)
  then show ?thesis
    by (simp add: connect_with_pin_management_def and_then_def resolve_stored [OF assms(1,2)])
qed

lemma run_connected:
  "connect_with_pin_management L host port (known_hosts_path home) a w = (w1, Ok s) \<Longrightarrow>
   client_main L g (Some home) (Run port host cmd a) w =
     client_session L g s (agent_key_path home) (join '' '' cmd) w1"
  by (simp add: client_main_def and_then_def attempt_def Let_def known_hosts_path_def agent_key_path_def)

text \<open>A conversation that has come to rest is the exchange.\<close>

lemma exchange_quiet:
  assumes "exchange L sw cfg env g key_file shell w acts r w' x"
    and "arrives (server_out L sw cfg env) (client_out L g key_file shell w) (up, down)"
    and "quiet (server_out L sw cfg env) (client_out L g key_file shell w) (up, down)"
  shows "\<exists>sc. run_session L sw cfg env (codec_new (pipe_end up)) = (sc, acts, r)"
    and "client_session L g (pipe_end down) key_file shell w = (w', x)"
proof -
  let ?D = "deliver (server_out L sw cfg env) (client_out L g key_file shell w)"
  from assms(1,2) obtain u d sc where
    e: "run_session L sw cfg env (codec_new (pipe_end u)) = (sc, acts, r)"
      "client_session L g (pipe_end d) key_file shell w = (w', x)" and "?D\<^sup>*\<^sup>* (up, down) (u, d)"
    unfolding exchange_def by blast
  moreover from this(3) assms(3) have "u = up \<and> d = down"
    unfolding quiet_def by (metis converse_rtranclpE prod.inject)
  ultimately show "\<exists>sc. run_session L sw cfg env (codec_new (pipe_end up)) = (sc, acts, r)"
    "client_session L g (pipe_end down) key_file shell w = (w', x)" by blast+
qed

text \<open>Such a conversation does come to rest: with all that the client and then the server sends.\<close>

lemma exchange_rests:
  assumes "exchange L sw cfg env g key_file shell w acts r w' x"
    and "load_or_create_signing_key L g key_file (disk w) = (d, Ok sk)" and "sent (inner (link w')) = up"
  shows "arrives (server_out L sw cfg env) (client_out L g key_file shell w) (up, server_out L sw cfg env up)"
    and "quiet (server_out L sw cfg env) (client_out L g key_file shell w) (up, server_out L sw cfg env up)"
proof -
  let ?S = "server_out L sw cfg env" and ?C = "client_out L g key_file shell w"
  from assms(1,3) obtain down sc where e: "run_session L sw cfg env (codec_new (pipe_end up)) = (sc, acts, r)"
      "sent (inner sc) = down" "client_session L g (pipe_end down) key_file shell w = (w', x)"
      "\<forall>s. arrives ?S ?C s \<longrightarrow> (deliver ?S ?C)\<^sup>*\<^sup>* s (up, down)"
    unfolding exchange_def by blast
  have "arrives ?S ?C ([], [])" by (simp add: arrives_def)
  with e(4) have a: "arrives ?S ?C (up, down)" by (simp add: arrives_def)
  have S: "?S up = down" using e(1,2) by (simp add: server_out_def)
  have "?C down = up"
    using e(3) assms(3) by (simp add: client_out_key [OF assms(2)] client_session_on_link [OF assms(2)])
  with S have "quiet ?S ?C (up, down)" using talk.quiet_agree [OF a] by (simp add: agree_def)
  with a S show "arrives ?S ?C (up, ?S up)" "quiet ?S ?C (up, ?S up)" by simp_all
qed

section \<open>The property\<close>

text \<open>
  C2. \<open>sao run\<close> from start to exit. Let the server's pin be in the known hosts file, the connection lead to
  the holder of the pinned key, the agent be registered and the command be allowed. When everything
  that client and server have sent has been delivered (in any pieces and any order), the server has
  started exactly the configured shell with the joined words of the command line, and the process
  \<open>sao run\<close> has written the output of the command to standard output and standard error, has made one connection and
  changed no file, except that it creates its key when there is none, and exits with the status of the
  command.
\<close>

theorem run_command:
  assumes "crypto_ok L" and "server_ready L sw cfg sks" and "sk \<in> set sks" and "distinguished L sk sks"
    and "auth_documents L cfg env sk sks" and "can_print w"
    and "load_or_create_signing_key L g (agent_key_path home) (disk w) = (d, Ok sk)"
    and "readable L (exec_json (join '' '' cmd))" and "allowed L cfg (join '' '' cmd)"
    and "clean_run (runs env 0)" and "\<forall>ch \<in> set (chunks (runs env 0)). readable_chunk L ch"
    and "readable_exit L (exit_status (runs env 0))"
    and "good_store L (disk w) (known_hosts_path home) kh" and "pin_hex (uni_lower L) kh host port = Ok pin"
    and "leads_to L w host port pin down"
    and "arrives (server_out L sw cfg env) (client_out L g (agent_key_path home) (join '' '' cmd) (dialled w)) (up, down)"
    and "quiet (server_out L sw cfg env) (client_out L g (agent_key_path home) (join '' '' cmd) (dialled w)) (up, down)"
  shows "\<exists>sc acts w'. run_session L sw cfg env (codec_new (pipe_end up)) = (sc, acts, Ok ()) \<and>
    starts acts = [shell_start cfg (join '' '' cmd)] \<and>
    client_main L g (Some home) (Run port host cmd accept_new) w = (w', Ok (exit_status (runs env 0))) \<and>
    out_text w' = out_text w @ str_of_bytes (outs (chunks (runs env 0))) \<and>
    err_text w' = err_text w @ str_of_bytes (errs (chunks (runs env 0))) \<and>
    disk w' = d \<and> dials w' = Suc (dials w)"
proof -
  have w: "can_print (dialled w)" "disk (dialled w) = disk w" "out_text (dialled w) = out_text w"
    "err_text (dialled w) = err_text w"
    using assms(6) by (simp_all add: dialled_def can_print_def)
  then obtain acts c where
    e: "exchange L sw cfg env g (agent_key_path home) (join '' '' cmd) (dialled w) acts (Ok ())
      ((fold print_chunk (chunks (runs env 0)) ((dialled w)\<lparr>disk := d\<rparr>))\<lparr>link := c\<rparr>) (Ok (exit_status (runs env 0)))"
    and st: "starts acts = [shell_start cfg (join '' '' cmd)]"
    using command_answered [OF assms(1-5) w(1) assms(7) [folded w(2)] assms(8-12)] by blast
  note q = exchange_quiet [OF e assms(16,17)]
  from run_connected [OF connect_pinned_host [OF assms(13-15)]] q(2)
  have "client_main L g (Some home) (Run port host cmd accept_new) w =
      ((fold print_chunk (chunks (runs env 0)) ((dialled w)\<lparr>disk := d\<rparr>))\<lparr>link := c\<rparr>, Ok (exit_status (runs env 0)))"
    by simp
  with q(1) st w show ?thesis by (fastforce simp: fold_print_chunk dialled_def)
qed

section \<open>A concrete client\<close>

lemma demo_home_ready:
  "\<exists>d d'. known_hosts_save L demo_store (known_hosts_path demo_home) demo_empty_fs = (d, Ok ()) \<and>
    load_or_create_signing_key L k (agent_key_path demo_home) d = (d', Ok k)"
proof -
  have "public_key_path (agent_key_path demo_home) = \<lparr>rooted = True, comps = [''h'', ''.sao'', ''keys'', ''agent.ed25519.pub'']\<rparr>"
    by (subst public_key_path_name [of _ "''agent.ed25519''"]) (simp_all add: demo_home_paths file_name_def)
  then show ?thesis
    by (simp add: known_hosts_save_def demo_store_def Mapping.ordered_keys_def load_or_create_signing_key_def
        write_agent_public_key_file_def demo_empty_fs_def fs_exists_def demo_home_paths path_parent_def
        create_dir_all_def path_empty_def upt_rec fs_write_def parent_ready_def is_ancestor_def Let_def)
qed

lemma demo_store_good:
  assumes "hex_spec L" and "uni_lower L = (\<lambda>s. s)"
    and "known_hosts_save L demo_store p demo_empty_fs = (d, Ok ())"
  shows "good_store L d p demo_store" and "pin_hex (uni_lower L) demo_store ''example.org'' 8443 = Ok demo_pin"
proof -
  have "good_store L demo_empty_fs p known_hosts_default"
    by (simp add: good_store_def known_hosts_load_def fs_exists_def demo_empty_fs_def)
       (simp add: known_hosts_default_def)
  moreover have "host_ok (uni_lower L) (normalize_host (uni_lower L) ''example.org'')"
    using host_ok_demo by (simp only: assms(2) demo_normal id_def)
  moreover have "insert_hex (uni_lower L) ''example.org'' 8443 (concat (map hex_byte demo_pin)) known_hosts_default =
      (demo_store, Ok ())"
    unfolding assms(2) by (rule demo_insert)
  ultimately show "good_store L d p demo_store" using insert_save_good [OF assms(1)] assms(3) by blast
  show "pin_hex (uni_lower L) demo_store ''example.org'' 8443 = Ok demo_pin"
    unfolding assms(2) by (rule demo_found)
qed

definition demo_client :: "fs \<Rightarrow> bytes \<Rightarrow> client_world" where
  "demo_client d down = demo_world\<lparr>disk := d, net := (\<lambda>_ _ _. demo_attempt\<lparr>att_handshake := Inr (pipe_end down)\<rparr>)\<rparr>"

lemma demo_leads_to:
  assumes "spki_sha256_bytes_from_cert_der L [1, 2, 3] = Ok demo_pin"
  shows "leads_to L (demo_client d down) ''example.org'' 8443 demo_pin down"
  using assms by (simp add: leads_to_def demo_client_def pinned_stream_def demo_attempt_def)

end
