(* ===== verification/Freshness.thy ===== *)
theory Freshness
  imports Exchange
begin

text \<open>
  What the challenge is for. The server sends a new nonce in each session; a response that
  was recorded in one session is of no use in another one. What the challenge does not do is name the server
  for which the response is made.
\<close>

section \<open>Frames are read in one way\<close>

lemma frame_enc_inject:
  assumes "frame_enc f @ a = frame_enc g @ b"
    and "length (payload f) \<le> codec_limit c" and "length (payload g) \<le> codec_limit c"
  shows "f = g" and "a = b"
proof -
  let ?c = "c\<lparr>inner := (inner c)\<lparr>inp := frame_enc f @ a\<rparr>\<rparr>"
  have "codec_limit ?c = codec_limit c" by (simp add: codec_limit_def)
  then have "read_frame ?c = (?c\<lparr>inner := (inner ?c)\<lparr>inp := a\<rparr>\<rparr>, Ok f)"
    "read_frame ?c = (?c\<lparr>inner := (inner ?c)\<lparr>inp := b\<rparr>\<rparr>, Ok g)"
    using assms by (intro read_frame_enc; simp)+
  from wire.recv_unique [OF this(1), of g b] show "f = g" "a = b"
    using assms \<open>codec_limit ?c = codec_limit c\<close> by simp_all
qed

section \<open>Replay\<close>

text \<open>
  Ed25519 with strict verification: a signature that is valid for one of the messages under a registered
  key is not valid for another one.
\<close>

definition binds :: "('vk, 'sk) lib \<Rightarrow> 'vk authorized_key list \<Rightarrow> bytes set \<Rightarrow> bool" where
  "binds L keys ms \<longleftrightarrow> (\<forall>k \<in> set keys. \<forall>m \<in> ms. \<forall>m' \<in> ms. \<forall>raw.
     verify_strict L (vk_of k) m raw \<and> verify_strict L (vk_of k) m' raw \<longrightarrow> m = m')"

definition challenge_bytes :: "session_env \<Rightarrow> bytes" where
  "challenge_bytes env = signing_bytes (nonce env) (session_id env)"

lemma valid_response_once:
  assumes "valid_response L keys env resp entry" and "valid_response L keys env' resp entry'"
    and "binds L keys {challenge_bytes env, challenge_bytes env'}"
  shows "challenge_bytes env = challenge_bytes env'"
proof -
  from assms(1,2) obtain ar :: auth_response and raw where f: "find_key L keys (ar_fingerprint ar) = Some entry"
    and v: "verify_strict L (vk_of entry) (challenge_bytes env) raw" "verify_strict L (vk_of entry) (challenge_bytes env') raw"
    by (auto simp: valid_response_def challenge_bytes_def)
  have "entry \<in> set keys" using find_key_Some [OF f] by simp
  with v assms(3) show ?thesis unfolding binds_def by blast
qed

lemma same_challenge:
  "challenge_bytes env = challenge_bytes env' \<Longrightarrow> length (nonce env) = length (nonce env') \<Longrightarrow>
   nonce env = nonce env' \<and> session_id env = session_id env'"
  by (simp add: challenge_bytes_def signing_bytes_def as_bytes_inject)

text \<open>
  C11. A recorded response is useless. Suppose a session has granted access to a client. Then no session
  with another nonce of the same length (the code has 32 bytes) grants access to a connection that begins
  with the recorded response, whatever follows it, and this session starts no process.
\<close>

theorem replay_is_rejected:
  assumes "load_authorized_keys L sw (authorized_keys_path cfg) = Ok keys"
    and "binds L keys {challenge_bytes env, challenge_bytes env'}"
    and "length (nonce env) = length (nonce env')" and "nonce env \<noteq> nonce env'"
    and "inp (inner c) = frame_enc resp @ rest" and "length (payload resp) \<le> codec_limit c"
    and "session_auth L sw cfg env c = (c1, Ok (Some entry))"
    and "inp (inner d) = frame_enc resp @ rest'" and "codec_limit d = codec_limit c"
    and "run_session L sw cfg env' d = (d', acts, r)"
  shows "acts = [] \<and> (\<nexists>d1 entry'. session_auth L sw cfg env' d = (d1, Ok (Some entry')))"
proof -
  have valid: "valid_response L keys e resp k"
    if "session_auth L sw cfg e x = (x', Ok (Some k))" "inp (inner x) = frame_enc resp @ y" "codec_limit x = codec_limit c"
    for e x x' k y
  proof -
    from session_auth_granted [OF that(1)] assms(1) obtain resp' where
      "inp (inner x) = frame_enc resp' @ inp (inner x')" "length (payload resp') \<le> codec_limit x" "valid_response L keys e resp' k"
      by auto
    with frame_enc_inject(1) [of resp y resp' "inp (inner x')" c] that(2,3) assms(6) show ?thesis by simp
  qed
  have no: "\<nexists>d1 entry'. session_auth L sw cfg env' d = (d1, Ok (Some entry'))"
  proof
    assume "\<exists>d1 entry'. session_auth L sw cfg env' d = (d1, Ok (Some entry'))"
    then obtain d1 entry' where "session_auth L sw cfg env' d = (d1, Ok (Some entry'))" by blast
    from valid_response_once [OF valid [OF assms(7,5) refl] valid [OF this assms(8,9)] assms(2)]
      same_challenge [OF _ assms(3)] assms(4) show False by simp
  qed
  with run_session_acts [OF assms(10)] show ?thesis by blast
qed

section \<open>Relay\<close>

text \<open>
  The signed message names the session but not the server. A server that an agent connects to can pass on
  the challenge of another server: the agent's answer to it is valid there.
\<close>

lemma response_is_relayable:
  assumes "crypto_ok L" and "server_ready L sw cfg sks" and "sk \<in> set sks" and "distinguished L sk sks"
    and "auth_documents L cfg env sk sks" and "load_or_create_signing_key L g key_file (disk w) = (d, Ok sk)"
  shows "\<exists>resp keys entry. load_authorized_keys L sw (authorized_keys_path cfg) = Ok keys \<and>
    valid_response L keys env resp entry \<and> prefix (frame_enc (challenge_frame L env)) (server_out L sw cfg env []) \<and>
    prefix (frame_enc resp) (client_out L g key_file shell w (frame_enc (challenge_frame L env) @ rest))"
proof -
  let ?resp = "response_frame L sk (nonce env) (session_id env)" and ?keys = "map (agent_entry L) sks"
  have spec: "hex_spec L" "b64_spec L" "vk_spec L" "sign_spec L" using assms(1) by (simp_all add: crypto_ok_def)
  have keys: "load_authorized_keys L sw (authorized_keys_path cfg) = Ok ?keys"
    using assms(2) spec by (simp add: server_ready_def agents_load)
  from assms(5) have docs: "readable L (challenge_json L (nonce env) (session_id env))"
    and resp: "json_reads L (response_json (ed25519_fingerprint_hex L (verifying_key L sk))
      (sign_auth_message L sk (signing_bytes (nonce env) (session_id env))))" "length (payload ?resp) \<le> 1048576"
    by (simp_all add: auth_documents_def readable_def response_frame_def fits_def)
  obtain k where "valid_response L ?keys env ?resp k"
    using agent_response_valid [OF spec(1,2,4) assms(3) _ resp(1)] assms(4) by (auto simp: distinguished_def)
  moreover have "prefix (frame_enc (challenge_frame L env)) (server_out L sw cfg env [])"
    using server_greets [OF keys] docs by (simp add: readable_def)
  ultimately show ?thesis
    using keys client_responds [OF spec(2) assms(6) docs resp(2), of shell rest] by blast
qed

end
