(* ===== verification/Exec_Ends.thy ===== *)
theory Exec_Ends
  imports Exec_Steps
begin

text \<open>
  The tasks of a command end. An execution is a sequence of steps of the tasks, between which time may pass
  at any point; the number of steps that the tasks make is counted.
\<close>

inductive exec_path ::
    "('vk, 'sk) lib \<Rightarrow> server_config \<Rightarrow> exec_state \<Rightarrow> nat \<Rightarrow> exec_state \<Rightarrow> bool" for L cfg s where
  here: "exec_path L cfg s 0 s"
| work: "exec_path L cfg s n t \<Longrightarrow> exec_step L cfg t t' \<Longrightarrow> elapsed t' = elapsed t \<Longrightarrow>
    exec_path L cfg s (Suc n) t'"
| wait: "exec_path L cfg s n t \<Longrightarrow> exec_path L cfg s n (t\<lparr>elapsed := Suc (elapsed t)\<rparr>)"

text \<open>Every step that a task makes uses up some of the measure, and the clock leaves it alone.\<close>

lemma exec_path_measure: "exec_path L cfg s n t \<Longrightarrow> exec_measure t + n \<le> exec_measure s"
proof (induction rule: exec_path.induct)
  case (work n t t')
  from exec_step_decreases [OF work.hyps(2,3)] work.IH show ?case by simp
qed (simp_all add: exec_measure_def)

lemma exec_measure_start: "exec_measure (exec_start out err c) = 3 * (length out + length err) + 5"
  by (simp add: exec_measure_def exec_start_def)

text \<open>From any state the tasks can go on until the future has ended, without time passing.\<close>

lemma exec_path_ends:
  "\<exists>m t. exec_path L cfg s m t \<and> \<not> running (at_phase t) \<and> elapsed t = elapsed s"
proof -
  have "exec_path L cfg s n t \<Longrightarrow> elapsed t = elapsed s \<Longrightarrow> ?thesis" for n t
  proof (induction "exec_measure t" arbitrary: n t rule: less_induct)
    case less
    show ?case
    proof (cases "running (at_phase t)")
      case True
      then obtain t' where t': "exec_step L cfg t t'" "elapsed t' = elapsed t"
        using exec_step_possible by blast
      from less.hyps [OF exec_step_decreases [OF t'] exec_path.work [OF less.prems(1) t']] t'(2) less.prems(2)
      show ?thesis by simp
    qed (use less.prems in blast)
  qed
  from this [OF exec_path.here] show ?thesis by simp
qed

lemma exec_path_trans:
  assumes "exec_path L cfg t m t'" and "exec_path L cfg s n t"
  shows "exec_path L cfg s (n + m) t'"
  using assms by (induction rule: exec_path.induct) (auto intro: exec_path.intros)

lemma exec_path_reachable:
  "exec_path L cfg (exec_start out err c) n s \<Longrightarrow> exec_reachable L cfg out err c s"
  by (induction rule: exec_path.induct) (auto intro: exec_reachable.intros exec_step.tick)

text \<open>
  C19. A command terminates. In every interleaving of the reader tasks, the future and the clock the tasks
  make at most 3 (n + m) + 5 steps, for a child that writes n bytes to standard output and m to standard
  error; and at whatever point the execution is, it can be continued to one in which the future has
  ended, again within that number of steps, without time passing. If it was cancelled, the configured
  time, at least one second, had passed.
\<close>

theorem exec_terminates:
  assumes "exec_path L cfg (exec_start out err c) n s"
  shows "n \<le> 3 * (length out + length err) + 5 \<and>
    (\<exists>m t. exec_path L cfg s m t \<and> \<not> running (at_phase t) \<and> elapsed t = elapsed s \<and>
       n + m \<le> 3 * (length out + length err) + 5) \<and>
    (\<forall>e. at_phase s = Cancelled e \<longrightarrow> max 1 (unat (exec_timeout_secs cfg)) \<le> elapsed s)"
proof (intro conjI allI impI)
  note bound = exec_path_measure [of L cfg "exec_start out err c", unfolded exec_measure_start]
  from bound [OF assms] show "n \<le> 3 * (length out + length err) + 5" by simp
  obtain m t where t: "exec_path L cfg s m t" "\<not> running (at_phase t)" "elapsed t = elapsed s"
    using exec_path_ends by blast
  from bound [OF exec_path_trans [OF t(1) assms]] t
  show "\<exists>m t. exec_path L cfg s m t \<and> \<not> running (at_phase t) \<and> elapsed t = elapsed s \<and>
      n + m \<le> 3 * (length out + length err) + 5" by fastforce
next
  fix e
  assume "at_phase s = Cancelled e"
  then have "unat (exec_timeout cfg) \<le> elapsed s"
    using deadline_inv_reachable [OF exec_path_reachable [OF assms]] by (simp add: deadline_inv_def)
  moreover have "exec_timeout_secs cfg \<le> exec_timeout cfg" "1 \<le> exec_timeout cfg"
    by (simp_all add: exec_timeout_def)
  ultimately show "max 1 (unat (exec_timeout_secs cfg)) \<le> elapsed s"
    by (simp add: word_le_nat_alt)
qed

theorem exec_terminates_witness:
  "\<exists>m t. exec_path (demo_lib []) local_dev_init (exec_start [7] [] demo_link) m t \<and>
     \<not> running (at_phase t) \<and> elapsed t = 0 \<and> m \<le> 8"
  using exec_terminates [OF exec_path.here [of "demo_lib []" local_dev_init "exec_start [7] [] demo_link"]]
  by (simp add: exec_start_def)

end
