(* ===== verification/Audit_Trail.thy ===== *)
theory Audit_Trail
  imports Demo_Session
begin

text \<open>
  The audit trail of a session: the records that \<open>session.rs\<close> writes with the target \<open>sao::audit\<close>, and when. A
  record is written after the message to the client went out, so whether it is written depends on the
  connection. The functions follow the control flow of \<open>run_session\<close> and \<open>run_one_exec\<close>.
\<close>

section \<open>Records\<close>

datatype audit_record =
    AuthFailed (of_session: str) str
  | BadSignature (of_session: str)
  | AuthOk (of_session: str) str
  | DeniedShell (of_session: str) str
  | ExecDone (of_session: str) int
  | ExecTimedOut (of_session: str)

text \<open>\<open>chars().take(n)\<close> on the bytes of a text: a character is a byte and the continuation bytes after it.\<close>

fun take_chars :: "nat \<Rightarrow> str \<Rightarrow> str" where
  "take_chars n [] = []"
| "take_chars n (b # s) =
     (if is_cont b then b # take_chars n s
      else case n of 0 \<Rightarrow> [] | Suc m \<Rightarrow> b # take_chars m s)"

lemma take_chars_prefix: "prefix (take_chars n s) s"
  by (induction n s rule: take_chars.induct) (auto split: nat.split)

lemma take_chars_ascii: "list_all is_ascii s \<Longrightarrow> take_chars n s = take n s"
  by (induction n s rule: take_chars.induct) (auto simp: is_cont_def is_ascii_def split: nat.split)

section \<open>When they are written\<close>

definition auth_log ::
    "('vk, 'sk) lib \<Rightarrow> fs \<Rightarrow> server_config \<Rightarrow> session_env \<Rightarrow> codec \<Rightarrow> audit_record list" where
  "auth_log L w cfg env c =
     (case load_authorized_keys L w (authorized_keys_path cfg) of
        Ok keys \<Rightarrow>
     (case send_json L AUTH_CHALLENGE (challenge_json L (nonce env) (session_id env)) c of
        (c1, Ok _) \<Rightarrow>
     (case read_frame c1 of
        (c2, Ok resp) \<Rightarrow>
          if msg_type resp \<noteq> AUTH_RESPONSE then []
          else
     (case from_slice L de_auth_response (payload resp) of
        None \<Rightarrow> []
      | Some ar \<Rightarrow>
          if ar_key_type ar \<noteq> KEY_TYPE_ED25519 then []
          else
     (case find_key L keys (ar_fingerprint ar) of
        None \<Rightarrow>
          if is_ok (snd (send_auth_fail L ''UNKNOWN_KEY'' ''fingerprint not in authorized_keys'' c2))
          then [AuthFailed (session_id env) (ar_fingerprint ar)] else []
      | Some entry \<Rightarrow>
     (case verify_ed25519_signature L (vk_of entry) (signing_bytes (nonce env) (session_id env)) (ar_signature ar) of
        Err e \<Rightarrow>
          if is_ok (snd (send_auth_fail L ''BAD_SIGNATURE'' (core_error_display e) c2))
          then [BadSignature (session_id env)] else []
      | Panic \<Rightarrow> []
      | Ok _ \<Rightarrow>
          if is_ok (snd (send_json L AUTH_RESULT (result_json cfg L entry) c2))
          then [AuthOk (session_id env) (fingerprint_hex entry)] else [])))
      | _ \<Rightarrow> [])
      | _ \<Rightarrow> [])
      | _ \<Rightarrow> [])"

definition exec_log ::
    "('vk, 'sk) lib \<Rightarrow> server_config \<Rightarrow> str \<Rightarrow> exec_run \<Rightarrow> str \<Rightarrow> codec \<Rightarrow> audit_record list" where
  "exec_log L cfg sid run shell c =
     (case check_shell (uni_debug L) (policy cfg) shell of
        Err (PolicyDenied msg) \<Rightarrow>
          if is_ok (snd (send_json L POLICY_DENIED (policy_denied_json msg) c))
          then [DeniedShell sid (take_chars 80 shell)] else []
      | Panic \<Rightarrow> []
      | _ \<Rightarrow>
          (if length (shell_argv cfg) < 2 then []
           else case spawned run of
             Inl e \<Rightarrow> []
           | Inr pid \<Rightarrow>
               (case exec_future L run c of
                  (c1, acts, Some r) \<Rightarrow>
                    (case (r, ending run) of
                       (Ok _, Exited (Inr status)) \<Rightarrow> [ExecDone sid (exit_code_of status)]
                     | _ \<Rightarrow> [])
                | (c1, acts, None) \<Rightarrow>
                    if is_ok (snd (send_json L EXEC_EXIT (exit_json 124) c1)) then [ExecTimedOut sid] else [])))"

function loop_log ::
    "('vk, 'sk) lib \<Rightarrow> server_config \<Rightarrow> str \<Rightarrow> (nat \<Rightarrow> exec_run) \<Rightarrow> nat \<Rightarrow> codec \<Rightarrow> audit_record list" where
  "loop_log L cfg sid rs i c =
     (case read_frame c of
        (c1, Ok f) \<Rightarrow>
          if msg_type f = EXEC_SHELL
          then (case from_slice L de_exec_shell (payload f) of
              None \<Rightarrow> []
            | Some shell \<Rightarrow>
                exec_log L cfg sid (rs i) shell c1 @
                (case run_one_exec L cfg (rs i) shell c1 of
                   (c2, acts, Ok _) \<Rightarrow> loop_log L cfg sid rs (Suc i) c2
                 | _ \<Rightarrow> []))
          else []
      | _ \<Rightarrow> [])"
  by pat_completeness auto
termination
  by (relation "measure (\<lambda>(L, cfg, sid, rs, i, c). length (inp (inner c)))")
     (auto intro: exec_loop_decreases)

declare loop_log.simps [simp del]

definition session_log ::
    "('vk, 'sk) lib \<Rightarrow> fs \<Rightarrow> server_config \<Rightarrow> session_env \<Rightarrow> codec \<Rightarrow> audit_record list" where
  "session_log L w cfg env c =
     auth_log L w cfg env c @
     (case session_auth L w cfg env c of
        (c1, Ok (Some entry)) \<Rightarrow> loop_log L cfg (session_id env) (runs env) 0 c1
      | _ \<Rightarrow> [])"

section \<open>Facts\<close>

text \<open>A command has a record exactly if it was answered to the end.\<close>

fun ended_command :: "audit_record \<Rightarrow> bool" where
  "ended_command (ExecDone sid n) = True"
| "ended_command (ExecTimedOut sid) = True"
| "ended_command _ = False"

lemma exec_future_Ok:
  "exec_future L run c = (c', acts, Some (Ok u)) \<Longrightarrow> \<exists>status. ending run = Exited (Inr status)"
  by (auto simp: exec_future_def split: prod.splits res.splits exec_ending.splits sum.splits)

lemma exec_log_record:
  assumes "run_one_exec L cfg run shell c = (c', acts, r)"
  shows "if is_ok r
    then \<exists>e. exec_log L cfg sid run shell c = [e] \<and> of_session e = sid \<and> (ended_command e \<longleftrightarrow> acts \<noteq> [])
    else exec_log L cfg sid run shell c = []"
proof (cases rule: check_shell_cases [of "uni_debug L" "policy cfg" shell])
  case (denied msg)
  with assms show ?thesis by (auto simp: run_one_exec_def exec_log_def split: prod.splits)
next
  case allowed
  show ?thesis
  proof (cases "length (shell_argv cfg) < 2 \<or> (\<exists>e. spawned run = Inl e)")
    case True
    with assms allowed show ?thesis
      by (auto simp: run_one_exec_def exec_log_def Let_def split: if_splits)
  next
    case False
    then obtain pid where pid: "spawned run = Inr pid" and len: "\<not> length (shell_argv cfg) < 2"
      by (cases "spawned run") auto
    obtain c1 as y where e: "exec_future L run c = (c1, as, y)" using prod_cases3 by blast
    show ?thesis
    proof (cases y)
      case None
      with assms allowed pid len e show ?thesis
        by (auto simp: run_one_exec_def exec_log_def Let_def split: prod.splits)
    next
      case (Some z)
      with assms allowed pid len e exec_future_Ok [of L run c c1 as] show ?thesis
        by (cases z) (auto simp: run_one_exec_def exec_log_def Let_def)
    qed
  qed
qed

lemma run_one_exec_counts:
  "run_one_exec L cfg run shell c = (c', acts, r) \<Longrightarrow> length (starts acts) = (if acts = [] then 0 else 1)"
  using run_one_exec_acts(1) by (fastforce dest: starts_child_end)

definition kept :: "str \<Rightarrow> audit_record list \<Rightarrow> bool" where
  "kept sid es \<longleftrightarrow> (\<forall>e \<in> set es. of_session e = sid)"

lemma loop_log_counts:
  assumes "exec_loop L cfg rs i c = (c', acts, r)"
  shows "kept sid (loop_log L cfg sid rs i c) \<and>
    length (starts acts) \<le> Suc (length (filter ended_command (loop_log L cfg sid rs i c))) \<and>
    (r = Ok () \<longrightarrow> length (starts acts) = length (filter ended_command (loop_log L cfg sid rs i c)))"
  using assms
proof (induction "length (inp (inner c))" arbitrary: c i acts rule: less_induct)
  case less
  note unfold = loop_log.simps [of L cfg sid rs i c]
  from less.prems show ?case
  proof (cases rule: exec_loop_cases)
    case (unread y)
    have "loop_log L cfg sid rs i c = []"
      using unread(1) unread(4) by (cases y) (auto simp: unfold)
    with unread(2) show ?thesis by (simp add: kept_def)
  next
    case (refused c1 f)
    then show ?thesis by (simp add: unfold kept_def)
  next
    case (last c1 f shell)
    with exec_log_record [OF last(4), of sid] run_one_exec_counts [OF last(4)] show ?thesis
      by (cases r) (auto simp: unfold kept_def)
  next
    case (more c1 f shell c2 as acts')
    obtain e where e: "exec_log L cfg sid (rs i) shell c1 = [e]" "of_session e = sid" "ended_command e \<longleftrightarrow> as \<noteq> []"
      using exec_log_record [OF more(4), of sid] by auto
    have "loop_log L cfg sid rs i c = e # loop_log L cfg sid rs (Suc i) c2"
      using more(1-4) e(1) by (simp add: unfold)
    with less.hyps [OF exec_loop_decreases [OF more(1) [symmetric] more(4) [symmetric]] more(6)]
      run_one_exec_counts [OF more(4)] more(5) e(2,3)
    show ?thesis by (auto simp: kept_def)
  qed
qed

lemma auth_log_record:
  assumes "session_auth L w cfg env c = (c', r)"
  shows "kept (session_id env) (auth_log L w cfg env c)"
    and "\<not> list_ex ended_command (auth_log L w cfg env c)"
    and "r = Ok (Some entry) \<Longrightarrow> auth_log L w cfg env c = [AuthOk (session_id env) (fingerprint_hex entry)]"
proof -
  have "auth_log L w cfg env c \<in> {[], [BadSignature (session_id env)]} \<union>
      range (\<lambda>fp. [AuthFailed (session_id env) fp]) \<union> range (\<lambda>fp. [AuthOk (session_id env) fp])"
    by (auto simp: auth_log_def split: prod.splits res.splits option.splits)
  then show "kept (session_id env) (auth_log L w cfg env c)" "\<not> list_ex ended_command (auth_log L w cfg env c)"
    by (auto simp: kept_def)
  assume "r = Ok (Some entry)"
  with assms obtain keys c1 u resp c2 ar v z where
    "load_authorized_keys L w (authorized_keys_path cfg) = Ok keys"
    "send_json L AUTH_CHALLENGE (challenge_json L (nonce env) (session_id env)) c = (c1, Ok u)"
    "read_frame c1 = (c2, Ok resp)" "msg_type resp = AUTH_RESPONSE"
    "from_slice L de_auth_response (payload resp) = Some ar" "ar_key_type ar = KEY_TYPE_ED25519"
    "find_key L keys (ar_fingerprint ar) = Some entry"
    "verify_ed25519_signature L (vk_of entry) (signing_bytes (nonce env) (session_id env)) (ar_signature ar) = Ok v"
    "send_json L AUTH_RESULT (result_json cfg L entry) c2 = (c', Ok z)"
    by (auto simp: session_auth_def Let_def res_iff send_auth_fail_def send_error_def result_json_def
        split: prod.splits res.splits option.splits if_splits)
  then show "auth_log L w cfg env c = [AuthOk (session_id env) (fingerprint_hex entry)]"
    by (simp add: auth_log_def)
qed

section \<open>Properties\<close>

text \<open>
  C21. The audit trail accounts for the commands. All records of a session carry its identifier. If the session
  started anything, the first record says with which registered key it was authenticated. When the session
  ends without an error there is exactly one record of an ended command (with its exit code, or of its
  deadline) for each process that was started; otherwise at most one started process is missing.
\<close>

theorem audit_accounts:
  assumes "run_session L w cfg env c = (c', acts, r)"
  shows "(\<forall>e \<in> set (session_log L w cfg env c). of_session e = session_id env) \<and>
    (acts \<noteq> [] \<longrightarrow> (\<exists>c1 entry rest. session_auth L w cfg env c = (c1, Ok (Some entry)) \<and>
      session_log L w cfg env c = AuthOk (session_id env) (fingerprint_hex entry) # rest)) \<and>
    length (starts acts) \<le> Suc (length (filter ended_command (session_log L w cfg env c))) \<and>
    (r = Ok () \<longrightarrow> length (starts acts) = length (filter ended_command (session_log L w cfg env c)))"
proof -
  obtain c1 x where a: "session_auth L w cfg env c = (c1, x)" by fastforce
  note log = auth_log_record [OF a]
  have none: "filter ended_command (auth_log L w cfg env c) = []"
    using log(2) by (simp add: filter_empty_conv list_ex_iff)
  show ?thesis
  proof (cases "\<exists>entry. x = Ok (Some entry)")
    case True
    then obtain entry where x: "x = Ok (Some entry)" by blast
    with a assms have l: "exec_loop L cfg (runs env) 0 c1 = (c', acts, r)" by (simp add: run_session_def)
    have "session_log L w cfg env c = AuthOk (session_id env) (fingerprint_hex entry) #
        loop_log L cfg (session_id env) (runs env) 0 c1"
      using a x log(3) [OF x] by (simp add: session_log_def)
    with loop_log_counts [OF l, of "session_id env"] a x show ?thesis by (simp add: kept_def)
  next
    case False
    with a assms have "acts = []" by (auto simp: run_session_def split: res.splits option.splits)
    moreover have "session_log L w cfg env c = auth_log L w cfg env c"
      using a False by (simp add: session_log_def split: res.split option.split)
    ultimately show ?thesis using log(1) none by (simp add: kept_def)
  qed
qed

theorem audit_accounts_witness:
  "\<exists>fp rest. session_log session_lib demo_server_fs demo_config demo_env demo_conn = AuthOk ''s1'' fp # rest \<and>
     length (filter ended_command rest) = 1"
proof -
  obtain c' acts where r: "run_session session_lib demo_server_fs demo_config demo_env demo_conn = (c', acts, Ok ())"
    "starts acts = [(''bash'', [''-lc'', ''echo hi''])]"
    using demo_session by blast
  then have "acts \<noteq> []" by auto
  with audit_accounts [OF r(1)] r(2) show ?thesis by (auto simp: demo_env_def)
qed

text \<open>
  The missing record: the client closes its connection as soon as the command is running, and the first
  output cannot be written. The command was started, and the trail does not say so.
\<close>

lemma unrecorded_command:
  assumes "check_shell (uni_debug L) (policy cfg) shell = Ok ()" and "2 \<le> length (shell_argv cfg)"
    and "spawned run = Inr pid" and "chunks run = ch # chs"
    and "write_frame (msg_type (chunk_frame L ch)) (payload (chunk_frame L ch)) c = (c1, Err e)"
  shows "exec_log L cfg sid run shell c = [] \<and>
    (\<exists>prog args. run_one_exec L cfg run shell c = (c1, [Spawn prog args, DropKill], Err (BoxProtocol e)))"
  using assms by (simp add: exec_log_def run_one_exec_def exec_future_def Let_def drop_child_def)

end
