(* ===== verification/Unit_Tests.thy ===== *)
theory Unit_Tests
  imports Codec_Facts Known_Hosts_Props Keys_Props Config
begin

text \<open>
  The unit tests of the source, translated to the model: each test is a predicate over the model's functions
  with the assertions of the test, and a lemma says that it passes. So the model agrees with the program on
  what its authors check. A duplex pipe of \<open>tokio\<close> is a stream that holds what the other end has written;
  a temporary directory is an empty file system.
\<close>

section \<open>Frame codec\<close>

definition other_end :: "codec \<Rightarrow> stream" where
  "other_end c = pipe_end (sent (get_ref c))"

definition challenge_text :: bytes where
  "challenge_text = as_bytes (''{'' @ [CHR 0x22] @ ''nonce'' @ [CHR 0x22] @ '':'' @ [CHR 0x22] @ ''eA=='' @ [CHR 0x22] @
     '','' @ [CHR 0x22] @ ''session_id'' @ [CHR 0x22] @ '':'' @ [CHR 0x22] @ ''s1'' @ [CHR 0x22] @ ''}'')"

definition roundtrip_over_duplex :: bool where
  "roundtrip_over_duplex \<longleftrightarrow>
     (let body = challenge_text in
      case write_frame AUTH_CHALLENGE body (codec_new (pipe_end [])) of
        (ca, Ok _) \<Rightarrow>
          (case read_frame (codec_new (other_end ca)) of
             (cb, Ok f) \<Rightarrow> msg_type f = AUTH_CHALLENGE \<and> payload f = body
           | _ \<Rightarrow> False)
      | _ \<Rightarrow> False)"

text \<open>What the tests write past the codec with \<open>get_mut\<close>.\<close>

definition raw_write :: "bytes \<Rightarrow> codec \<Rightarrow> codec" where
  "raw_write bs c = fst (get_mut (write_all bs) c)"

definition payload_too_large_rejected_on_read :: bool where
  "payload_too_large_rejected_on_read \<longleftrightarrow>
     (case (write_header (replicate HEADER_LEN 0) VERSION ERROR 11 :: (protocol_error, bytes) res) of
        Ok hdr \<Rightarrow>
          (let ca = raw_write (replicate 11 0) (raw_write hdr (with_max_payload_len (pipe_end []) 10)) in
           case read_frame (with_max_payload_len (other_end ca) 10) of
             (cb, Err (PayloadTooLarge len m)) \<Rightarrow> len = 11 \<and> m = 10
           | _ \<Rightarrow> False)
      | _ \<Rightarrow> False)"

definition bad_magic_fails :: bool where
  "bad_magic_fails \<longleftrightarrow>
     (let ca = raw_write [VERSION, 1, 0, 0, 0, 0] (raw_write (as_bytes ''XXX'') (codec_new (pipe_end []))) in
      snd (read_frame (codec_new (other_end ca))) = Err InvalidMagic)"

definition wrong_version_fails :: bool where
  "wrong_version_fails \<longleftrightarrow>
     (case (write_header (replicate HEADER_LEN 0) 0xFF ERROR 0 :: (protocol_error, bytes) res) of
        Ok hdr \<Rightarrow>
          (let ca = raw_write hdr (codec_new (pipe_end [])) in
           snd (read_frame (codec_new (other_end ca))) = Err (UnsupportedVersion 0xFF))
      | _ \<Rightarrow> False)"

lemma codec_new_limit [simp]: "max_payload_len (codec_new s) = DEFAULT_MAX_PAYLOAD_LEN" "inner (codec_new s) = s"
  by (simp_all add: codec_new_def)

lemma raw_write_sent [simp]:
  "room (inner c) = None \<Longrightarrow> sent (inner (raw_write bs c)) = sent (inner c) @ bs"
  "room (inner c) = None \<Longrightarrow> room (inner (raw_write bs c)) = None"
  by (simp_all add: raw_write_def get_mut_def write_all_def)

lemma roundtrip_over_duplex_passes: roundtrip_over_duplex
proof -
  have "\<exists>ca. write_frame t p (codec_new (pipe_end [])) = (ca, Ok ()) \<and>
      (\<exists>cb. read_frame (codec_new (other_end ca)) = (cb, Ok \<lparr>msg_type = t, payload = p\<rparr>))"
    if "length p \<le> 1048576" for t p
    using that read_frame_enc [of "codec_new (pipe_end (frame_enc \<lparr>msg_type = t, payload = p\<rparr>))" _ "[]"]
    by (simp add: write_frame_ok codec_limit_default other_end_def get_ref_def)
  moreover have "length challenge_text \<le> 1048576" by (simp add: challenge_text_def as_bytes_def)
  ultimately obtain ca cb where "write_frame AUTH_CHALLENGE challenge_text (codec_new (pipe_end [])) = (ca, Ok ())"
    "read_frame (codec_new (other_end ca)) = (cb, Ok \<lparr>msg_type = AUTH_CHALLENGE, payload = challenge_text\<rparr>)"
    by blast
  then show ?thesis by (simp add: roundtrip_over_duplex_def)
qed

lemma payload_too_large_rejected_on_read_passes: payload_too_large_rejected_on_read
proof -
  let ?c = "with_max_payload_len (pipe_end (header_bytes ERROR 11 @ replicate 11 0)) 10"
  have "snd (read_frame ?c) = Err (PayloadTooLarge 11 10)"
    by (simp add: read_frame_def read_exact_def HEADER_LEN_def with_max_payload_len_def parse_header_bytes)
  then show ?thesis
    by (cases "read_frame ?c")
       (simp add: payload_too_large_rejected_on_read_def other_end_def get_ref_def wire_simps Let_def,
        simp add: with_max_payload_len_def)
qed

lemma bad_magic_fails_passes: bad_magic_fails
  by (simp add: bad_magic_fails_def other_end_def get_ref_def read_frame_def read_exact_def HEADER_LEN_def
      parse_header_def MAGIC_bytes as_bytes_def byte_of_char_def)

lemma wrong_version_fails_passes: wrong_version_fails
  by (simp add: wrong_version_fails_def other_end_def get_ref_def write_header_def read_frame_def read_exact_def
      HEADER_LEN_def parse_header_def MAGIC_bytes VERSION_def to_be_bytes_def)

section \<open>Agent keys\<close>

definition public_key_path_suffix :: bool where
  "public_key_path_suffix \<longleftrightarrow>
     public_key_path (path_join (path_from ''keys'') ''agent.ed25519'') =
     path_join (path_from ''keys'') ''agent.ed25519.pub''"

definition load_or_create_writes_pub ::
    "('vk, 'sk) lib \<Rightarrow> 'sk \<Rightarrow> 'sk \<Rightarrow> fs \<Rightarrow> path \<Rightarrow> bool" where
  "load_or_create_writes_pub L g g' w dir \<longleftrightarrow>
     (let priv_path = path_join dir ''agent.ed25519''; pub_path = public_key_path priv_path in
      case load_or_create_signing_key L g priv_path w of
        (w1, Ok sk) \<Rightarrow>
          fs_exists w1 priv_path \<and> fs_exists w1 pub_path \<and>
          (case read_to_string w1 pub_path of
             Ok pub_s \<Rightarrow> contains pub_s KEY_TYPE_ED25519 \<and>
               contains pub_s (b64_encode L (vk_to_bytes L (verifying_key L sk)))
           | _ \<Rightarrow> False) \<and>
          (case load_or_create_signing_key L g' priv_path w1 of
             (w2, Ok sk2) \<Rightarrow> sk_to_bytes L sk = sk_to_bytes L sk2
           | _ \<Rightarrow> False)
      | _ \<Rightarrow> False)"

lemma public_key_path_suffix_passes: public_key_path_suffix
  by (simp add: public_key_path_suffix_def public_key_path_def path_join_def path_from_def path_pop_def
      path_parent_def file_name_def Let_def)

text \<open>
  The test passes for every signature scheme with the documented laws, whatever key is generated, provided
  that the temporary directory is fresh and that nothing in it fails.
\<close>

lemma load_or_create_writes_pub_passes:
  assumes "b64_spec L" and "sk_spec L" and "fault w = (\<lambda>_. None)"
    and new: "\<not> fs_exists w (path_join dir ''agent.ed25519'')"
    and name: "file_name (path_join dir ''agent.ed25519'') = Some ''agent.ed25519''"
    and first: "load_or_create_signing_key L g (path_join dir ''agent.ed25519'') w = (w1, Ok sk)"
    and again: "load_or_create_signing_key L g' (path_join dir ''agent.ed25519'') w1 = (w2, Ok sk2)"
  shows "load_or_create_writes_pub L g g' w dir"
proof -
  let ?p = "path_join dir ''agent.ed25519''"
  from load_or_create_Ok [OF first] new assms(3) have f: "fault w1 = (\<lambda>_. None)"
    "files w1 = (files w)(?p \<mapsto> private_body L g, public_key_path ?p \<mapsto> public_body L sk)" by simp_all
  have "read_to_string w1 (public_key_path ?p) = Ok (public_body L sk)"
    using f public_body_ascii [OF assms(1), of sk] by (simp add: read_to_string_Ok ascii_utf8_valid)
  moreover have k: "contains (A @ x @ B) x" for A x B :: str
    by (simp add: contains_iff_sublist)
  let ?A = "''# Append this line to the server'' @ [CHR 0x27] @ ''s authorized_keys file.'' @ [nl]"
    and ?K = "b64_encode L (vk_to_bytes L (verifying_key L sk))"
  have "contains (public_body L sk) KEY_TYPE_ED25519" "contains (public_body L sk) ?K"
    using k [of ?A KEY_TYPE_ED25519 "'' '' @ ?K @ '' agent'' @ [nl]"]
      k [of "?A @ KEY_TYPE_ED25519 @ '' ''" ?K "'' agent'' @ [nl]"]
    unfolding public_body_def public_line_def append_assoc by this+
  moreover have "sk2 = sk"
    using same_key_again [OF assms(1,2) name _ _ first again] assms(3) by simp
  ultimately show ?thesis
    using first again f by (simp add: load_or_create_writes_pub_def fs_exists_def)
qed

section \<open>Configuration\<close>

definition local_dev_init_save_load_roundtrip ::
    "(server_config \<Rightarrow> str + str) \<Rightarrow> (str \<Rightarrow> str + server_config) \<Rightarrow> fs \<Rightarrow> path \<Rightarrow> bool" where
  "local_dev_init_save_load_roundtrip yaml_write yaml_read w dir \<longleftrightarrow>
     (let p = path_join dir ''cfg.yaml''; c = local_dev_init in
      case server_config_save yaml_write c p w of
        (w1, Ok _) \<Rightarrow>
          (case server_config_load yaml_read w1 p of
             Ok c2 \<Rightarrow> listen c = listen c2 \<and> cert_path (tls c) = cert_path (tls c2) \<and>
               authorized_keys_path c = authorized_keys_path c2 \<and>
               deny_substrings (policy c) = deny_substrings (policy c2)
           | _ \<Rightarrow> False)
      | _ \<Rightarrow> False)"

lemma local_dev_init_save_load_roundtrip_passes:
  assumes "yaml_write local_dev_init = Inr doc" and "yaml_read doc = Inr local_dev_init" and "utf8_valid doc"
    and "fault w = (\<lambda>_. None)"
    and "server_config_save yaml_write local_dev_init (path_join dir ''cfg.yaml'') w = (w1, Ok u)"
  shows "local_dev_init_save_load_roundtrip yaml_write yaml_read w dir"
  using config_save_load [where yaml_write = yaml_write and yaml_read = yaml_read, OF assms(5,1-3)] assms(4,5)
  by (simp add: local_dev_init_save_load_roundtrip_def)

section \<open>Known hosts\<close>

definition roundtrip_save_load :: "('vk, 'sk) lib \<Rightarrow> (str \<Rightarrow> str) \<Rightarrow> fs \<Rightarrow> path \<Rightarrow> bool" where
  "roundtrip_save_load L uni w dir \<longleftrightarrow>
     (let p = path_join dir ''kh'' in
      case insert_hex uni ''127.0.0.1'' 8443 (replicate 64 CHR ''a'') known_hosts_default of
        (k, Ok _) \<Rightarrow>
          (case known_hosts_save L k p w of
             (w1, Ok _) \<Rightarrow>
               (case known_hosts_load uni w1 p of
                  Ok k2 \<Rightarrow> pin_hex uni k2 ''127.0.0.1'' 8443 = Ok (replicate 32 0xAA)
                | _ \<Rightarrow> False)
           | _ \<Rightarrow> False)
      | _ \<Rightarrow> False)"

definition parse_line_uppercase_hex :: "(str \<Rightarrow> str) \<Rightarrow> fs \<Rightarrow> path \<Rightarrow> bool" where
  "parse_line_uppercase_hex uni w dir \<longleftrightarrow>
     (let p = path_join dir ''kh'' in
      case fs_write p (''example.com 443 '' @ replicate 64 CHR ''b'' @ [nl]) w of
        (w1, Ok _) \<Rightarrow>
          (case known_hosts_load uni w1 p of
             Ok k \<Rightarrow> is_ok (pin_hex uni k ''example.com'' 443)
           | _ \<Rightarrow> False)
      | _ \<Rightarrow> False)"

lemma host_ok_literals: "host_ok uni ''127.0.0.1''" "host_ok uni ''example.com''"
proof -
  have ok: "host_ok uni h"
    if "list_all graphic h" "h \<noteq> []" "hd h \<noteq> CHR ''#''" "normalize_host uni h = h" for h
    using that by (simp add: host_ok_def no_ws_graphic ascii_utf8_valid graphic_utf8)
  have "normalize_host uni ''127.0.0.1'' = ''127.0.0.1''" "normalize_host uni ''example.com'' = ''example.com''"
    by (simp_all add: normalize_host_def trim_matches_def to_lowercase_def is_ascii_def code_def to_ascii_lower_def)
  then show "host_ok uni ''127.0.0.1''" "host_ok uni ''example.com''"
    by (simp_all add: ok graphic_def code_def)
qed

lemma hex_literals: "hex_byte 0xAA = ''aa''" "hex_byte 0xBB = ''bb''" "show_u16 443 = ''443''"
  by code_simp+

lemma hex_pairs: "hex_byte b = [c, c] \<Longrightarrow> concat (replicate n (hex_byte b)) = replicate (2 * n) c"
  by (induction n) simp_all

lemmas hex_repeated = hex_pairs [OF hex_literals(1), of 32, simplified] hex_pairs [OF hex_literals(2), of 32, simplified]

text \<open>As for the keys, the directory is fresh and the writing of the test's own file does not fail.\<close>

lemma roundtrip_save_load_passes:
  assumes "hex_spec L" and "fault w = (\<lambda>_. None)"
    and k: "insert_hex uni ''127.0.0.1'' 8443 (replicate 64 CHR ''a'') known_hosts_default = (k, Ok u)"
    and save: "known_hosts_save L k (path_join dir ''kh'') w = (w1, Ok v)"
  shows "roundtrip_save_load L uni w dir"
proof -
  have p: "parse_hex32 uni (replicate 64 CHR ''a'') = Ok (replicate 32 0xAA)"
    using parse_hex32_hex [of "replicate 32 0xAA" uni] hex_repeated(1) by simp
  have n: "normalize_host uni ''127.0.0.1'' = ''127.0.0.1''"
    using host_ok_literals(1) [of uni] by (simp add: host_ok_def)
  have kk: "k = known_hosts_default\<lparr>pins := Mapping.update (HostKey ''127.0.0.1'' 8443) (replicate 32 0xAA)
      (pins known_hosts_default)\<rparr>"
    using k by (simp add: insert_hex_def p n)
  then have "kh_inv k" using kh_inv_update [OF kh_inv_default] by simp
  moreover have "\<forall>key \<in> Mapping.keys (pins k). host_ok uni (hk_host key)"
    using host_ok_literals(1) by (simp add: kk known_hosts_default_def)
  ultimately have "known_hosts_load uni w1 (path_join dir ''kh'') = Ok k"
    using assms(2) by (intro save_then_load [OF assms(1) _ _ save]) simp_all
  with k save show ?thesis
    by (simp add: roundtrip_save_load_def pin_hex_def n) (simp add: kk Mapping.lookup_update)
qed

lemma parse_line_uppercase_hex_passes:
  assumes "fault w = (\<lambda>_. None)"
    and "fs_write (path_join dir ''kh'') (''example.com 443 '' @ replicate 64 CHR ''b'' @ [nl]) w = (w1, Ok u)"
  shows "parse_line_uppercase_hex uni w dir"
proof -
  let ?l = "''example.com 443 '' @ replicate 64 CHR ''b''" and ?p = "path_join dir ''kh''"
  have l: "pin_line ''example.com'' 443 (replicate 32 0xBB) = ?l"
    using hex_repeated(2) by (simp add: pin_line_def hex_literals(3))
  have "utf8_valid (?l @ [nl])"
    by (rule ascii_utf8_valid) (simp add: is_ascii_def code_def list_all_iff)
  then have "read_to_string w1 ?p = Ok (?l @ [nl])" "fs_exists w1 ?p"
    using fs_write_Ok [OF assms(2)] assms(1) by (simp_all only: read_to_string_Ok fs_exists_def) simp_all
  moreover have "lines (?l @ [nl]) = [?l]"
    using lines_concat [of "[?l]"] pin_line_text [of "''example.com''" "replicate 32 0xBB" 443]
      host_ok_literals(2) [of uni] by (simp add: l host_ok_def)
  moreover have "host_line uni n ?l = Ok (Some (HostKey ''example.com'' 443, replicate 32 0xBB))" for n
    using host_line_pin_line [OF host_ok_literals(2), of "replicate 32 0xBB" uni n 443] by (simp add: l)
  ultimately have "known_hosts_load uni w1 ?p = Ok (known_hosts_default\<lparr>pins :=
      Mapping.update (HostKey ''example.com'' 443) (replicate 32 0xBB) (pins known_hosts_default)\<rparr>)"
    by (simp add: known_hosts_load_def)
  moreover have "normalize_host uni ''example.com'' = ''example.com''"
    using host_ok_literals(2) [of uni] by (simp add: host_ok_def)
  ultimately show ?thesis
    using assms(2) by (simp add: parse_line_uppercase_hex_def pin_hex_def Mapping.lookup_update)
qed

end
