(* ===== verification/Spec2Isabelle.thy ===== *)
theory Spec2Isabelle
  imports Tls_Util Server_Tasks Protocol Whole_Run Freshness Exec_Ends Audit_Trail Unit_Tests
begin

text \<open>
  Verification of sao: a server that runs shell commands for registered agents, and its client. Client and
  server speak a framed protocol over TLS. The client accepts a server by the pinned digest of its key, the
  server accepts a client by an Ed25519 signature over a fresh challenge, and a deny list decides which
  commands are run. The source is under \<open>src/crates\<close>: \<open>sao-protocol\<close>, \<open>sao-core\<close>, \<open>sao-server\<close>, \<open>sao-client\<close>.

  Conventions. A fallible function returns \<open>res\<close>: a value, an error of the source's error type, or \<open>Panic\<close>, so
  every early return and every panic of the source is a branch. State is passed explicitly: \<open>codec\<close> for a
  connection (the bytes still to come, the bytes sent, and how reads and writes fail), \<open>fs\<close> for files,
  \<open>client_world\<close> for everything the client acts on. Strings are lists of bytes in UTF-8, as Rust has them, with
  slicing that panics off a character boundary. Machine integers are words of their width. Third-party
  crates (base64, hex, sha2, ed25519-dalek, serde_json, x509-parser) are the fields of the record \<open>lib\<close>, an
  argument of every definition that uses them; their documented behaviour, where a property needs it, is
  a hypothesis with a name (\<open>b64_spec\<close>, \<open>hex_spec\<close>, \<open>sign_spec\<close>, ...). \<open>Demo_Library\<close> is an instance for witnesses.

  Foundations.
  \<^item> \<open>Prelude\<close>: results, bytes, shared collections of simplification rules. \<open>Rust_Str\<close>, \<open>Rust_Str_Facts\<close>: the
    string and integer functions of the standard library that the program calls. \<open>Errors\<close>: the error types
    (\<open>error.rs\<close> of both libraries). \<open>Json\<close>, \<open>Library\<close>: JSON values and the third-party crates. \<open>Paths\<close>: paths and
    the file system, with failing operations.

  Protocol crate.
  \<^item> \<open>Frame\<close> (\<open>msg_type.rs\<close>, \<open>frame.rs\<close>), \<open>Codec\<close> (\<open>codec.rs\<close>): header layout, reading and writing of frames.
    \<open>Transport\<close> states the interface of a frame transport as a locale, \<open>Codec_Facts\<close> interprets it on the codec
    and has the round trip, soundness, truncation, limit and write-failure properties.

  Core crate.
  \<^item> \<open>Config\<close> (\<open>config.rs\<close>, \<open>policy.rs\<close>), \<open>Authorized_Keys\<close> (\<open>authorized_keys.rs\<close>, \<open>auth_message.rs\<close>), \<open>Agent_Key\<close>
    (\<open>agent_key.rs\<close>), \<open>Keys_Props\<close>: registration of agents, signatures, the life of a key file.
  \<^item> \<open>Pin_Store\<close>: the interface of the store of pins, a locale; \<open>Known_Hosts\<close> (\<open>known_hosts.rs\<close>) interprets it;
    \<open>Known_Hosts_Props\<close>: its invariant, where a pin comes from, the round trip through the file. \<open>Spki\<close> (\<open>spki.rs\<close>): fingerprints.

  Server.
  \<^item> \<open>Tls_Util\<close> (\<open>tls_util.rs\<close>, \<open>cmd_init\<close> of \<open>main.rs\<close>): certificate files and initialisation.
  \<^item> \<open>Session\<close> (\<open>session.rs\<close>): authentication, the command loop, one command. \<open>Session_Props\<close>: who is let in, what
    is run, how it is answered, what becomes of child processes. \<open>Exec_Steps\<close>: the tasks inside of one command as
    a step relation, which refines the function of \<open>Session\<close>; its invariants; progress. \<open>Exec_Ends\<close>: the
    tasks terminate, with a bound on their steps. \<open>Protocol\<close>: an automaton of the server's messages, which
    the session refines for every input. \<open>Audit_Trail\<close>: the audit records of a session and what they account for.
  \<^item> \<open>Server\<close> (\<open>run_server\<close> and \<open>main\<close> of \<open>main.rs\<close>), \<open>Server_Props\<close>: start, the two accept loops and all sessions, each
    connection as one event. \<open>Session_Tasks\<close> cuts a session at its reads of frames; \<open>Server_Tasks\<close> runs the loops,
    the handshakes and the sessions as tasks that are interleaved in any way, shows that every task does what
    the one-event view says (\<open>tasks_refine_sessions\<close>), and that no client is kept waiting by another.

  Client.
  \<^item> \<open>Client_World\<close>: what the client acts on and the sequencing of the \<open>?\<close> operator. \<open>Connect\<close> (\<open>connect.rs\<close>, and from
    \<open>main.rs\<close> the trust functions and \<open>parse_addr\<close>), \<open>Connect_Props\<close>, \<open>Addr_Props\<close>: pins, consent, addresses.
  \<^item> \<open>Client\<close> (\<open>run_session\<close> and \<open>main\<close> of \<open>main.rs\<close>), \<open>Client_Props\<close>: what a session prints, sends and returns.
    \<open>Commands\<close>: the subcommands and what they leave for later runs.

  The whole system.
  \<^item> \<open>Causality\<close>: both ends act on what has arrived and on nothing else, so the function of a session on a part
    of its input says what it has done when it waits for more. \<open>Conversation\<close>: client and server run at the
    same time and the network delivers bytes in pieces, in any order of the two directions; the interface
    \<open>duplex\<close> is a locale, interpreted on the two sessions. Every schedule ends, and all end in the same state.
  \<^item> \<open>Exchange\<close>: the byte streams of a session that are consistent with both ends and reached by every
    schedule. \<open>Demo_Session\<close> is a concrete session. This theory states what a user of the system relies on:
    an allowed command behaves like a local one, a forbidden one is refused, an unregistered agent gets
    nothing.
  \<^item> \<open>Whole_Run\<close>: the program \<open>sao run\<close> from the known hosts file to its exit status, composed of connecting, the
    session and the conversation. \<open>Freshness\<close>: a recorded response is of no use in another session; the signed
    message does not name the server.
  \<^item> \<open>Unit_Tests\<close>: the tests of the source, which the model passes.

  Bounds. No fuel is used. The loops that read frames end because each frame shortens the input that is left;
  a session task needs at most one turn for each byte of its input and three more (\<open>session_finishes\<close>);
  a command in \<open>Exec_Steps\<close> has a measure that every step but the clock decreases, and \<open>Exec_Ends\<close> turns it into a
  bound of 3 (n + m) + 5 steps for n and m bytes of output. A conversation ends because the client sends at
  most two frames and the server's answer to what has arrived is finite. The payload limit in the
  properties about complete exchanges is the default of the code, 1 MiB, and \<open>stream_frames_fit\<close> shows that
  output frames stay below 21,865 bytes.

  Not modelled. TLS itself, sockets and the YAML, X.509 and argument parsers are libraries: they appear as
  arguments or as the results of each attempt. Log messages other than the audit records, the text format
  of those, and file permissions are left out. \<open>lib.rs\<close> of the core library only re-exports names. Among the
  tasks of a server, one turn of a session includes the whole run of a command; the steps inside of it are
  those of \<open>Exec_Steps\<close>. An exit status is the \<open>i32\<close> given to \<open>process::exit\<close>, of which an operating system may
  keep only the low eight bits. Paths are lists of components, so \<open>//etc\<close> is \<open>/etc\<close>. A path whose metadata
  cannot be read counts as missing for \<open>exists\<close>, as in the code (\<open>Hidden\<close> faults); a \<open>create_dir_all\<close> that fails
  may leave the first directories of its path behind.
\<close>

section \<open>Properties of the whole system\<close>

text \<open>
  C1. A remote command behaves like a local one. Let the agent's key be one of those whose public files
  make up the server's \<open>authorized_keys\<close>, and let the policy allow the command. Then client and server,
  each reading what the other sends, reach one end, whatever pieces and order the network delivers the
  bytes in (\<open>exchange\<close>): the server has started exactly the configured shell with this command, the client has
  written to standard output and standard error exactly the bytes of the command's output, and exits with
  its exit code (-1 for a signal, 124 for a deadline).
\<close>

theorem remote_command:
  assumes "crypto_ok L" and "server_ready L sw cfg sks" and "sk \<in> set sks" and "distinguished L sk sks"
    and "auth_documents L cfg env sk sks" and "can_print w"
    and "load_or_create_signing_key L g key_file (disk w) = (d, Ok sk)"
    and "readable L (exec_json shell)" and "allowed L cfg shell" and "clean_run (runs env 0)"
    and "\<forall>ch \<in> set (chunks (runs env 0)). readable_chunk L ch"
    and "readable_exit L (exit_status (runs env 0))"
  shows "\<exists>acts w'. exchange L sw cfg env g key_file shell w acts (Ok ()) w' (Ok (exit_status (runs env 0))) \<and>
    starts acts = [shell_start cfg shell] \<and>
    out_text w' = out_text w @ str_of_bytes (outs (chunks (runs env 0))) \<and>
    err_text w' = err_text w @ str_of_bytes (errs (chunks (runs env 0)))"
  using command_answered [OF assms] by (fastforce simp: fold_print_chunk)

text \<open>
  C18. A forbidden command is refused. In the same setting, for a command that contains a deny pattern, the
  server starts nothing, the client writes nothing to standard output, only the refusal to standard
  error, and exits with 126.
\<close>

theorem remote_denied:
  assumes "crypto_ok L" and "server_ready L sw cfg sks" and "sk \<in> set sks" and "distinguished L sk sks"
    and "auth_documents L cfg env sk sks" and "can_print w"
    and "load_or_create_signing_key L g key_file (disk w) = (d, Ok sk)"
    and "readable L (exec_json shell)"
    and "check_shell (uni_debug L) (policy cfg) shell = Err (PolicyDenied msg)"
    and "fits L (policy_denied_json msg)"
  shows "\<exists>acts w'. exchange L sw cfg env g key_file shell w acts (Ok ()) w' (Ok 126) \<and>
    starts acts = [] \<and> out_text w' = out_text w \<and>
    err_text w' = err_text w @ utf8_lossy (str_of_bytes (json_write L (policy_denied_json msg))) @ [nl]"
proof -
  let ?p = "json_write L (policy_denied_json msg)"
  have no: "\<not> allowed L cfg shell" using assms(9) by (simp add: allowed_def)
  have "exec_reply L cfg (runs env 0) shell =
      map (chunk_frame L) [] @ [\<lparr>msg_type = POLICY_DENIED, payload = ?p\<rparr>]"
    using assms(9) by (simp add: exec_reply_def)
  moreover have "closes L \<lparr>msg_type = POLICY_DENIED, payload = ?p\<rparr>
      (\<lambda>w. w\<lparr>err_text := err_text w @ utf8_lossy (str_of_bytes ?p) @ [nl]\<rparr>) 126"
    using assms(10) by (intro closes_denied) (simp add: fits_def)
  ultimately show ?thesis
    using exchange_answered [OF assms(1-8) _ _ _, of "[]"] no by fastforce
qed

text \<open>
  C17. An agent that is not registered gets nothing. If no registered key has the digest of the agent's key,
  the exchange ends with no process started, no output, and an error on the client that tells the user
  to have the key added; the client has not even sent the command.
\<close>

theorem remote_rejected:
  assumes "crypto_ok L" and "server_ready L sw cfg sks"
    and "\<forall>sk' \<in> set sks. sha256 L (vk_to_bytes L (verifying_key L sk'))
      \<noteq> sha256 L (vk_to_bytes L (verifying_key L sk))"
    and "auth_documents L cfg env sk sks" and "readable L unknown_json"
    and "load_or_create_signing_key L g key_file (disk w) = (d, Ok sk)"
  shows "\<exists>w' m. exchange L sw cfg env g key_file shell w [] (Ok ()) w' (Err (BoxMsg m)) \<and>
    prefix ''Authentication rejected'' m \<and> out_text w' = out_text w \<and> err_text w' = err_text w \<and>
    sent (inner (link w')) = frame_enc (response_frame L sk (nonce env) (session_id env))"
proof -
  obtain c m where e: "exchange L sw cfg env g key_file shell w [] (Ok ()) (w\<lparr>disk := d, link := c\<rparr>) (Err (BoxMsg m))"
    "prefix ''Authentication rejected'' m" "sent (inner c) = frame_enc (response_frame L sk (nonce env) (session_id env))"
    using exchange_rejected [OF assms] by blast
  then show ?thesis
    by (intro exI [of _ "w\<lparr>disk := d, link := c\<rparr>"] exI [of _ m]) simp
qed

section \<open>A concrete system\<close>

lemma demo_setting:
  "crypto_ok session_lib" "server_ready session_lib demo_server_fs demo_config [demo_sk]"
  "distinguished session_lib demo_sk [demo_sk]"
  "auth_documents session_lib demo_config demo_env demo_sk [demo_sk]"
  "auth_documents session_lib demo_config demo_env demo_stranger [demo_sk]"
  "readable session_lib unknown_json" "readable session_lib (exec_json ''rm -rf /'')"
  "can_print demo_world"
proof -
  show "crypto_ok session_lib" by (simp add: crypto_ok_def)
  show "server_ready session_lib demo_server_fs demo_config [demo_sk]"
    using demo_keys_text by (simp add: server_ready_def)
  show "distinguished session_lib demo_sk [demo_sk]" by (simp add: distinguished_def)
  show "can_print demo_world" by (simp add: can_print_def demo_world_def)
  have r: "readable session_lib j" if "j \<in> set demo_docs" for j
    using that demo_docs_read demo_docs_fit by (simp add: readable_def)
  show "readable session_lib unknown_json" "readable session_lib (exec_json ''rm -rf /'')"
    by (rule r, simp add: demo_docs_def unknown_json_def)+
  have a: "readable session_lib (result_json demo_config session_lib (agent_entry session_lib demo_sk))"
    "readable session_lib (challenge_json session_lib (nonce demo_env) (session_id demo_env))"
    using demo_readable(1,2) by (simp_all add: demo_entry_def)
  then show "auth_documents session_lib demo_config demo_env demo_sk [demo_sk]"
    "auth_documents session_lib demo_config demo_env demo_stranger [demo_sk]"
    by (simp_all add: auth_documents_def) (rule r, simp add: demo_docs_def session_lib_text)+
qed

lemma demo_key_file:
  "\<exists>d. load_or_create_signing_key session_lib k demo_key_path (disk demo_world) = (d, Ok k)"
  using demo_load_first [of demo_docs] by (fastforce simp: session_lib_def demo_world_def)

lemma demo_run:
  "exit_status (runs demo_env 0) = 0" "clean_run (runs demo_env 0)"
  "chunks (runs demo_env 0) = [ChunkOut [104, 105], ChunkErr [33]]"
  by (simp_all add: demo_env_def exit_status_def exit_code_of_def clean_run_def)

lemma demo_answered:
  assumes "can_print w" and "load_or_create_signing_key session_lib demo_sk key_file (disk w) = (d, Ok demo_sk)"
  shows "\<exists>acts w'. exchange session_lib demo_server_fs demo_config demo_env demo_sk key_file ''echo hi'' w acts (Ok ()) w' (Ok 0) \<and>
    sent (inner (link w')) = demo_upstream"
proof -
  have "readable session_lib (exec_json ''echo hi'')" "allowed session_lib demo_config ''echo hi''"
    using demo_docs_read demo_docs_fit demo_allowed by (simp_all add: readable_def demo_docs_def allowed_def)
  moreover have "\<forall>ch \<in> set (chunks (runs demo_env 0)). readable_chunk session_lib ch"
    "readable_exit session_lib (exit_status (runs demo_env 0))"
    using demo_readable(4,5) unfolding demo_run by simp_all
  moreover have "demo_sk \<in> set [demo_sk]" by simp
  ultimately obtain acts c where "exchange session_lib demo_server_fs demo_config demo_env demo_sk key_file ''echo hi'' w acts (Ok ())
      ((fold print_chunk (chunks (runs demo_env 0)) (w\<lparr>disk := d\<rparr>))\<lparr>link := c\<rparr>) (Ok (exit_status (runs demo_env 0)))"
    "sent (inner c) = concat (map frame_enc [response_frame session_lib demo_sk (nonce demo_env) (session_id demo_env),
       exec_request session_lib ''echo hi''])"
    using command_answered [OF demo_setting(1,2) _ demo_setting(3,4) assms] demo_run(2) by blast
  moreover have "demo_upstream = concat (map frame_enc [response_frame session_lib demo_sk (nonce demo_env) (session_id demo_env),
       exec_request session_lib ''echo hi''])"
    by (simp add: demo_upstream_def demo_response_def)
  moreover have "link (v\<lparr>link := c\<rparr>) = c" for v :: client_world by simp
  ultimately show ?thesis unfolding demo_run(1) by metis
qed

theorem remote_command_witness:
  "\<exists>acts w'. exchange session_lib demo_server_fs demo_config demo_env demo_sk demo_key_path ''echo hi''
      demo_world acts (Ok ()) w' (Ok 0) \<and>
    starts acts = [(''bash'', [''-lc'', ''echo hi''])] \<and> out_text w' = ''hi'' \<and> err_text w' = ''!''"
proof -
  obtain d where d: "load_or_create_signing_key session_lib demo_sk demo_key_path (disk demo_world) = (d, Ok demo_sk)"
    using demo_key_file by blast
  have "readable session_lib (exec_json ''echo hi'')"
    using demo_docs_read demo_docs_fit by (simp add: readable_def demo_docs_def)
  from remote_command [OF demo_setting(1,2) _ demo_setting(3,4,8) d this] demo_allowed demo_readable(4,5) demo_run
  have "\<exists>acts w'. exchange session_lib demo_server_fs demo_config demo_env demo_sk demo_key_path ''echo hi''
      demo_world acts (Ok ()) w' (Ok 0) \<and> starts acts = [shell_start demo_config ''echo hi''] \<and>
      out_text w' = out_text demo_world @ str_of_bytes [104, 105] \<and>
      err_text w' = err_text demo_world @ str_of_bytes [33]"
    by (simp add: allowed_def)
  then show ?thesis
    by (simp add: shell_start_def str_of_bytes_def char_of_byte_def demo_text)
       (simp add: demo_world_def)
qed

text \<open>The program run in full: a pinned server, a first run that creates the key, and the words of the command.\<close>

theorem run_command_witness:
  "\<exists>d down w'. client_main session_lib demo_sk (Some demo_home) (Run 8443 ''example.org'' [''echo'', ''hi''] False)
      (demo_client d down) = (w', Ok 0) \<and> out_text w' = ''hi'' \<and> err_text w' = ''!'' \<and> dials w' = 1"
proof -
  obtain d d' where k: "known_hosts_save session_lib demo_store (known_hosts_path demo_home) demo_empty_fs = (d, Ok ())"
    and d: "load_or_create_signing_key session_lib demo_sk (agent_key_path demo_home) d = (d', Ok demo_sk)"
    using demo_home_ready [of session_lib demo_sk] by auto
  define down where "down = server_out session_lib demo_server_fs demo_config demo_env demo_upstream"
  let ?w = "demo_client d down"
  have w: "disk ?w = d" "disk (dialled ?w) = d" "can_print ?w" "can_print (dialled ?w)"
    "out_text ?w = []" "err_text ?w = []" "dials ?w = 0"
    by (simp_all add: demo_client_def dialled_def can_print_def demo_world_def)
  have key: "load_or_create_signing_key session_lib demo_sk (agent_key_path demo_home) (disk ?w) = (d', Ok demo_sk)"
    "load_or_create_signing_key session_lib demo_sk (agent_key_path demo_home) (disk (dialled ?w)) = (d', Ok demo_sk)"
    using d by (simp_all only: w)
  have uni: "uni_lower session_lib = (\<lambda>s. s)" by (simp add: session_lib_def demo_lib_def)
  have spki: "spki_sha256_bytes_from_cert_der session_lib [1, 2, 3] = Ok demo_pin"
    by (simp add: spki_sha256_bytes_from_cert_der_def demo_pin_def) (simp add: session_lib_def demo_lib_def)
  note kh = demo_store_good [OF session_lib_simps(2) uni k]
  have good: "good_store session_lib (disk ?w) (known_hosts_path demo_home) demo_store" using kh(1) by (simp only: w)
  have cmd: "join '' '' [''echo'', ''hi''] = ''echo hi''" "allowed session_lib demo_config ''echo hi''"
    "readable session_lib (exec_json ''echo hi'')"
    using demo_docs_read demo_docs_fit demo_allowed by (simp_all add: allowed_def readable_def demo_docs_def)
  have run: "readable_exit session_lib (exit_status (runs demo_env 0))"
    "\<forall>ch \<in> set (chunks (runs demo_env 0)). readable_chunk session_lib ch"
    using demo_readable(4,5) unfolding demo_run by simp_all
  obtain acts v where e: "exchange session_lib demo_server_fs demo_config demo_env demo_sk (agent_key_path demo_home)
      ''echo hi'' (dialled ?w) acts (Ok ()) v (Ok 0)" "sent (inner (link v)) = demo_upstream"
    using demo_answered [OF w(4) key(2)] by blast
  note rest = exchange_rests [OF e(1) key(2) e(2), folded down_def]
  have "\<exists>sc acts w'. run_session session_lib demo_server_fs demo_config demo_env (codec_new (pipe_end demo_upstream)) =
      (sc, acts, Ok ()) \<and> starts acts = [shell_start demo_config (join '' '' [''echo'', ''hi''])] \<and>
    client_main session_lib demo_sk (Some demo_home) (Run 8443 ''example.org'' [''echo'', ''hi''] False) ?w =
      (w', Ok (exit_status (runs demo_env 0))) \<and>
    out_text w' = out_text ?w @ str_of_bytes (outs (chunks (runs demo_env 0))) \<and>
    err_text w' = err_text ?w @ str_of_bytes (errs (chunks (runs demo_env 0))) \<and>
    disk w' = d' \<and> dials w' = Suc (dials ?w)"
    by (rule run_command [OF demo_setting(1,2) _ demo_setting(3,4) w(3) key(1) _ _ demo_run(2) run(2,1)
          good kh(2) demo_leads_to [OF spki]])
       (simp_all only: cmd rest list.set insert_iff simp_thms)
  then show ?thesis
    unfolding demo_run w
    by (intro exI [of _ d] exI [of _ down]) (auto simp: str_of_bytes_def char_of_byte_def demo_text)
qed

lemma demo_denied: "check_shell (uni_debug session_lib) (policy demo_config) ''rm -rf /'' =
    Err (PolicyDenied (''matched deny pattern: '' @ debug_str (uni_debug session_lib) ''rm -rf /''))"
  by (simp add: check_shell_def contains_iff_sublist)

theorem remote_denied_witness:
  "\<exists>acts w'. exchange session_lib demo_server_fs demo_config demo_env demo_sk demo_key_path ''rm -rf /''
      demo_world acts (Ok ()) w' (Ok 126) \<and> starts acts = [] \<and> out_text w' = []"
proof -
  obtain d where d: "load_or_create_signing_key session_lib demo_sk demo_key_path (disk demo_world) = (d, Ok demo_sk)"
    using demo_key_file by blast
  have "fits session_lib (policy_denied_json (''matched deny pattern: '' @ debug_str (uni_debug session_lib) ''rm -rf /''))"
    by (simp add: session_lib_def demo_fits policy_denied_json_def debug_str_def escape_char_def code_def)
  from remote_denied [OF demo_setting(1,2) _ demo_setting(3,4,8) d demo_setting(7) demo_denied this]
  show ?thesis by (fastforce simp: demo_world_def)
qed

theorem remote_rejected_witness:
  "\<exists>w' m. exchange session_lib demo_server_fs demo_config demo_env demo_stranger demo_key_path ''echo hi''
      demo_world [] (Ok ()) w' (Err (BoxMsg m)) \<and> prefix ''Authentication rejected'' m"
proof -
  obtain d where d: "load_or_create_signing_key session_lib demo_stranger demo_key_path (disk demo_world) = (d, Ok demo_stranger)"
    using demo_key_file by blast
  have "\<forall>sk' \<in> set [demo_sk]. sha256 session_lib (vk_to_bytes session_lib (verifying_key session_lib sk'))
      \<noteq> sha256 session_lib (vk_to_bytes session_lib (verifying_key session_lib demo_stranger))"
    by (simp add: session_lib_def pad_eq_replicate demo_sk_def demo_stranger_def)
  from remote_rejected [OF demo_setting(1,2) this demo_setting(5,6) d] show ?thesis by blast
qed

text \<open>The recorded session, sent again to a server with another nonce.\<close>

definition demo_later :: session_env where
  "demo_later = demo_env\<lparr>nonce := replicate 32 6\<rparr>"

lemma demo_binds: "binds session_lib [demo_entry] {challenge_bytes demo_env, challenge_bytes demo_later}"
proof -
  have "length (challenge_bytes e) = 46" if "e \<in> {demo_env, demo_later}" for e
    using that by (auto simp: challenge_bytes_def signing_bytes_def PREFIX_def demo_later_def demo_env_def as_bytes_def)
  then have "pad 64 (k # challenge_bytes e) = k # challenge_bytes e @ replicate 17 0" if "e \<in> {demo_env, demo_later}" for e k
    using that by (simp add: pad_def)
  then have once: "m = m'" if "m \<in> {challenge_bytes demo_env, challenge_bytes demo_later}"
      "m' \<in> {challenge_bytes demo_env, challenge_bytes demo_later}" "pad 64 (k # m) = pad 64 (k # m')" for k m m'
    using that by auto
  have v: "verify_strict session_lib k m raw \<longleftrightarrow> raw = pad 64 (k # m)" for k m raw
    by (simp only: session_lib_def demo_lib_def lib.simps)
  show ?thesis
    unfolding binds_def v by (intro ballI allI impI, rule once) (assumption, assumption, elim conjE, rule trans [OF sym])
qed

theorem replay_is_rejected_witness:
  "\<exists>d r. run_session session_lib demo_server_fs demo_config demo_later demo_conn = (d, [], r)"
proof -
  obtain d acts r where run: "run_session session_lib demo_server_fs demo_config demo_later demo_conn = (d, acts, r)"
    using prod_cases3 by blast
  have n: "length (nonce demo_env) = length (nonce demo_later)" "nonce demo_env \<noteq> nonce demo_later"
    by (simp_all add: demo_env_def demo_later_def)
  have load: "load_authorized_keys session_lib demo_server_fs (authorized_keys_path demo_config) = Ok [demo_entry]" by simp
  have inp: "inp (inner demo_conn) = frame_enc demo_response @ frame_enc (exec_request session_lib ''echo hi'')"
    by (simp add: demo_upstream_def)
  have lim: "length (payload demo_response) \<le> codec_limit demo_conn"
    using demo_frames_fit(1) by (simp add: demo_conn_def codec_limit_default)
  have auth: "session_auth session_lib demo_server_fs demo_config demo_env demo_conn =
      (after_read (frame_enc (exec_request session_lib ''echo hi''))
        (emit [challenge_frame session_lib demo_env, granted_frame session_lib demo_config demo_entry] demo_conn),
       Ok (Some demo_entry))"
    using inp by (intro session_auth_grants [where resp = demo_response and keys = "[demo_entry]"])
      (simp_all add: demo_frames_fit demo_valid)
  from replay_is_rejected [OF load demo_binds n inp lim auth inp refl run] run show ?thesis by blast
qed

text \<open>The server's input cut after the authentication, and the client's input with bytes after the end.\<close>

theorem session_causal_witness:
  "\<exists>c' acts d' acts'.
    run_session session_lib demo_server_fs demo_config demo_env (codec_new (pipe_end (frame_enc demo_response))) =
      (c', acts, Ok ()) \<and>
    run_session session_lib demo_server_fs demo_config demo_env demo_conn = (d', acts', Ok ()) \<and>
    prefix (sent (inner c')) (sent (inner d')) \<and> prefix acts acts'"
proof -
  let ?b = "frame_enc (exec_request session_lib ''echo hi'')"
  obtain c' acts where 1: "run_session session_lib demo_server_fs demo_config demo_env
      (codec_new (pipe_end (frame_enc demo_response))) = (c', acts, Ok ())"
    using session_serves_client [of "codec_new (pipe_end (frame_enc demo_response))" session_lib demo_server_fs
        demo_config "[demo_entry]" demo_response "[]" demo_env demo_entry]
    by (auto simp: demo_valid demo_frames_fit)
  obtain d' acts' where 2: "run_session session_lib demo_server_fs demo_config demo_env demo_conn = (d', acts', Ok ())"
    using demo_session by blast
  have "demo_conn = feed_codec ?b None (codec_new (pipe_end (frame_enc demo_response)))"
    by (simp add: demo_conn_def demo_upstream_def feed_codec_def codec_new_def pipe_end_feed)
  from session_causal [OF 1 2 [unfolded this]] 1 2 show ?thesis by blast
qed

theorem client_causal_witness:
  "\<exists>w'. client_session session_lib demo_sk (pipe_end (concat (map frame_enc demo_down) @ [1, 2, 3])) demo_key_path
      ''echo hi'' demo_world = (w', Ok 0) \<and> out_text w' = ''hi''"
proof -
  obtain v where v: "client_session session_lib demo_sk (pipe_end (concat (map frame_enc demo_down))) demo_key_path
      ''echo hi'' demo_world = (v, Ok 0)" "out_text v = ''hi''"
    using demo_client_session by blast
  obtain v' r' where v': "client_session session_lib demo_sk (pipe_end (concat (map frame_enc demo_down) @ [1, 2, 3]))
      demo_key_path ''echo hi'' demo_world = (v', r')"
    by fastforce
  from client_causal [OF v(1) v' [unfolded pipe_end_feed]] v v' show ?thesis by simp
qed

theorem conversation_outcome_witness:
  "\<exists>u d. server_out session_lib demo_server_fs demo_config demo_env u = d \<and>
     client_out session_lib demo_sk demo_key_path ''echo hi'' demo_world d = u"
proof -
  let ?S = "server_out session_lib demo_server_fs demo_config demo_env"
    and ?C = "client_out session_lib demo_sk demo_key_path ''echo hi'' demo_world"
  have "arrives ?S ?C ([], [])" by (simp add: arrives_def)
  from talk.arrives_ends [OF this] obtain u d where "arrives ?S ?C (u, d)" "quiet ?S ?C (u, d)" by auto
  from conversation_outcome [OF this] show ?thesis by blast
qed

end
